(* ===== verification/Prelude.thy ===== *)
theory Prelude
  imports Main "HOL-Library.Word" "HOL-Library.Monad_Syntax"
begin

text \<open>
  Shared vocabulary of the development: the machine integer types of
  \<open>kernel/include/linux/types.h\<close>, C string literals as byte lists, the collections of
  simplification rules the component theories fill, and the locale of a machine that is run over
  a list of events, from which every component takes its "holds after every run" theorems.
\<close>

unbundle bit_operations_syntax

section \<open>Machine types\<close>

type_synonym u8 = "8 word"
type_synonym u16 = "16 word"
type_synonym u32 = "32 word"
type_synonym u64 = "64 word"
type_synonym uchar = "8 word"
type_synonym ushort = "16 word"
type_synonym uint = "32 word"
type_synonym size_t = "32 word"
type_synonym pid_t = "32 word"

text \<open>A C string literal is the list of its bytes without the terminating NUL.\<close>

definition cstr :: "string \<Rightarrow> u8 list" where
  "cstr s = map of_char s"

lemma cstr_Nil [simp]: "cstr [] = []"
  by (simp add: cstr_def)

lemma cstr_Cons [simp]: "cstr (c # cs) = of_char c # cstr cs"
  by (simp add: cstr_def)

lemma length_cstr [simp]: "length (cstr s) = length s"
  by (simp add: cstr_def)

named_theorems mem_simps "reading memory after a write"
named_theorems frame_simps "what an operation leaves unchanged"

section \<open>Words as numbers\<close>

lemma replicate_numeral [simp]: "replicate (numeral k) x = x # replicate (pred_numeral k) x"
  by (simp add: numeral_eq_Suc)

lemma unat_of_nat_small:
  "n < 2 ^ LENGTH('a) \<Longrightarrow> unat (of_nat n :: 'a::len word) = n"
  by (metis unsigned_of_nat take_bit_nat_eq_self of_nat_id)

lemma unat_add_small:
  fixes a :: "'a::len word"
  assumes "unat a + k < 2 ^ LENGTH('a)"
  shows "unat (a + of_nat k) = unat a + k"
proof -
  have "k < 2 ^ LENGTH('a)"
    using assms by simp
  then have "unat (of_nat k :: 'a word) = k"
    by (simp add: unat_of_nat_small)
  then show ?thesis
    using assms by (simp add: unat_word_ariths)
qed

lemma unat_sub_small:
  fixes a b :: "'a::len word"
  assumes "unat b \<le> unat a"
  shows "unat (a - b) = unat a - unat b"
  using assms by (simp add: unat_sub word_le_nat_alt)

lemma word_offset_unique:
  fixes a :: "'a::len word"
  assumes "i < 2 ^ LENGTH('a)" and "j < 2 ^ LENGTH('a)"
  shows "a + of_nat i = a + of_nat j \<longleftrightarrow> i = j"
proof
  assume "a + of_nat i = a + of_nat j"
  then have "(of_nat i :: 'a word) = of_nat j"
    by simp
  then have "unat (of_nat i :: 'a word) = unat (of_nat j :: 'a word)"
    by simp
  with assms show "i = j"
    by (simp add: unat_of_nat_small)
qed simp

lemma unat_offset:
  fixes a :: "'a::len word"
  assumes "i < 2 ^ LENGTH('a)"
  shows "unat (a + of_nat i - a) = i"
  using assms by (simp add: unat_of_nat_small)

lemma unat_minus_1_u32 [simp]: "unat (- 1 :: u32) = 4294967295"
  by (simp add: unsigned_minus_1_eq_mask mask_eq_exp_minus_1)

lemma unat_less_u32: "unat (x :: u32) < 4294967296"
  using unsigned_less [of x] by simp

text \<open>A signed decrement of a positive \<open>int\<close> is exact.\<close>

lemma sint_pred:
  fixes x :: u32
  assumes "0 <s x"
  shows "sint (x - 1) = sint x - 1"
proof -
  have "0 < sint x"
    using assms by (simp add: word_sless_alt)
  moreover have "sint x < 2 ^ 31"
    using sint_lt [of x] by simp
  ultimately show ?thesis
    by (simp add: sint_word_ariths signed_take_bit_int_eq_self)
qed

lemmas sless_0_numeral [simp] = word_sless_alt [of 0 "numeral n"] for n
lemmas sless_numeral_0 [simp] = word_sless_alt [of "numeral n" 0] for n
lemmas sless_1_numeral [simp] = word_sless_alt [of 1 "numeral n"] for n
lemmas sless_numeral_1 [simp] = word_sless_alt [of "numeral n" 1] for n
lemmas sless_1_0 [simp] = word_sless_alt [of 1 0]
lemmas sless_minus_1_0 [simp] = word_sless_alt [of "- 1" 0]
lemmas sless_numeral_minus_1 [simp] = word_sless_alt [of "numeral n" "- 1"] for n
lemmas sless_0_minus_1 [simp] = word_sless_alt [of 0 "- 1"]
lemmas sless_1_minus_1 [simp] = word_sless_alt [of 1 "- 1"]
lemmas sless_0_1 [simp] = word_sless_alt [of 0 1]
lemmas sless_minus_1_numeral [simp] = word_sless_alt [of "- 1" "numeral n"] for n
lemmas sless_minus_1_1 [simp] = word_sless_alt [of "- 1" 1]
lemmas sless_minus_numeral [simp] = word_sless_alt [of "- numeral k" "numeral n"] for k n
lemmas sless_minus_numeral_0 [simp] = word_sless_alt [of "- numeral k" 0] for k

lemma sint_diff_small:
  fixes x y :: u32
  assumes "- (2 ^ 31) \<le> sint x - sint y" and "sint x - sint y < 2 ^ 31"
  shows "sint (x - y) = sint x - sint y"
  using assms by (simp add: sint_word_ariths signed_take_bit_int_eq_self)

lemma sint_add_small:
  fixes x y :: u32
  assumes "- (2 ^ 31) \<le> sint x + sint y" and "sint x + sint y < 2 ^ 31"
  shows "sint (x + y) = sint x + sint y"
  using assms by (simp add: sint_word_ariths signed_take_bit_int_eq_self)

lemma sint_of_nat_small:
  assumes "n < 2 ^ 31"
  shows "sint (of_nat n :: u32) = int n"
  using assms by (simp add: signed_of_nat signed_take_bit_int_eq_self)

lemma unat_eq_nat_sint:
  fixes x :: u32
  assumes "0 \<le> sint x"
  shows "unat x = nat (sint x)"
proof -
  have "uint x = sint x"
    using assms using sint_lt [of x] by (simp add: uint_sint take_bit_int_eq_self)
  then show ?thesis
    by (simp add: unat_eq_nat_uint)
qed

section \<open>Machines run over a list of events\<close>

text \<open>
  A component's operations are partial: \<open>None\<close> stands for behaviour the C standard leaves undefined
  (an access outside an object) or for a loop that does not end. A component that keeps its
  invariant and is defined wherever the invariant holds can be run over any list of events.
\<close>

fun run_events :: "('s \<Rightarrow> 'e \<Rightarrow> 's option) \<Rightarrow> 's \<Rightarrow> 'e list \<Rightarrow> 's option" where
  "run_events step s [] = Some s"
| "run_events step s (e # es) =
     (case step s e of None \<Rightarrow> None | Some s' \<Rightarrow> run_events step s' es)"

lemma run_events_append:
  "run_events step s (es @ fs) =
     (case run_events step s es of None \<Rightarrow> None | Some s' \<Rightarrow> run_events step s' fs)"
  by (induction es arbitrary: s) (auto split: option.splits)

locale safe_machine =
  fixes step :: "'s \<Rightarrow> 'e \<Rightarrow> 's option"
    and inv :: "'s \<Rightarrow> bool"
  assumes step_safe: "inv s \<Longrightarrow> \<exists>s'. step s e = Some s' \<and> inv s'"
begin

lemma run_safe: "inv s \<Longrightarrow> \<exists>s'. run_events step s es = Some s' \<and> inv s'"
proof (induction es arbitrary: s)
  case Nil
  then show ?case by simp
next
  case (Cons e es)
  from step_safe [OF Cons.prems] obtain s' where "step s e = Some s'" and "inv s'"
    by blast
  with Cons.IH [of s'] show ?case
    by simp
qed

lemma run_inv: "inv s \<Longrightarrow> run_events step s es = Some s' \<Longrightarrow> inv s'"
  using run_safe [of s es] by auto

lemma run_returns: "inv s \<Longrightarrow> run_events step s es \<noteq> None"
  using run_safe [of s es] by auto

end

text \<open>
  A machine that implements an abstract one: \<open>abs\<close> commutes with the steps, hence with every run.
\<close>

locale simulation = safe_machine step inv
  for step :: "'s \<Rightarrow> 'e \<Rightarrow> 's option" and inv :: "'s \<Rightarrow> bool" +
  fixes abs :: "'s \<Rightarrow> 'a" and astep :: "'a \<Rightarrow> 'e \<Rightarrow> 'a"
  assumes step_abs: "inv s \<Longrightarrow> step s e = Some s' \<Longrightarrow> abs s' = astep (abs s) e"
begin

lemma run_abs: "inv s \<Longrightarrow> \<exists>s'. run_events step s es = Some s' \<and> inv s' \<and> abs s' = foldl astep (abs s) es"
proof (induction es arbitrary: s)
  case Nil
  then show ?case by simp
next
  case (Cons e es)
  from step_safe [OF Cons.prems] obtain t where t: "step s e = Some t" "inv t"
    by blast
  then have "abs t = astep (abs s) e"
    using step_abs [OF Cons.prems] by simp
  with t Cons.IH [OF t(2)] show ?case
    by simp
qed

end

end
