(* ===== verification/Flat_Memory.thy ===== *)
theory Flat_Memory
  imports Prelude
begin

text \<open>
  The physical memory every kernel component shares. The kernel runs with flat segments of base
  0 and (paging being off) addresses memory directly, so a C pointer is a 32-bit physical
  address and memory is a total map from addresses to bytes; the null pointer is address 0.
  Multi-byte objects are little-endian, as on the 80386. The lemmas say what a load reads after a
  store: the stored value at the same address, the old value at a disjoint one.
\<close>

type_synonym mem = "u32 \<Rightarrow> u8"

section \<open>Loads and stores\<close>

definition load16 :: "mem \<Rightarrow> u32 \<Rightarrow> u16" where
  "load16 m a = ucast (m a) OR push_bit 8 (ucast (m (a + 1)))"

definition store16 :: "mem \<Rightarrow> u32 \<Rightarrow> u16 \<Rightarrow> mem" where
  "store16 m a v = m(a := ucast v, a + 1 := ucast (drop_bit 8 v))"

definition load32 :: "mem \<Rightarrow> u32 \<Rightarrow> u32" where
  "load32 m a = ucast (m a) OR push_bit 8 (ucast (m (a + 1)))
     OR push_bit 16 (ucast (m (a + 2))) OR push_bit 24 (ucast (m (a + 3)))"

definition store32 :: "mem \<Rightarrow> u32 \<Rightarrow> u32 \<Rightarrow> mem" where
  "store32 m a v = m(a := ucast v, a + 1 := ucast (drop_bit 8 v),
     a + 2 := ucast (drop_bit 16 v), a + 3 := ucast (drop_bit 24 v))"

section \<open>Ranges of addresses\<close>

text \<open>
  \<open>in_range a n x\<close>: the address \<open>x\<close> is one of the \<open>n\<close> bytes from \<open>a\<close> on (addresses wrap at
  \<open>2 ^ 32\<close>, as the hardware's do).
\<close>

definition in_range :: "u32 \<Rightarrow> nat \<Rightarrow> u32 \<Rightarrow> bool" where
  "in_range a n x \<longleftrightarrow> unat (x - a) < n"

definition disjoint_ranges :: "u32 \<Rightarrow> nat \<Rightarrow> u32 \<Rightarrow> nat \<Rightarrow> bool" where
  "disjoint_ranges a n b k \<longleftrightarrow> (\<forall>x. in_range a n x \<longrightarrow> \<not> in_range b k x)"

definition same_on :: "(u32 \<Rightarrow> bool) \<Rightarrow> mem \<Rightarrow> mem \<Rightarrow> bool" where
  "same_on P m m' \<longleftrightarrow> (\<forall>x. P x \<longrightarrow> m' x = m x)"

text \<open>The bytes of a memory block, and a block written over memory.\<close>

definition mem_bytes :: "mem \<Rightarrow> u32 \<Rightarrow> nat \<Rightarrow> u8 list" where
  "mem_bytes m a n = map (\<lambda>i. m (a + of_nat i)) [0..<n]"

definition mem_write :: "mem \<Rightarrow> u32 \<Rightarrow> u8 list \<Rightarrow> mem" where
  "mem_write m a bs = (\<lambda>x. if in_range a (length bs) x then bs ! unat (x - a) else m x)"

lemma length_mem_bytes [simp]: "length (mem_bytes m a n) = n"
  by (simp add: mem_bytes_def)

lemma nth_mem_bytes [simp]: "i < n \<Longrightarrow> mem_bytes m a n ! i = m (a + of_nat i)"
  by (simp add: mem_bytes_def)

lemma in_range_offset [simp]:
  "i < 2 ^ 32 \<Longrightarrow> in_range a n (a + of_nat i) \<longleftrightarrow> i < n"
  by (simp add: in_range_def unat_of_nat_small)

lemma in_rangeE:
  assumes "in_range a n x"
  obtains i where "i < n" and "x = a + of_nat i"
proof
  show "unat (x - a) < n"
    using assms by (simp add: in_range_def)
  show "x = a + of_nat (unat (x - a))"
    by simp
qed

lemma in_range_nat:
  assumes "unat a + n \<le> 2 ^ 32"
  shows "in_range a n x \<longleftrightarrow> unat a \<le> unat x \<and> unat x < unat a + n"
proof (cases "unat a \<le> unat x")
  case True
  then show ?thesis
    by (auto simp: in_range_def unat_sub_small)
next
  case False
  then have "unat (x - a) = unat x + 2 ^ 32 - unat a"
    by (simp add: unat_sub_if_size word_size)
  then show ?thesis
    using assms False by (simp add: in_range_def)
qed

lemma disjoint_rangesI:
  assumes "unat a + n \<le> 2 ^ 32" and "unat b + k \<le> 2 ^ 32"
    and "unat a + n \<le> unat b \<or> unat b + k \<le> unat a"
  shows "disjoint_ranges a n b k"
  using assms by (auto simp: disjoint_ranges_def in_range_nat)

lemma mem_write_nth:
  "i < length bs \<Longrightarrow> length bs \<le> 2 ^ 32 \<Longrightarrow> mem_write m a bs (a + of_nat i) = bs ! i"
  by (simp add: mem_write_def in_range_def unat_of_nat_small)

lemma mem_write_other [mem_simps]: "\<not> in_range a (length bs) x \<Longrightarrow> mem_write m a bs x = m x"
  by (simp add: mem_write_def)

lemma mem_write_Nil [simp]: "mem_write m a [] = m"
  by (simp add: mem_write_def in_range_def fun_eq_iff)

lemma mem_bytes_write:
  "length bs \<le> 2 ^ 32 \<Longrightarrow> mem_bytes (mem_write m a bs) a (length bs) = bs"
  by (auto intro!: nth_equalityI simp: mem_write_nth)

text \<open>Writing a block front to back, as every byte loop of the kernel does.\<close>

lemma mem_write_Cons:
  assumes "length bs < 2 ^ 32"
  shows "mem_write m a (b # bs) = mem_write (m(a := b)) (a + 1) bs"
proof
  fix x
  show "mem_write m a (b # bs) x = mem_write (m(a := b)) (a + 1) bs x"
  proof (cases "x = a")
    case True
    have "unat (- 1 :: u32) = 2 ^ 32 - 1"
      by (simp add: unsigned_minus_1_eq_mask mask_eq_exp_minus_1)
    then show ?thesis
      using assms True by (simp add: mem_write_def in_range_def)
  next
    case False
    then have "0 < unat (x - a)"
      by (simp add: unat_gt_0)
    then have "unat (x - (a + 1)) = unat (x - a) - 1"
      using unat_sub_small [of 1 "x - a"] by (simp add: algebra_simps)
    with \<open>0 < unat (x - a)\<close> False show ?thesis
      by (auto simp: mem_write_def in_range_def)
  qed
qed

section \<open>Reading after writing\<close>

lemma byte_cases4: "i < (4::nat) \<Longrightarrow> i = 0 \<or> i = 1 \<or> i = 2 \<or> i = 3"
  by arith

lemma store32_other [mem_simps]: "\<not> in_range a 4 x \<Longrightarrow> store32 m a v x = m x"
  by (auto simp: store32_def in_range_def)

lemma store16_other [mem_simps]: "\<not> in_range a 2 x \<Longrightarrow> store16 m a v x = m x"
  by (auto simp: store16_def in_range_def)

lemma load32_cong:
  assumes "\<And>x. in_range a 4 x \<Longrightarrow> m' x = m x"
  shows "load32 m' a = load32 m a"
  using assms [of a] assms [of "a + 1"] assms [of "a + 2"] assms [of "a + 3"]
  by (simp add: load32_def in_range_def)

lemma load16_cong:
  assumes "\<And>x. in_range a 2 x \<Longrightarrow> m' x = m x"
  shows "load16 m' a = load16 m a"
  using assms [of a] assms [of "a + 1"]
  by (simp add: load16_def in_range_def)

lemma load32_store32 [simp]: "load32 (store32 m a v) a = v"
proof (rule bit_word_eqI)
  fix n
  assume "n < LENGTH(32)"
  then have "n < 8 \<or> 8 \<le> n \<and> n < 16 \<or> 16 \<le> n \<and> n < 24 \<or> 24 \<le> n \<and> n < 32"
    by auto
  then show "bit (load32 (store32 m a v) a) n = bit v n"
    by (elim disjE) (auto simp: load32_def store32_def bit_simps)
qed

lemma load16_store16 [simp]: "load16 (store16 m a v) a = v"
  by (rule bit_word_eqI) (auto simp: load16_def store16_def bit_simps)

lemma disjoint_ranges_sym: "disjoint_ranges a n b k \<Longrightarrow> disjoint_ranges b k a n"
  by (auto simp: disjoint_ranges_def)

lemma load32_store32_disjoint [mem_simps]:
  "disjoint_ranges b 4 a 4 \<Longrightarrow> load32 (store32 m a v) b = load32 m b"
  by (rule load32_cong) (simp add: store32_other disjoint_ranges_def)

lemma load16_store32_disjoint [mem_simps]:
  "disjoint_ranges b 2 a 4 \<Longrightarrow> load16 (store32 m a v) b = load16 m b"
  by (rule load16_cong) (simp add: store32_other disjoint_ranges_def)

lemma load32_store16_disjoint [mem_simps]:
  "disjoint_ranges b 4 a 2 \<Longrightarrow> load32 (store16 m a v) b = load32 m b"
  by (rule load32_cong) (simp add: store16_other disjoint_ranges_def)

lemma load16_store16_disjoint [mem_simps]:
  "disjoint_ranges b 2 a 2 \<Longrightarrow> load16 (store16 m a v) b = load16 m b"
  by (rule load16_cong) (simp add: store16_other disjoint_ranges_def)

lemma load32_mem_write_disjoint [mem_simps]:
  "disjoint_ranges b 4 a (length bs) \<Longrightarrow> load32 (mem_write m a bs) b = load32 m b"
  by (rule load32_cong) (simp add: mem_write_other disjoint_ranges_def)

lemma load16_mem_write_disjoint [mem_simps]:
  "disjoint_ranges b 2 a (length bs) \<Longrightarrow> load16 (mem_write m a bs) b = load16 m b"
  by (rule load16_cong) (simp add: mem_write_other disjoint_ranges_def)

lemma in_range_weaken: "in_range a n x \<Longrightarrow> n \<le> k \<Longrightarrow> in_range a k x"
  by (simp add: in_range_def)

lemma in_range_sub:
  assumes "in_range (a + of_nat i) n x" and "i + n \<le> k" and "k \<le> 2 ^ 32"
  shows "in_range a k x"
proof -
  from assms(1) obtain j where j: "j < n" "x = a + of_nat i + of_nat j"
    by (rule in_rangeE)
  then have "x = a + of_nat (i + j)"
    by simp
  moreover have "i + j < k"
    using j assms by simp
  ultimately show ?thesis
    using in_range_offset [of "i + j" a k] assms(3) by simp
qed

lemma same_on_refl [simp]: "same_on P m m"
  by (simp add: same_on_def)

lemma same_on_trans: "same_on P m m' \<Longrightarrow> same_on P m' m'' \<Longrightarrow> same_on P m m''"
  by (simp add: same_on_def)

end
