(* ===== verification/String_Lib.thy ===== *)
theory String_Lib
  imports Flat_Memory
begin

text \<open>
  The four routines of \<open>kernel/lib/string.c\<close> over the flat memory: \<open>strlen\<close>, \<open>memcpy\<close>, \<open>memset\<close>
  and \<open>strcpy\<close>. The counted loops are recursive on the count; the loops that search for a NUL
  byte may run forever, so \<open>strlen\<close> and \<open>strcpy\<close> are partial functions and not returning is
  \<open>None\<close>. The lemmas give the result of each routine: the position of the first NUL, the block
  written, what is untouched, and for \<open>memcpy\<close> the overlaps for which a forward byte copy is right.
\<close>

section \<open>The routines\<close>

partial_function (option) strlen_loop :: "mem \<Rightarrow> u32 \<Rightarrow> u32 \<Rightarrow> u32 option" where
  "strlen_loop m str ptr =
     (if m ptr \<noteq> 0 then strlen_loop m str (ptr + 1) else Some (ptr - str))"

definition strlen :: "mem \<Rightarrow> u32 \<Rightarrow> u32 option" where
  "strlen m str = strlen_loop m str str"

fun memcpy_loop :: "mem \<Rightarrow> u32 \<Rightarrow> u32 \<Rightarrow> nat \<Rightarrow> mem" where
  "memcpy_loop m ptr src 0 = m"
| "memcpy_loop m ptr src (Suc count) =
     memcpy_loop (m(ptr := m src)) (ptr + 1) (src + 1) count"

definition memcpy :: "mem \<Rightarrow> u32 \<Rightarrow> u32 \<Rightarrow> u32 \<Rightarrow> u32 \<times> mem" where
  "memcpy m dest src count = (dest, memcpy_loop m dest src (unat count))"

fun memset_loop :: "mem \<Rightarrow> u32 \<Rightarrow> u8 \<Rightarrow> nat \<Rightarrow> mem" where
  "memset_loop m ptr ch 0 = m"
| "memset_loop m ptr ch (Suc count) = memset_loop (m(ptr := ch)) (ptr + 1) ch count"

definition memset :: "mem \<Rightarrow> u32 \<Rightarrow> u32 \<Rightarrow> u32 \<Rightarrow> u32 \<times> mem" where
  "memset m dest ch count = (dest, memset_loop m dest (ucast ch) (unat count))"

partial_function (option) strcpy_loop :: "mem \<Rightarrow> u32 \<Rightarrow> u32 \<Rightarrow> mem option" where
  "strcpy_loop m ptr src =
     (let m' = m(ptr := m src)
      in if m' src = 0 then Some m' else strcpy_loop m' (ptr + 1) (src + 1))"

definition strcpy :: "mem \<Rightarrow> u32 \<Rightarrow> u32 \<Rightarrow> (u32 \<times> mem) option" where
  "strcpy m dest src = map_option (Pair dest) (strcpy_loop m dest src)"

section \<open>strlen\<close>

text \<open>\<open>c_string m a s\<close>: the NUL-terminated string \<open>s\<close> is stored at \<open>a\<close>.\<close>

fun c_string :: "mem \<Rightarrow> u32 \<Rightarrow> u8 list \<Rightarrow> bool" where
  "c_string m a [] \<longleftrightarrow> m a = 0"
| "c_string m a (b # bs) \<longleftrightarrow> b \<noteq> 0 \<and> m a = b \<and> c_string m (a + 1) bs"

lemma c_string_nonzero: "c_string m a s \<Longrightarrow> 0 \<notin> set s"
  by (induction s arbitrary: a) auto

lemma strlen_loop_c_string:
  "c_string m p s \<Longrightarrow> strlen_loop m a p = Some (p + of_nat (length s) - a)"
  by (induction s arbitrary: p) (simp_all add: strlen_loop.simps algebra_simps)

lemma strlen_loop_returns:
  "m (p + of_nat n) = 0 \<Longrightarrow> \<exists>r. strlen_loop m a p = Some r"
proof (induction n arbitrary: p)
  case 0
  then show ?case by (simp add: strlen_loop.simps)
next
  case (Suc n)
  then have "m ((p + 1) + of_nat n) = 0"
    by (simp add: algebra_simps)
  then have "\<exists>r. strlen_loop m a (p + 1) = Some r"
    by (rule Suc.IH)
  then show ?case
    by (subst strlen_loop.simps) simp
qed

lemma strlen_loop_stops_at_zero:
  assumes "strlen_loop m a p = Some r"
  shows "m (a + r) = 0"
proof (rule strlen_loop.raw_induct [where P = "\<lambda>m a p r. m (a + r) = 0", OF _ assms])
  fix f :: "mem \<Rightarrow> u32 \<Rightarrow> u32 \<Rightarrow> u32 option" and m a p r
  assume IH: "\<And>m a p r. f m a p = Some r \<Longrightarrow> m (a + r) = 0"
    and "(if m p \<noteq> 0 then f m a (p + 1) else Some (p - a)) = Some r"
  then show "m (a + r) = 0"
    by (auto split: if_splits)
qed

text \<open>The string \<open>strlen\<close> measures is the one stored there.\<close>

definition c_string_at :: "mem \<Rightarrow> u32 \<Rightarrow> u8 list option" where
  "c_string_at m a = map_option (\<lambda>n. mem_bytes m a (unat n)) (strlen m a)"

lemma c_string_nth: "c_string m a s \<Longrightarrow> i < length s \<Longrightarrow> m (a + of_nat i) = s ! i"
proof (induction s arbitrary: a i)
  case Nil
  then show ?case by simp
next
  case (Cons b s)
  show ?case
  proof (cases i)
    case 0
    with Cons.prems show ?thesis by simp
  next
    case (Suc j)
    with Cons.prems Cons.IH [of "a + 1" j] show ?thesis
      by (simp add: algebra_simps)
  qed
qed

lemma c_string_at_c_string:
  assumes "c_string m a s" and "length s < 2 ^ 32"
  shows "c_string_at m a = Some s"
proof -
  have "strlen m a = Some (of_nat (length s))"
    using strlen_loop_c_string [OF assms(1), of a] by (simp add: strlen_def)
  moreover have "mem_bytes m a (length s) = s"
    by (rule nth_equalityI) (simp_all add: c_string_nth [OF assms(1)])
  ultimately show ?thesis
    using assms(2) by (simp add: c_string_at_def unat_of_nat_small)
qed

section \<open>memcpy, memset, strcpy\<close>

lemma memset_loop_write:
  "n < 2 ^ 32 \<Longrightarrow> memset_loop m p c n = mem_write m p (replicate n c)"
  by (induction n arbitrary: m p) (simp_all add: mem_write_Cons)

lemma memset_write: "memset m d c n = (d, mem_write m d (replicate (unat n) (ucast c)))"
  using unat_less_u32 [of n] by (simp add: memset_def memset_loop_write)

text \<open>
  A forward byte copy reproduces the source when the destination does not start strictly inside
  it; that covers disjoint blocks and moving a block down, which is how the console uses it.
\<close>

lemma memcpy_loop_other [mem_simps]:
  "n < 2 ^ 32 \<Longrightarrow> \<not> in_range d n x \<Longrightarrow> memcpy_loop m d s n x = m x"
proof (induction n arbitrary: m d s)
  case 0
  then show ?case by simp
next
  case (Suc n)
  then have "x \<noteq> d"
    using in_range_offset [of 0 d "Suc n"] by auto
  moreover have "\<not> in_range (d + 1) n x"
    using Suc.prems in_range_sub [of d 1 n x "Suc n"] by auto
  ultimately show ?case
    using Suc by simp
qed

lemma memcpy_loop_nth:
  assumes "d = s \<or> n \<le> unat (d - s)" and "n < 2 ^ 32" and "i < n"
  shows "memcpy_loop m d s n (d + of_nat i) = m (s + of_nat i)"
  using assms
proof (induction n arbitrary: m d s i)
  case 0
  then show ?case by simp
next
  case (Suc n)
  let ?m = "m(d := m s)"
  have cond: "d + 1 = s + 1 \<or> n \<le> unat (d + 1 - (s + 1))"
    using Suc.prems(1) by auto
  show ?case
  proof (cases i)
    case 0
    have "memcpy_loop ?m (d + 1) (s + 1) n d = ?m d"
      using Suc.prems(2) by (intro memcpy_loop_other) (simp_all add: in_range_def)
    with 0 show ?thesis by simp
  next
    case (Suc j)
    have ne: "s + of_nat (Suc j) \<noteq> d \<or> d = s"
    proof (rule ccontr)
      assume "\<not> ?thesis"
      then have d: "d = s + of_nat (Suc j)" and "d \<noteq> s" by auto
      then have "unat (d - s) = Suc j"
        using Suc.prems(2,3) Suc unat_offset [of "Suc j" s] by simp
      with Suc.prems(1,3) Suc \<open>d \<noteq> s\<close> show False by simp
    qed
    have "memcpy_loop ?m (d + 1) (s + 1) n (d + 1 + of_nat j) = ?m (s + 1 + of_nat j)"
      using cond Suc.prems(2,3) Suc by (intro Suc.IH) auto
    moreover have "?m (s + of_nat (Suc j)) = m (s + of_nat (Suc j))"
      using ne by (auto simp del: of_nat_Suc)
    ultimately show ?thesis
      using Suc by (simp add: add.assoc)
  qed
qed

lemma memcpy_loop_write:
  assumes "d = s \<or> n \<le> unat (d - s)" and "n < 2 ^ 32"
  shows "memcpy_loop m d s n = mem_write m d (mem_bytes m s n)"
proof
  fix x
  show "memcpy_loop m d s n x = mem_write m d (mem_bytes m s n) x"
  proof (cases "in_range d n x")
    case True
    then obtain i where "i < n" and "x = d + of_nat i"
      by (rule in_rangeE)
    then show ?thesis
      using assms by (simp add: memcpy_loop_nth mem_write_nth)
  next
    case False
    then show ?thesis
      using assms by (simp add: memcpy_loop_other mem_write_other)
  qed
qed

text \<open>
  \<open>strcpy\<close> copies the string and its NUL, provided the destination does not start inside the
  string.
\<close>

lemma c_string_upd [mem_simps]:
  assumes "c_string m p s" and "length s + 1 < 2 ^ 32" and "\<not> in_range p (length s + 1) d"
  shows "c_string (m(d := b)) p s"
  using assms
proof (induction s arbitrary: p)
  case Nil
  then show ?case
    using in_range_offset [of 0 p 1] by auto
next
  case (Cons c s)
  then have "p \<noteq> d"
    using in_range_offset [of 0 p] by auto
  moreover have "\<not> in_range (p + 1) (length s + 1) d"
    using Cons.prems in_range_sub [of p 1 "length s + 1" d "length s + 2"] by auto
  ultimately show ?case
    using Cons by simp
qed

lemma strcpy_loop_write:
  assumes "c_string m p s" and "length s + 1 < 2 ^ 32" and "d = p \<or> length s + 1 \<le> unat (d - p)"
  shows "strcpy_loop m d p = Some (mem_write m d (s @ [0]))"
  using assms
proof (induction s arbitrary: m p d)
  case Nil
  then show ?case
    by (simp add: strcpy_loop.simps mem_write_Cons Let_def fun_eq_iff)
next
  case (Cons b s)
  let ?m = "m(d := m p)"
  have head: "?m p = b" "m p = b" "b \<noteq> 0"
    using Cons.prems(1) by auto
  have tail: "c_string ?m (p + 1) s"
  proof (cases "d = p")
    case True
    then have "?m = m" by simp
    with Cons.prems(1) show ?thesis by simp
  next
    case False
    then have "\<not> in_range p (length s + 2) d"
      using Cons.prems(3) by (simp add: in_range_def)
    then have "\<not> in_range (p + 1) (length s + 1) d"
      using Cons.prems(2) in_range_sub [of p 1 "length s + 1" d "length s + 2"] by auto
    with Cons.prems(1,2) show ?thesis
      by (intro c_string_upd) auto
  qed
  have "strcpy_loop ?m (d + 1) (p + 1) = Some (mem_write ?m (d + 1) (s @ [0]))"
    using Cons.prems(2,3) by (intro Cons.IH [OF tail]) auto
  with head Cons.prems(2) show ?case
    by (subst strcpy_loop.simps) (simp add: mem_write_Cons Let_def)
qed

end
