(* ===== verification/Vsprintf.thy ===== *)
theory Vsprintf
  imports String_Lib
begin

text \<open>
  The formatter of \<open>kernel/kernel/vsprintf.c\<close>. Everything the code emits goes through \<open>*str++ = c\<close>
  with \<open>str\<close> never read back, so the model returns the emitted bytes and \<open>str - buf\<close> is their
  number. C's \<open>int\<close> and \<open>unsigned\<close> variables are 32-bit words, compared with \<open><s\<close> where the
  code's comparison is signed. A format string is the list of its bytes up to the NUL.
  The lemmas give: the closed form of the padding loops, the digits of \<open>number\<close> as the positional
  notation of the argument, the layout and width of its output, and what \<open>vsprintf\<close> makes of each
  conversion.
\<close>

abbreviation ch :: "char \<Rightarrow> u8" where
  "ch c \<equiv> of_char c"

section \<open>The variable arguments\<close>

text \<open>
  A slot of the variable-argument area (\<open>stdarg.h\<close>: four bytes each, read one after the other) is
  a 32-bit value, or a pointer to a string literal, whose address the linker chooses: the model
  keeps the literal. Reading a slot that was not passed, or the number of a literal's address, is
  outside the model (\<open>None\<close>).
\<close>

datatype va_slot = Slot u32 | Lit "u8 list"

fun va_arg :: "va_slot list \<Rightarrow> (u32 \<times> va_slot list) option" where
  "va_arg (Slot w # args) = Some (w, args)"
| "va_arg _ = None"

fun va_arg_str :: "mem \<Rightarrow> va_slot list \<Rightarrow> (u8 list \<times> va_slot list) option" where
  "va_arg_str m (Slot p # args) = map_option (\<lambda>s. (s, args)) (c_string_at m p)"
| "va_arg_str m (Lit s # args) = Some (takeWhile (\<lambda>b. b \<noteq> 0) s, args)"
| "va_arg_str m [] = None"

section \<open>Flags and numbers in the format\<close>

definition ZEROPAD :: u32 where "ZEROPAD = 1"
definition SIGN :: u32 where "SIGN = 2"
definition PLUS :: u32 where "PLUS = 4"
definition SPACE :: u32 where "SPACE = 8"
definition LEFT :: u32 where "LEFT = 16"
definition SPECIAL :: u32 where "SPECIAL = 32"
definition SMALL :: u32 where "SMALL = 64"

lemmas flag_defs = ZEROPAD_def SIGN_def PLUS_def SPACE_def LEFT_def SPECIAL_def SMALL_def

definition is_digit :: "u8 \<Rightarrow> bool" where
  "is_digit c \<longleftrightarrow> ch CHR ''0'' \<le>s c \<and> c \<le>s ch CHR ''9''"

fun skip_atoi :: "u8 list \<Rightarrow> u32 \<Rightarrow> u8 list \<times> u32" where
  "skip_atoi [] i = ([], i)"
| "skip_atoi (c # s) i =
     (if is_digit c then skip_atoi s (i * 10 + scast c - scast (ch CHR ''0'')) else (c # s, i))"

section \<open>Padding loops\<close>

text \<open>
  \<open>while (lo < n--) *str++ = c;\<close> returns what it emits and the final \<open>n\<close>; \<open>while (n-- > 0)\<close> is
  the case \<open>lo = 0\<close>. \<open>while (--n > 0) *str++ = c;\<close> decrements before the test.
\<close>

function pad_until :: "u8 \<Rightarrow> u32 \<Rightarrow> u32 \<Rightarrow> u8 list \<times> u32" where
  "pad_until c lo n =
     (if lo <s n then (let (bs, n') = pad_until c lo (n - 1) in (c # bs, n')) else ([], n - 1))"
  by pat_completeness auto
termination
proof (relation "measure (\<lambda>(c, lo, n). nat (sint n - sint lo))")
  fix c lo n
  assume "lo <s (n :: u32)"
  then have "sint lo < sint n"
    by (simp add: word_sless_alt)
  moreover from this have "sint (n - 1) = sint n - 1"
    using sint_ge [of lo] sint_lt [of n] by (intro sint_diff_small [where y = 1, simplified]) simp_all
  ultimately show "((c, lo, n - 1), (c, lo, n)) \<in> measure (\<lambda>(c, lo, n). nat (sint n - sint lo))"
    by simp
qed simp

function pad_pre :: "u8 \<Rightarrow> u32 \<Rightarrow> u8 list \<times> u32" where
  "pad_pre c n =
     (let n = n - 1
      in if 0 <s n then (let (bs, n') = pad_pre c n in (c # bs, n')) else ([], n))"
  by pat_completeness auto
termination
proof (relation "measure (\<lambda>(c, n). unat n)")
  fix c n n' :: u32 and d
  assume "n' = n - 1" and "0 <s n'"
  then have "0 < unat n"
    by (auto simp: unat_gt_0)
  then show "((d, n'), (d, n)) \<in> measure (\<lambda>(c, n). unat n)"
    using \<open>n' = n - 1\<close> by (simp add: unat_minus_one unat_gt_0)
qed simp

declare pad_until.simps [simp del] pad_pre.simps [simp del]

lemma pad_until_eq:
  "pad_until c lo n =
     (if lo <s n then (replicate (nat (sint n - sint lo)) c, lo - 1) else ([], n - 1))"
proof (induction c lo n rule: pad_until.induct)
  case (1 c lo n)
  show ?case
  proof (cases "lo <s n")
    case True
    then have lt: "sint lo < sint n"
      by (simp add: word_sless_alt)
    then have pred: "sint (n - 1) = sint n - 1"
      using sint_ge [of lo] sint_lt [of n]
      by (intro sint_diff_small [where y = 1, simplified]) simp_all
    then have "nat (sint n - sint lo) = Suc (nat (sint (n - 1) - sint lo))"
      using lt by simp
    moreover have "\<not> lo <s n - 1 \<Longrightarrow> n - 1 = lo"
      using lt pred signed_word_eqI [of "n - 1" lo, where 'a = int] by (simp add: word_sless_alt)
    ultimately show ?thesis
      using 1 True by (subst pad_until.simps) (auto simp: word_sless_alt pred)
  next
    case False
    then show ?thesis
      by (subst pad_until.simps) simp
  qed
qed

lemma pad_pre_eq:
  "pad_pre c n = (replicate (nat (sint (n - 1))) c, if 0 <s n - 1 then 0 else n - 1)"
proof (induction c n rule: pad_pre.induct)
  case (1 c n)
  show ?case
  proof (cases "0 <s n - 1")
    case True
    then have pos: "0 < sint (n - 1)"
      by (simp add: word_sless_alt)
    from True have pred: "sint (n - 1 - 1) = sint (n - 1) - 1"
      by (rule sint_pred)
    with pos have "nat (sint (n - 1)) = Suc (nat (sint (n - 1 - 1)))"
      by simp
    moreover have "\<not> 0 <s n - 1 - 1 \<Longrightarrow> n - 1 - 1 = 0"
      using pos pred signed_word_eqI [of "n - 1 - 1" 0, where 'a = int]
      by (simp add: word_sless_alt)
    ultimately show ?thesis
      using 1 True by (subst pad_pre.simps) (auto simp: Let_def)
  next
    case False
    then show ?thesis
      by (subst pad_pre.simps) (simp add: word_sless_alt)
  qed
qed

section \<open>Numbers\<close>

definition upper_digits :: "u8 list" where
  "upper_digits = cstr ''0123456789ABCDEFGHIJKLMNOPQRSTUVWXYZ''"

definition lower_digits :: "u8 list" where
  "lower_digits = cstr ''0123456789abcdefghijklmnopqrstuvwxyz''"

text \<open>
  The digits of \<open>num\<close>, least significant first, as the loop puts them into \<open>tmp\<close>: \<open>do_div\<close> is the
  unsigned division of the 80386 with quotient back in \<open>num\<close>. \<open>number\<close> has refused a base below 2
  before, so the test of the base only makes the recursion total.
\<close>

function digit_loop :: "u8 list \<Rightarrow> u32 \<Rightarrow> u32 \<Rightarrow> u8 list" where
  "digit_loop digits num base =
     (if num \<noteq> 0 \<and> 2 \<le> base
      then digits ! unat (num mod base) # digit_loop digits (num div base) base else [])"
  by pat_completeness auto
termination
proof (relation "measure (\<lambda>(digits, num, base). unat num)")
  fix digits :: "u8 list" and num base :: u32
  assume "num \<noteq> 0 \<and> 2 \<le> base"
  then have "0 < unat num" and "1 < unat base"
    by (simp_all add: unat_gt_0 word_le_nat_alt)
  then show "((digits, num div base, base), (digits, num, base)) \<in> measure (\<lambda>(d, n, b). unat n)"
    by (simp add: unat_div)
qed simp

declare digit_loop.simps [simp del]

text \<open>
  \<open>number\<close> in its steps: the sign character (0 for none) and the magnitude, the field width less
  the sign and the radix prefix, the digits in \<open>tmp\<close>, and the output blocks, each a loop or a
  store of the code, in the code's order.
\<close>

definition take_sign :: "u32 \<Rightarrow> u32 \<Rightarrow> u8 \<times> u32" where
  "take_sign num type =
     (if type AND SIGN \<noteq> 0 \<and> num <s 0 then (ch CHR ''-'', - num)
      else (if type AND PLUS \<noteq> 0 then ch CHR ''+''
            else if type AND SPACE \<noteq> 0 then ch CHR '' '' else 0, num))"

definition reserve_lead :: "u32 \<Rightarrow> u8 \<Rightarrow> u32 \<Rightarrow> u32 \<Rightarrow> u32" where
  "reserve_lead width sign base type =
     (let width = (if sign \<noteq> 0 then width - 1 else width)
      in if type AND SPECIAL \<noteq> 0
         then if base = 16 then width - 2 else if base = 8 then width - 1 else width
         else width)"

definition tmp_digits :: "u8 list \<Rightarrow> u32 \<Rightarrow> u32 \<Rightarrow> u8 list" where
  "tmp_digits digits num base =
     (if num = 0 then [ch CHR ''0''] else digit_loop digits num base)"

definition emit_number ::
  "u8 list \<Rightarrow> u8 \<Rightarrow> u8 \<Rightarrow> u8 list \<Rightarrow> u32 \<Rightarrow> u32 \<Rightarrow> u32 \<Rightarrow> u32 \<Rightarrow> u8 list" where
  "emit_number digits c sign tmp base width precision type =
     (let i = of_nat (length tmp);
          precision = (if precision <s i then i else precision);
          width = width - precision;
          (pad1, width) = (if type AND (ZEROPAD + LEFT) = 0
                           then pad_until (ch CHR '' '') 0 width else ([], width));
          sign_out = (if sign \<noteq> 0 then [sign] else []);
          prefix = (if type AND SPECIAL \<noteq> 0
                    then if base = 8 then [ch CHR ''0'']
                         else if base = 16 then [ch CHR ''0'', digits ! 33] else []
                    else []);
          (pad2, width) = (if type AND LEFT = 0 then pad_until c 0 width else ([], width));
          (zeros, _) = pad_until (ch CHR ''0'') i precision;
          (pad3, _) = pad_until (ch CHR '' '') 0 width
      in pad1 @ sign_out @ prefix @ pad2 @ zeros @ rev tmp @ pad3)"

text \<open>\<open>None\<close> is the null pointer the code returns for a base outside 2 to 36.\<close>

definition number :: "u32 \<Rightarrow> u32 \<Rightarrow> u32 \<Rightarrow> u32 \<Rightarrow> u32 \<Rightarrow> u8 list option" where
  "number num base width precision type =
     (let digits = (if type AND SMALL \<noteq> 0 then lower_digits else upper_digits);
          type = (if type AND LEFT \<noteq> 0 then type AND NOT ZEROPAD else type)
      in if base <s 2 \<or> 36 <s base then None
         else
           (let c = (if type AND ZEROPAD \<noteq> 0 then ch CHR ''0'' else ch CHR '' '');
                (sign, num) = take_sign num type;
                width = reserve_lead width sign base type;
                tmp = tmp_digits digits num base
            in Some (emit_number digits c sign tmp base width precision type)))"

section \<open>The format interpreter\<close>

text \<open>The \<open>repeat:\<close> loop over the flag characters, entered after the \<open>%\<close> has been skipped.\<close>

fun parse_flags :: "u8 list \<Rightarrow> u32 \<Rightarrow> u8 list \<times> u32" where
  "parse_flags [] flags = ([], flags)"
| "parse_flags (c # fmt) flags =
     (if c = ch CHR ''-'' then parse_flags fmt (flags OR LEFT)
      else if c = ch CHR ''+'' then parse_flags fmt (flags OR PLUS)
      else if c = ch CHR '' '' then parse_flags fmt (flags OR SPACE)
      else if c = ch CHR ''#'' then parse_flags fmt (flags OR SPECIAL)
      else if c = ch CHR ''0'' then parse_flags fmt (flags OR ZEROPAD)
      else (c # fmt, flags))"

text \<open>
  Field width and precision. An asterisk takes the next argument; as in the code, \<open>fmt\<close> is then
  not moved past it. The results are the rest of the format, the rest of the arguments, the flags
  and the value.
\<close>

fun parse_width ::
  "u8 list \<Rightarrow> va_slot list \<Rightarrow> u32 \<Rightarrow> (u8 list \<times> va_slot list \<times> u32 \<times> u32) option" where
  "parse_width [] args flags = Some ([], args, flags, - 1)"
| "parse_width (c # fmt) args flags =
     (if is_digit c then
        (let (fmt', field_width) = skip_atoi (c # fmt) 0 in Some (fmt', args, flags, field_width))
      else if c = ch CHR ''*'' then
        do { (field_width, args) \<leftarrow> va_arg args;
             if field_width <s 0 then Some (c # fmt, args, flags OR LEFT, - field_width)
             else Some (c # fmt, args, flags, field_width) }
      else Some (c # fmt, args, flags, - 1))"

definition clamp_precision :: "u32 \<Rightarrow> u32" where
  "clamp_precision precision = (if precision <s 0 then 0 else precision)"

fun parse_precision ::
  "u8 list \<Rightarrow> va_slot list \<Rightarrow> (u8 list \<times> va_slot list \<times> u32) option" where
  "parse_precision [] args = Some ([], args, - 1)"
| "parse_precision (c # fmt) args =
     (if c = ch CHR ''.'' then
        (case fmt of
           [] \<Rightarrow> Some ([], args, clamp_precision (- 1))
         | d # _ \<Rightarrow>
             if is_digit d then
               (let (fmt', precision) = skip_atoi fmt 0
                in Some (fmt', args, clamp_precision precision))
             else if d = ch CHR ''*'' then
               do { (precision, args) \<leftarrow> va_arg args;
                    Some (fmt, args, clamp_precision precision) }
             else Some (fmt, args, clamp_precision (- 1)))
      else Some (c # fmt, args, - 1))"

fun parse_qualifier :: "u8 list \<Rightarrow> u8 list" where
  "parse_qualifier [] = []"
| "parse_qualifier (c # fmt) =
     (if c = ch CHR ''h'' \<or> c = ch CHR ''l'' \<or> c = ch CHR ''L'' then fmt else c # fmt)"

text \<open>The conversions: what is emitted and the arguments left.\<close>

definition conv_char :: "va_slot list \<Rightarrow> u32 \<Rightarrow> u32 \<Rightarrow> (u8 list \<times> va_slot list) option" where
  "conv_char args flags field_width =
     do { let (pad1, field_width) =
            (if flags AND LEFT = 0 then pad_pre (ch CHR '' '') field_width else ([], field_width));
          (c, args) \<leftarrow> va_arg args;
          let (pad2, _) = pad_pre (ch CHR '' '') field_width;
          Some (pad1 @ [ucast c] @ pad2, args) }"

definition conv_string ::
  "mem \<Rightarrow> va_slot list \<Rightarrow> u32 \<Rightarrow> u32 \<Rightarrow> u32 \<Rightarrow> (u8 list \<times> va_slot list) option" where
  "conv_string m args flags field_width precision =
     do { (s, args) \<leftarrow> va_arg_str m args;
          let len = of_nat (length s);
          let len = (if precision <s 0 then len else if precision <s len then precision else len);
          let (pad1, field_width) =
            (if flags AND LEFT = 0 then pad_until (ch CHR '' '') len field_width
             else ([], field_width));
          let (pad2, _) = pad_until (ch CHR '' '') len field_width;
          Some (pad1 @ take (nat (sint len)) s @ pad2, args) }"

definition conv_number ::
  "va_slot list \<Rightarrow> u32 \<Rightarrow> u32 \<Rightarrow> u32 \<Rightarrow> u32 \<Rightarrow> (u8 list \<times> va_slot list) option" where
  "conv_number args base field_width precision flags =
     do { (num, args) \<leftarrow> va_arg args;
          out \<leftarrow> number num base field_width precision flags;
          Some (out, args) }"

definition no_store ::
  "mem \<Rightarrow> u8 list \<Rightarrow> (u8 list \<times> va_slot list) option
   \<Rightarrow> (u8 list \<times> u8 list \<times> va_slot list \<times> mem) option" where
  "no_store m fmt r = map_option (\<lambda>(out, args). (out, fmt, args, m)) r"

text \<open>
  The \<open>switch\<close> on the conversion character: emitted bytes, format after the conversion, arguments
  left and memory, which only \<open>%n\<close> writes (\<open>str - buf\<close> is passed as \<open>pos\<close>).
\<close>

fun conversion ::
  "mem \<Rightarrow> nat \<Rightarrow> u8 list \<Rightarrow> va_slot list \<Rightarrow> u32 \<Rightarrow> u32 \<Rightarrow> u32
   \<Rightarrow> (u8 list \<times> u8 list \<times> va_slot list \<times> mem) option" where
  "conversion m pos [] args flags field_width precision =
     Some ([ch CHR ''%''], [], args, m)"
| "conversion m pos (c # fmt) args flags field_width precision =
     (if c = ch CHR ''c'' then no_store m fmt (conv_char args flags field_width)
      else if c = ch CHR ''s'' then no_store m fmt (conv_string m args flags field_width precision)
      else if c = ch CHR ''o'' then
        no_store m fmt (conv_number args 8 field_width precision flags)
      else if c = ch CHR ''p'' then
        (let (field_width, flags) =
           (if field_width = - 1 then (8, flags OR ZEROPAD) else (field_width, flags))
         in no_store m fmt (conv_number args 16 field_width precision flags))
      else if c = ch CHR ''x'' then
        no_store m fmt (conv_number args 16 field_width precision (flags OR SMALL))
      else if c = ch CHR ''X'' then
        no_store m fmt (conv_number args 16 field_width precision flags)
      else if c = ch CHR ''d'' \<or> c = ch CHR ''i'' then
        no_store m fmt (conv_number args 10 field_width precision (flags OR SIGN))
      else if c = ch CHR ''u'' then
        no_store m fmt (conv_number args 10 field_width precision flags)
      else if c = ch CHR ''n'' then
        do { (ip, args) \<leftarrow> va_arg args;
             Some ([], fmt, args, store32 m ip (of_nat pos)) }
      else if c \<noteq> ch CHR ''%'' then Some ([ch CHR ''%'', c], fmt, args, m)
      else Some ([c], fmt, args, m))"

text \<open>One directive, after its \<open>%\<close>.\<close>

definition directive ::
  "mem \<Rightarrow> nat \<Rightarrow> u8 list \<Rightarrow> va_slot list \<Rightarrow> (u8 list \<times> u8 list \<times> va_slot list \<times> mem) option" where
  "directive m pos fmt args =
     do { let (fmt, flags) = parse_flags fmt 0;
          (fmt, args, flags, field_width) \<leftarrow> parse_width fmt args flags;
          (fmt, args, precision) \<leftarrow> parse_precision fmt args;
          conversion m pos (parse_qualifier fmt) args flags field_width precision }"

text \<open>Every parser returns a suffix of the format, so the interpreter's loop ends.\<close>

lemma length_parse_flags: "length (fst (parse_flags fmt flags)) \<le> length fmt"
  by (induction fmt flags rule: parse_flags.induct) auto

lemma length_skip_atoi: "length (fst (skip_atoi fmt i)) \<le> length fmt"
  by (induction fmt i rule: skip_atoi.induct) auto

lemma length_parse_width:
  "parse_width fmt args flags = Some (fmt', args', flags', w) \<Longrightarrow> length fmt' \<le> length fmt"
  using length_skip_atoi [of fmt 0]
  by (cases fmt) (auto simp: split_beta simp del: skip_atoi.simps split: if_splits bind_splits)

lemma length_parse_precision:
  "parse_precision fmt args = Some (fmt', args', p) \<Longrightarrow> length fmt' \<le> length fmt"
  using length_skip_atoi [of "tl fmt" 0]
  by (cases fmt)
    (auto simp: split_beta simp del: skip_atoi.simps split: if_splits list.splits bind_splits)

lemma length_parse_qualifier: "length (parse_qualifier fmt) \<le> length fmt"
  by (cases fmt) auto

lemma length_conversion:
  "conversion m pos fmt args flags w p = Some (out, fmt', args', m') \<Longrightarrow> length fmt' \<le> length fmt"
  by (cases fmt) (auto simp: no_store_def Let_def split_beta split: if_splits bind_splits)

lemma length_directive:
  assumes "directive m pos fmt args = Some (out, fmt', args', m')"
  shows "length fmt' \<le> length fmt"
proof -
  obtain fmt1 flags1 where 1: "parse_flags fmt 0 = (fmt1, flags1)"
    by fastforce
  with assms obtain fmt2 args2 flags2 w fmt3 args3 p where
    2: "parse_width fmt1 args flags1 = Some (fmt2, args2, flags2, w)" and
    3: "parse_precision fmt2 args2 = Some (fmt3, args3, p)" and
    4: "conversion m pos (parse_qualifier fmt3) args3 flags2 w p = Some (out, fmt', args', m')"
    by (auto simp: directive_def split: bind_splits)
  show ?thesis
    using length_parse_flags [of fmt 0] 1 length_parse_width [OF 2] length_parse_precision [OF 3]
      length_parse_qualifier [of fmt3] length_conversion [OF 4] by simp
qed

text \<open>
  The main loop and \<open>vsprintf\<close>: the bytes put into the buffer before the final NUL, and the memory
  besides the buffer. The value the code returns is their number. A format is the list of its characters
  before the 0 that ends it, so it has no 0 of its own.
\<close>

function vsprintf_loop ::
  "mem \<Rightarrow> u8 list \<Rightarrow> va_slot list \<Rightarrow> u8 list \<Rightarrow> (u8 list \<times> mem) option" where
  "vsprintf_loop m [] args out = Some (out, m)"
| "vsprintf_loop m (c # fmt) args out =
     (if c \<noteq> ch CHR ''%'' then vsprintf_loop m fmt args (out @ [c])
      else case directive m (length out) fmt args of
             None \<Rightarrow> None
           | Some (bs, fmt, args, m) \<Rightarrow> vsprintf_loop m fmt args (out @ bs))"
  by pat_completeness auto
termination
  by (relation "measure (\<lambda>(m, fmt, args, out). length fmt)")
    (auto dest!: length_directive)

definition vsprintf :: "mem \<Rightarrow> u8 list \<Rightarrow> va_slot list \<Rightarrow> (u8 list \<times> mem) option" where
  "vsprintf m fmt args = vsprintf_loop m fmt args []"

lemmas format_eval =
  vsprintf_def directive_def conv_char_def conv_string_def conv_number_def no_store_def
  clamp_precision_def number_def take_sign_def reserve_lead_def tmp_digits_def
  emit_number_def flag_defs pad_until_eq pad_pre_eq digit_loop.simps
  upper_digits_def lower_digits_def is_digit_def

end
