(* ===== verification/Number_Format.thy ===== *)
theory Number_Format
  imports Vsprintf
begin

text \<open>
  What \<open>number\<close> of \<open>vsprintf.c\<close> computes, stated without its counters: a reference definition
  over natural numbers and integers, the lemma that the code's loops compute it, the round trip
  through the code's own \<open>skip_atoi\<close>, and the bound that keeps the digits inside \<open>tmp[36]\<close>.
\<close>

section \<open>Positional notation\<close>

fun nat_digits :: "nat \<Rightarrow> nat \<Rightarrow> nat list" where
  "nat_digits b n = (if n = 0 \<or> b < 2 then [] else n mod b # nat_digits b (n div b))"

declare nat_digits.simps [simp del]

lemma nat_digits_0 [simp]: "nat_digits b 0 = []"
  by (subst nat_digits.simps) simp

lemma nat_digits_step:
  "0 < n \<Longrightarrow> 2 \<le> b \<Longrightarrow> nat_digits b n = n mod b # nat_digits b (n div b)"
  by (subst nat_digits.simps) simp

lemma nat_digits_value:
  "2 \<le> b \<Longrightarrow> foldr (\<lambda>d v. d + b * v) (nat_digits b n) 0 = n"
proof (induction b n rule: nat_digits.induct)
  case (1 b n)
  then show ?case
    by (cases "n = 0") (simp_all add: nat_digits_step)
qed

lemma nat_digits_less: "d \<in> set (nat_digits b n) \<Longrightarrow> d < b"
proof (induction b n rule: nat_digits.induct)
  case (1 b n)
  then show ?case
    by (cases "n = 0 \<or> b < 2") (auto simp: nat_digits.simps [of b n])
qed

lemma length_nat_digits:
  "n < b ^ k \<Longrightarrow> length (nat_digits b n) \<le> k"
proof (induction b n arbitrary: k rule: nat_digits.induct)
  case (1 b n)
  show ?case
  proof (cases "n = 0 \<or> b < 2")
    case True
    then show ?thesis by (simp add: nat_digits.simps [of b n])
  next
    case False
    with "1.prems" obtain k' where k: "k = Suc k'"
      by (cases k) auto
    with "1.prems" have "n div b < b ^ k'"
      by (simp add: less_mult_imp_div_less mult.commute)
    with "1.IH" False have "length (nat_digits b (n div b)) \<le> k'"
      by simp
    with False k show ?thesis
      by (simp add: nat_digits_step)
  qed
qed

lemma digit_loop_nat_digits:
  assumes "2 \<le> base"
  shows "digit_loop digits num base = map (\<lambda>d. digits ! d) (nat_digits (unat base) (unat num))"
  using assms
proof (induction digits num base rule: digit_loop.induct)
  case (1 digits num base)
  then have "2 \<le> unat base"
    by (simp add: word_le_nat_alt)
  show ?case
  proof (cases "num = 0")
    case True
    then show ?thesis by (subst digit_loop.simps) simp
  next
    case False
    then have "0 < unat num"
      by (simp add: unat_gt_0)
    with 1 False \<open>2 \<le> unat base\<close> show ?thesis
      by (subst digit_loop.simps) (simp add: nat_digits_step unat_mod unat_div)
  qed
qed

text \<open>The digits printed, most significant first, and never more than \<open>tmp[36]\<close> holds.\<close>

definition shown_digits :: "u8 list \<Rightarrow> nat \<Rightarrow> nat \<Rightarrow> u8 list" where
  "shown_digits digits b n =
     (if n = 0 then [ch CHR ''0''] else rev (map (\<lambda>d. digits ! d) (nat_digits b n)))"

lemma length_shown_digits:
  assumes "2 \<le> b" and "n < 2 ^ 32"
  shows "length (shown_digits digits b n) \<le> 32"
proof -
  have "n < b ^ 32"
    using assms power_mono [of 2 b 32] by (simp add: order_less_le_trans)
  then show ?thesis
    by (simp add: shown_digits_def length_nat_digits)
qed

lemma shown_digits_not_Nil [simp]: "shown_digits digits b n = [] \<longleftrightarrow> n \<noteq> 0 \<and> b < 2"
  by (auto simp: shown_digits_def nat_digits.simps [of b n])

section \<open>The reference definition of a formatted number\<close>

text \<open>
  The sign character and the magnitude: with \<open>SIGN\<close> the word is read as two's complement.
\<close>

definition number_sign :: "u32 \<Rightarrow> u32 \<Rightarrow> u8 list" where
  "number_sign num type =
     (if type AND SIGN \<noteq> 0 \<and> sint num < 0 then [ch CHR ''-'']
      else if type AND PLUS \<noteq> 0 then [ch CHR ''+'']
      else if type AND SPACE \<noteq> 0 then [ch CHR '' ''] else [])"

definition number_magnitude :: "u32 \<Rightarrow> u32 \<Rightarrow> nat" where
  "number_magnitude num type =
     (if type AND SIGN \<noteq> 0 then nat \<bar>sint num\<bar> else unat num)"

definition digit_set :: "u32 \<Rightarrow> u8 list" where
  "digit_set type = (if type AND SMALL \<noteq> 0 then lower_digits else upper_digits)"

definition number_prefix :: "u32 \<Rightarrow> u32 \<Rightarrow> u8 list" where
  "number_prefix base type =
     (if type AND SPECIAL \<noteq> 0
      then if base = 8 then [ch CHR ''0'']
           else if base = 16 then [ch CHR ''0'', digit_set type ! 33] else []
      else [])"

definition number_body :: "u32 \<Rightarrow> u32 \<Rightarrow> int \<Rightarrow> u32 \<Rightarrow> u8 list" where
  "number_body num base precision type =
     (let ds = shown_digits (digit_set type) (unat base) (number_magnitude num type)
      in replicate (nat precision - length ds) (ch CHR ''0'') @ ds)"

definition number_ref :: "u32 \<Rightarrow> u32 \<Rightarrow> int \<Rightarrow> int \<Rightarrow> u32 \<Rightarrow> u8 list" where
  "number_ref num base width precision type =
     (let lead = number_sign num type @ number_prefix base type;
          body = number_body num base precision type;
          fill = nat width - length (lead @ body)
      in if type AND LEFT \<noteq> 0 then lead @ body @ replicate fill (ch CHR '' '')
         else if type AND ZEROPAD \<noteq> 0 then lead @ replicate fill (ch CHR ''0'') @ body
         else replicate fill (ch CHR '' '') @ lead @ body)"

lemma number_magnitude_less: "number_magnitude num type < 2 ^ 32"
  using sint_ge [of num] sint_lt [of num] unat_less_u32 [of num]
  by (auto simp: number_magnitude_def)

text \<open>Minimum width: the result is never shorter than the field and never cut.\<close>

lemma length_number_ref:
  "length (number_ref num base width precision type) =
     max (nat width) (length (number_sign num type @ number_prefix base type)
       + length (number_body num base precision type))"
  by (auto simp: number_ref_def Let_def)

section \<open>The code computes the reference definition\<close>

lemma flag_bits:
  "type AND ZEROPAD = 0 \<longleftrightarrow> \<not> bit type 0"
  "type AND SIGN = 0 \<longleftrightarrow> \<not> bit type 1"
  "type AND PLUS = 0 \<longleftrightarrow> \<not> bit type 2"
  "type AND SPACE = 0 \<longleftrightarrow> \<not> bit type 3"
  "type AND LEFT = 0 \<longleftrightarrow> \<not> bit type 4"
  "type AND SPECIAL = 0 \<longleftrightarrow> \<not> bit type 5"
  "type AND SMALL = 0 \<longleftrightarrow> \<not> bit type 6"
  using and_exp_eq_0_iff_not_bit [of type 0] and_exp_eq_0_iff_not_bit [of type 1]
    and_exp_eq_0_iff_not_bit [of type 2] and_exp_eq_0_iff_not_bit [of type 3]
    and_exp_eq_0_iff_not_bit [of type 4] and_exp_eq_0_iff_not_bit [of type 5]
    and_exp_eq_0_iff_not_bit [of type 6]
  by (simp_all add: flag_defs)

lemma bit_ZEROPAD: "bit ZEROPAD n \<longleftrightarrow> n = 0"
  by (simp add: ZEROPAD_def bit_1_iff)

lemma zeropad_or_left:
  "type AND (ZEROPAD + LEFT) = 0 \<longleftrightarrow> \<not> bit type 0 \<and> \<not> bit type 4"
proof -
  have "ZEROPAD + LEFT = ZEROPAD OR LEFT"
    by (simp add: flag_defs)
  then have "type AND (ZEROPAD + LEFT) = (type AND ZEROPAD) OR (type AND LEFT)"
    by (simp add: bit.conj_disj_distrib)
  then show ?thesis
    by (simp add: flag_bits or_eq_0_iff)
qed

lemmas type_bits = flag_bits zeropad_or_left bit_and_iff bit_not_iff bit_ZEROPAD

lemma unat_uminus:
  fixes x :: u32
  assumes "sint x < 0"
  shows "unat (- x) = nat \<bar>sint x\<bar>"
proof -
  have "word_of_int (sint x) = x"
    by (metis scast_eq scast_id)
  then have "- x = of_nat (nat (- sint x))"
    using assms of_nat_nat [of "- sint x", where 'a = u32] by simp
  then show ?thesis
    using assms sint_ge [of x] unat_of_nat_small [of "nat (- sint x)", where 'a = 32] by simp
qed

lemma unat_eq_abs_sint:
  fixes x :: u32
  shows "\<not> sint x < 0 \<Longrightarrow> unat x = nat \<bar>sint x\<bar>"
  using unat_eq_nat_sint [of x] by simp

lemma take_sign_eq:
  assumes "take_sign num type = (sign, num')"
  shows "number_sign num type = (if sign \<noteq> 0 then [sign] else [])"
    and "unat num' = number_magnitude num type"
proof -
  have "sign = (if type AND SIGN \<noteq> 0 \<and> sint num < 0 then ch CHR ''-''
      else if type AND PLUS \<noteq> 0 then ch CHR ''+'' else if type AND SPACE \<noteq> 0 then ch CHR '' '' else 0)"
    using assms by (simp add: take_sign_def word_sless_alt split: if_splits)
  then show "number_sign num type = (if sign \<noteq> 0 then [sign] else [])"
    by (simp add: number_sign_def)
  have "num' = (if type AND SIGN \<noteq> 0 \<and> sint num < 0 then - num else num)"
    using assms by (auto simp add: take_sign_def word_sless_alt split: if_splits)
  then show "unat num' = number_magnitude num type"
    by (simp add: number_magnitude_def unat_uminus unat_eq_abs_sint)
qed

lemma sint_reserve_lead:
  assumes "- (2 ^ 30) \<le> sint width"
  shows "sint (reserve_lead width sign base type) =
    sint width - int (length (if sign \<noteq> 0 then [sign] else []))
      - int (length (number_prefix base type))"
proof -
  have step: "sint (width - 1) = sint width - 1" "sint (width - 2) = sint width - 2"
    "sint (width - 3) = sint width - 3"
    using assms sint_lt [of width] sint_diff_small [of width 1] sint_diff_small [of width 2]
      sint_diff_small [of width 3] by simp_all
  show ?thesis
    using assms by (simp add: reserve_lead_def number_prefix_def step Let_def)
qed

text \<open>A padding loop leaves its counter below zero, so a second one over it emits nothing.\<close>

lemma pad_until_0_counter:
  assumes "- (2 ^ 31) < sint n"
  shows "sint (snd (pad_until c 0 n)) = (if 0 < sint n then - 1 else sint n - 1)"
  using assms sint_lt [of n] sint_diff_small [of n 1] by (simp add: pad_until_eq word_sless_alt)

lemma pad_until_0_idle: "sint n \<le> 0 \<Longrightarrow> fst (pad_until c 0 n) = []"
  by (simp add: pad_until_eq word_sless_alt)

lemma emit_number_eq:
  fixes digits tmp :: "u8 list" and c sign :: u8 and base width precision type :: u32
  assumes "length tmp \<le> 32" and "\<bar>sint width\<bar> \<le> 2 ^ 29 + 3" and "\<bar>sint precision\<bar> \<le> 2 ^ 29"
  defines "lead \<equiv> (if sign \<noteq> 0 then [sign] else []) @
      (if type AND SPECIAL \<noteq> 0
       then if base = 8 then [ch CHR ''0''] else if base = 16 then [ch CHR ''0'', digits ! 33] else []
       else [])"
    and "body \<equiv> replicate (nat (sint precision) - length tmp) (ch CHR ''0'') @ rev tmp"
  shows "emit_number digits c sign tmp base width precision type =
    (let fill = nat (sint width) - length body
     in if type AND LEFT \<noteq> 0 then lead @ body @ replicate fill (ch CHR '' '')
        else if type AND ZEROPAD \<noteq> 0 then lead @ replicate fill c @ body
        else replicate fill (ch CHR '' '') @ lead @ body)"
proof -
  define i where "i = (of_nat (length tmp) :: u32)"
  define p where "p = (if precision <s i then i else precision)"
  define n where "n = width - p"
  have i: "sint i = int (length tmp)"
    unfolding i_def using assms(1) by (intro sint_of_nat_small) simp
  then have p: "sint p = max (sint precision) (int (length tmp))"
    by (simp add: p_def word_sless_alt)
  have n: "sint n = sint width - sint p"
    unfolding n_def using assms(1-3) p by (intro sint_diff_small) auto
  have low: "- (2 ^ 31) + 2 < sint n"
    using assms(1-3) p n by auto
  have "int (length body) = sint p"
    using p by (simp add: body_def)
  then have fill: "nat (sint n) = nat (sint width) - length body"
    using n by simp
  have zeros: "fst (pad_until b i p) = replicate (nat (sint precision) - length tmp) b" for b
  proof (cases "int (length tmp) < sint precision")
    case True
    then show ?thesis
      using i p by (simp add: pad_until_eq word_sless_alt nat_diff_distrib)
  next
    case False
    then have "\<not> i <s p" and "nat (sint precision) - length tmp = 0"
      using i p by (simp_all add: word_sless_alt)
    then show ?thesis
      by (simp add: pad_until_eq)
  qed
  have first: "fst (pad_until b 0 n) = replicate (nat (sint width) - length body) b" for b
    using fill by (auto simp: pad_until_eq word_sless_alt)
  have again: "fst (pad_until b 0 (snd (pad_until b' 0 n))) = []" for b b'
    using low by (intro pad_until_0_idle) (simp add: pad_until_0_counter)
  have again': "fst (pad_until b 0 (snd (pad_until b' 0 (snd (pad_until b'' 0 n))))) = []" for b b' b''
    using low by (intro pad_until_0_idle) (simp add: pad_until_0_counter)
  show ?thesis
    unfolding emit_number_def Let_def split_beta zeropad_or_left i_def [symmetric]
      p_def [symmetric] n_def [symmetric]
    by (auto simp: flag_bits first again again' zeros lead_def body_def)
qed

text \<open>
  The refinement: for the bases the code accepts and fields up to \<open>2 ^ 29\<close> characters, \<open>number\<close>
  writes the reference layout.
\<close>

lemma number_refines:
  assumes "2 \<le>s base" and "base \<le>s 36"
    and "\<bar>sint width\<bar> \<le> 2 ^ 29" and "\<bar>sint precision\<bar> \<le> 2 ^ 29"
  shows "number num base width precision type =
    Some (number_ref num base (sint width) (sint precision) type)"
proof -
  have base: "2 \<le> sint base" "sint base \<le> 36"
    using assms(1,2) by (simp_all add: word_sle_eq)
  then have ubase: "2 \<le> unat base"
    using unat_eq_nat_sint [of base] by simp
  then have base2: "2 \<le> base"
    by (simp add: word_le_nat_alt)
  obtain sign num' where ts: "take_sign num type = (sign, num')"
    by fastforce
  define lead where "lead = length (if sign \<noteq> 0 then [sign] else []) + length (number_prefix base type)"
  define tmp where "tmp = tmp_digits (digit_set type) num' base"
  define type' where "type' = (if type AND LEFT \<noteq> 0 then type AND NOT ZEROPAD else type)"
  define w where "w = reserve_lead width sign base type"
  have special: "type' AND SPECIAL = 0 \<longleftrightarrow> type AND SPECIAL = 0"
    and left: "type' AND LEFT = 0 \<longleftrightarrow> type AND LEFT = 0"
    and zeropad: "type AND LEFT = 0 \<Longrightarrow> type' = type"
    and sign': "take_sign num type' = take_sign num type"
    and reserve': "reserve_lead width sign base type' = w"
    by (auto simp: type'_def w_def take_sign_def reserve_lead_def type_bits Let_def)
  have digits: "rev tmp = shown_digits (digit_set type) (unat base) (number_magnitude num type)"
    using take_sign_eq(2) [OF ts] base2
    by (simp add: tmp_def tmp_digits_def shown_digits_def digit_loop_nat_digits rev_map
        flip: unat_eq_0)
  then have len: "length tmp \<le> 32"
    using length_shown_digits [OF ubase number_magnitude_less, of "digit_set type" num type]
    by (metis length_rev)
  have tlen: "length tmp = length (shown_digits (digit_set type) (unat base) (number_magnitude num type))"
    by (metis digits length_rev)
  have sign_out: "(if sign \<noteq> 0 then [sign] else []) = number_sign num type"
    using take_sign_eq(1) [OF ts] by simp
  have prefix: "(if type' AND SPECIAL \<noteq> 0
      then if base = 8 then [ch CHR ''0'']
           else if base = 16 then [ch CHR ''0'', digit_set type ! 33] else []
      else []) = number_prefix base type"
    by (simp add: special number_prefix_def)
  have sw: "sint w = sint width - int lead" and "lead \<le> 3"
    using assms(3) by (simp_all add: w_def lead_def sint_reserve_lead number_prefix_def)
  then have "\<bar>sint w\<bar> \<le> 2 ^ 29 + 3" and fill: "nat (sint w) = nat (sint width) - lead"
    using assms(3) by auto
  note emit = emit_number_eq [OF len this(1) assms(4), where sign = sign and type = type' and base = base and digits = "digit_set type"]
  have "\<not> base <s 2" and "\<not> 36 <s base"
    using base by (simp_all add: word_sless_alt)
  then have "number num base width precision type =
    Some (emit_number (digit_set type) (if type' AND ZEROPAD \<noteq> 0 then ch CHR ''0'' else ch CHR '' '')
      sign tmp base w precision type')"
    using ts sign' reserve'
    by (simp add: number_def Let_def tmp_def flip: digit_set_def type'_def)
  also have "\<dots> = Some (number_ref num base (sint width) (sint precision) type)"
    unfolding emit prefix sign_out digits
    by (cases "type AND LEFT = 0")
      (auto simp: left zeropad number_ref_def number_body_def Let_def fill lead_def sign_out tlen)
  finally show ?thesis .
qed

section \<open>Printing and reading back\<close>

lemma decimal_digit:
  assumes "d < 10"
  shows "is_digit (digit_set type ! d)"
    and "i * 10 + scast (digit_set type ! d) - 48 = (i * 10 + of_nat d :: u32)"
proof -
  have d: "d \<in> {0, 1, 2, 3, 4, 5, 6, 7, 8, 9}"
    using assms by auto
  then show "is_digit (digit_set type ! d)"
    by (auto simp: is_digit_def digit_set_def upper_digits_def lower_digits_def word_sle_eq)
  show "i * 10 + scast (digit_set type ! d) - 48 = (i * 10 + of_nat d :: u32)"
    using d by (auto simp: digit_set_def upper_digits_def lower_digits_def)
qed

lemma skip_atoi_digits:
  "(\<And>d. d \<in> set ds \<Longrightarrow> d < 10) \<Longrightarrow>
   skip_atoi (map (\<lambda>d. digit_set type ! d) ds @ rest) i =
     skip_atoi rest (foldl (\<lambda>v d. v * 10 + of_nat d) i ds)"
  by (induction ds arbitrary: i) (simp_all add: decimal_digit)

lemma foldl_digits:
  "foldl (\<lambda>v d. v * 10 + of_nat d) (0 :: u32) (rev ds) =
     of_nat (foldr (\<lambda>d v. d + 10 * v) ds 0)"
  by (induction ds) (simp_all add: mult.commute add.commute)

lemma skip_atoi_shown_digits:
  assumes "n < 2 ^ 32"
  shows "skip_atoi (shown_digits (digit_set type) 10 n @ rest) 0 = skip_atoi rest (of_nat n)"
proof (cases "n = 0")
  case True
  have "skip_atoi (map (\<lambda>d. digit_set type ! d) [0] @ rest) 0 = skip_atoi rest (0 :: u32)"
    by (subst skip_atoi_digits) simp_all
  with True show ?thesis
    by (simp add: shown_digits_def digit_set_def upper_digits_def lower_digits_def
        del: skip_atoi.simps split: if_splits)
next
  case False
  have "skip_atoi (map (\<lambda>d. digit_set type ! d) (rev (nat_digits 10 n)) @ rest) 0 =
      skip_atoi rest (foldl (\<lambda>v d. v * 10 + of_nat d) 0 (rev (nat_digits 10 n)))"
    by (rule skip_atoi_digits) (simp add: nat_digits_less)
  with False show ?thesis
    by (simp add: shown_digits_def rev_map foldl_digits nat_digits_value)
qed

lemma skip_atoi_zeros: "skip_atoi (replicate k (ch CHR ''0'') @ rest) 0 = skip_atoi rest 0"
proof -
  have zero: "digit_set type ! 0 = ch CHR ''0''" for type
    by (simp add: digit_set_def upper_digits_def lower_digits_def)
  have "skip_atoi (map (\<lambda>d. digit_set 0 ! d) (replicate k 0) @ rest) 0 =
      skip_atoi rest (foldl (\<lambda>v d. v * 10 + of_nat d) 0 (replicate k 0))"
    by (rule skip_atoi_digits) simp
  moreover have "foldl (\<lambda>v d. v * 10 + of_nat d) (0 :: u32) (replicate k 0) = 0"
    by (induction k) simp_all
  ultimately show ?thesis
    by (simp add: zero)
qed

section \<open>Properties of number\<close>

text \<open>
  C17: for every accepted base and for field widths and precisions up to \<open>2 ^ 29\<close>, \<open>number\<close> returns
  a result and it is the reference layout: padding, sign, radix prefix, zero extension and digits
  in the order the flags ask for.
\<close>

theorem number_writes_reference:
  assumes "2 \<le>s base" and "base \<le>s 36"
    and "\<bar>sint width\<bar> \<le> 2 ^ 29" and "\<bar>sint precision\<bar> \<le> 2 ^ 29"
  shows "number num base width precision type =
    Some (number_ref num base (sint width) (sint precision) type)"
  using assms by (rule number_refines)

theorem number_writes_reference_witness:
  "number (- 2147483648) 10 14 12 (SIGN OR LEFT) =
     Some (number_ref (- 2147483648) 10 (sint (14 :: u32)) (sint (12 :: u32)) (SIGN OR LEFT))"
  by (rule number_writes_reference) (simp_all add: word_sle_eq)

text \<open>
  A number printed in decimal, padded with zeros to any width and precision, is read back by the
  formatter's own \<open>skip_atoi\<close>, which stops at the first character that is not a digit.
\<close>

theorem number_skip_atoi_roundtrip:
  assumes "\<bar>sint width\<bar> \<le> 2 ^ 29" and "\<bar>sint precision\<bar> \<le> 2 ^ 29"
    and "rest = [] \<or> \<not> is_digit (hd rest)"
  shows "\<exists>out. number num 10 width precision ZEROPAD = Some out \<and>
    skip_atoi (out @ rest) 0 = (rest, num)"
proof -
  let ?ds = "shown_digits (digit_set ZEROPAD) 10 (unat num)"
  have "number num 10 width precision ZEROPAD =
      Some (number_ref num 10 (sint width) (sint precision) ZEROPAD)"
    using assms(1,2) by (intro number_refines) (simp_all add: word_sle_eq)
  moreover obtain k where
    "number_ref num 10 (sint width) (sint precision) ZEROPAD = replicate k (ch CHR ''0'') @ ?ds"
    by (auto simp: number_ref_def number_body_def number_sign_def number_prefix_def
        number_magnitude_def flag_defs Let_def simp flip: replicate_add append_assoc)
  moreover have "skip_atoi rest i = (rest, i)" for i
    using assms(3) by (cases rest) auto
  ultimately show ?thesis
    using unat_less_u32 [of num]
    by (simp add: skip_atoi_zeros skip_atoi_shown_digits del: of_char_Char)
qed

theorem number_skip_atoi_roundtrip_witness:
  "\<exists>out. number 1193182 10 12 9 ZEROPAD = Some out \<and>
     skip_atoi (out @ cstr '' Hz'') 0 = (cstr '' Hz'', 1193182)"
  by (rule number_skip_atoi_roundtrip) (simp_all add: is_digit_def word_sle_eq)

text \<open>
  Whatever the number, the digits collected in \<open>tmp\<close> are at most 32, inside the 36 bytes of the
  array, for every base the code lets through.
\<close>

theorem tmp_digits_in_bounds:
  assumes "2 \<le>s base" and "base \<le>s 36"
  shows "0 < length (tmp_digits digits num base) \<and> length (tmp_digits digits num base) \<le> 32"
proof -
  have base: "2 \<le> unat base"
    using assms unat_eq_nat_sint [of base] by (simp add: word_sle_eq)
  then have "unat num < unat base ^ 32"
    using unat_less_u32 [of num] power_mono [of 2 "unat base" 32] by (simp add: order_less_le_trans)
  then have "length (nat_digits (unat base) (unat num)) \<le> 32"
    by (rule length_nat_digits)
  moreover have "num \<noteq> 0 \<Longrightarrow> nat_digits (unat base) (unat num) \<noteq> []"
    using base by (simp add: nat_digits_step unat_gt_0)
  ultimately show ?thesis
    using base by (simp add: tmp_digits_def digit_loop_nat_digits word_le_nat_alt)
qed

theorem tmp_digits_in_bounds_witness:
  "0 < length (tmp_digits upper_digits (- 1) 2) \<and> length (tmp_digits upper_digits (- 1) 2) \<le> 32"
  by (rule tmp_digits_in_bounds) (simp_all add: word_sle_eq)

end
