(* ===== verification/Format_Spec.thy ===== *)
theory Format_Spec
  imports Number_Format
begin

text \<open>
  What \<open>vsprintf\<close> of \<open>kernel/kernel/vsprintf.c\<close> makes of a format: literal text is copied, the
  directives the kernel's messages use print their argument, \<open>%n\<close> alone writes memory, and the
  asterisk for a width or a precision is not consumed. The lemmas of the collection \<open>format_simps\<close>
  evaluate the messages of the other components with symbolic arguments.
\<close>

named_theorems format_simps "evaluation of vsprintf on the kernel's formats"

section \<open>Literal text\<close>

lemma vsprintf_loop_text:
  "ch CHR ''%'' \<notin> set s \<Longrightarrow> vsprintf_loop m (s @ fmt) args out = vsprintf_loop m fmt args (out @ s)"
  by (induction s arbitrary: out) auto

lemma vsprintf_text:
  "ch CHR ''%'' \<notin> set s \<Longrightarrow> vsprintf m s args = Some (s, m)"
  using vsprintf_loop_text [of s m "[]" args "[]"] by (simp add: vsprintf_def)

section \<open>Decimal and hexadecimal\<close>

definition dec_signed :: "u32 \<Rightarrow> u8 list" where
  "dec_signed n =
     (if sint n < 0 then [ch CHR ''-''] else []) @ shown_digits upper_digits 10 (nat \<bar>sint n\<bar>)"

definition dec_unsigned :: "u32 \<Rightarrow> u8 list" where
  "dec_unsigned n = shown_digits upper_digits 10 (unat n)"

definition hex_upper :: "u32 \<Rightarrow> u8 list" where
  "hex_upper n = shown_digits upper_digits 16 (unat n)"

definition hex_lower :: "u32 \<Rightarrow> u8 list" where
  "hex_lower n = shown_digits lower_digits 16 (unat n)"

lemma length_dec_signed: "length (dec_signed n) \<le> 33"
proof -
  have "length (shown_digits upper_digits 10 (nat \<bar>sint n\<bar>)) \<le> 32"
    using sint_ge [of n] sint_lt [of n] by (intro length_shown_digits) auto
  then show ?thesis
    by (cases "sint n < 0") (simp_all add: dec_signed_def)
qed

lemma length_hex_upper: "length (hex_upper n) \<le> 32"
  using length_shown_digits [of 16 "unat n" upper_digits] unat_less_u32 [of n]
  by (simp add: hex_upper_def)

lemma length_hex_lower: "length (hex_lower n) \<le> 32"
  using length_shown_digits [of 16 "unat n" lower_digits] unat_less_u32 [of n]
  by (simp add: hex_lower_def)

lemma number_plain:
  "number n 10 (- 1) (- 1) SIGN = Some (dec_signed n)"
  "number n 10 (- 1) (- 1) 0 = Some (dec_unsigned n)"
  "number n 16 (- 1) (- 1) 0 = Some (hex_upper n)"
  "number n 16 (- 1) (- 1) SMALL = Some (hex_lower n)"
  by (simp_all add: number_refines word_sle_eq number_ref_def number_sign_def number_prefix_def
      number_body_def number_magnitude_def digit_set_def flag_defs Let_def dec_signed_def
      dec_unsigned_def hex_upper_def hex_lower_def)

section \<open>Directives without flags\<close>

lemma directive_plain:
  assumes "c \<notin> {ch CHR ''-'', ch CHR ''+'', ch CHR '' '', ch CHR ''#'', ch CHR ''0'',
      ch CHR ''*'', ch CHR ''.'', ch CHR ''h'', ch CHR ''l'', ch CHR ''L''}" and "\<not> is_digit c"
  shows "directive m pos (c # fmt) args = conversion m pos (c # fmt) args 0 (- 1) (- 1)"
  using assms by (simp add: directive_def)

lemma directive_numbers [format_simps]:
  "directive m pos (ch CHR ''d'' # fmt) (Slot n # args) = Some (dec_signed n, fmt, args, m)"
  "directive m pos (ch CHR ''i'' # fmt) (Slot n # args) = Some (dec_signed n, fmt, args, m)"
  "directive m pos (ch CHR ''u'' # fmt) (Slot n # args) = Some (dec_unsigned n, fmt, args, m)"
  "directive m pos (ch CHR ''X'' # fmt) (Slot n # args) = Some (hex_upper n, fmt, args, m)"
  "directive m pos (ch CHR ''x'' # fmt) (Slot n # args) = Some (hex_lower n, fmt, args, m)"
  by (simp_all add: directive_plain is_digit_def word_sle_eq no_store_def conv_number_def number_plain)

lemma directive_c [format_simps]:
  "directive m pos (ch CHR ''c'' # fmt) (Slot n # args) = Some ([ucast n], fmt, args, m)"
  by (simp add: directive_plain is_digit_def word_sle_eq no_store_def conv_char_def pad_pre_eq)

lemma conv_string_plain:
  assumes "va_arg_str m args = Some (s, args')" and "length s < 2 ^ 31"
  shows "conv_string m args 0 (- 1) (- 1) = Some (s, args')"
proof -
  define len where "len = (of_nat (length s) :: u32)"
  have len: "sint len = int (length s)"
    using assms(2) by (simp add: len_def sint_of_nat_small)
  then have idle: "pad_until c len (- 1) = ([], - 2)" "pad_until c len (- 2) = ([], - 3)" for c
    by (simp_all add: pad_until_eq word_sless_alt)
  show ?thesis
    using assms(1) unfolding conv_string_def
    by (simp add: Let_def idle len flip: len_def)
qed

lemma directive_s_lit [format_simps]:
  assumes "0 \<notin> set s" and "length s < 2 ^ 31"
  shows "directive m pos (ch CHR ''s'' # fmt) (Lit s # args) = Some (s, fmt, args, m)"
proof -
  have "takeWhile (\<lambda>b. b \<noteq> 0) s = s"
    using assms(1) by (auto simp: takeWhile_eq_all_conv)
  then have "conv_string m (Lit s # args) 0 (- 1) (- 1) = Some (s, args)"
    using assms(2) by (intro conv_string_plain) simp_all
  then show ?thesis
    by (simp add: directive_plain is_digit_def word_sle_eq no_store_def)
qed

lemma directive_s_mem [format_simps]:
  assumes "c_string m p s" and "length s < 2 ^ 31"
  shows "directive m pos (ch CHR ''s'' # fmt) (Slot p # args) = Some (s, fmt, args, m)"
proof -
  have "conv_string m (Slot p # args) 0 (- 1) (- 1) = Some (s, args)"
    using assms c_string_at_c_string [OF assms(1)] by (intro conv_string_plain) simp_all
  then show ?thesis
    by (simp add: directive_plain is_digit_def word_sle_eq no_store_def)
qed

section \<open>Strings in a field\<close>

lemma pad_until_twice:
  assumes "- (2 ^ 31) < sint lo" and "- (2 ^ 31) + 1 < sint n"
  shows "fst (pad_until b lo (snd (pad_until c lo n))) = []"
proof -
  have "sint (lo - 1) = sint lo - 1" "sint (n - 1) = sint n - 1"
    using assms sint_lt [of lo] sint_lt [of n] sint_diff_small [of lo 1] sint_diff_small [of n 1]
    by simp_all
  then show ?thesis
    by (auto simp: pad_until_eq word_sless_alt)
qed

lemma conv_string_layout:
  fixes w p :: u32 and s :: "u8 list"
  assumes arg: "va_arg_str m args = Some (s, args')" and len: "length s < 2 ^ 30"
    and w: "\<bar>sint w\<bar> \<le> 2 ^ 30"
  defines "shown \<equiv> (if sint p < 0 then s else take (nat (sint p)) s)"
  shows "conv_string m args flags w p =
    Some (let fill = replicate (nat (sint w) - length shown) (ch CHR '' '')
          in if flags AND LEFT \<noteq> 0 then shown @ fill else fill @ shown, args')"
proof -
  define n where "n = (of_nat (length s) :: u32)"
  define l where "l = (if p <s 0 then n else if p <s n then p else n)"
  have n: "sint n = int (length s)"
    using len by (simp add: n_def sint_of_nat_small)
  then have l: "sint l = int (length shown)"
    by (auto simp: l_def shown_def word_sless_alt)
  have shown: "take (nat (sint l)) s = shown"
    using l n by (auto simp: shown_def min_def)
  have pad: "fst (pad_until b l w) = replicate (nat (sint w) - length shown) b" for b
    using l by (cases "int (length shown) < sint w")
      (simp_all add: pad_until_eq word_sless_alt nat_diff_distrib)
  have twice: "fst (pad_until b l (snd (pad_until c l w))) = []" for b c
    using l w by (intro pad_until_twice) auto
  show ?thesis
    unfolding conv_string_def arg bind.bind_lunit Let_def prod.case n_def [symmetric] l_def [symmetric]
      shown
    by (simp add: split_beta pad twice)
qed

section \<open>Properties of vsprintf\<close>

text \<open>
  An \<open>int\<close> printed with \<open>%d\<close> is its decimal notation, the most negative value included, and
  nothing but the directive's own argument is consumed.
\<close>

theorem vsprintf_decimal:
  "vsprintf m (cstr ''%d'') (Slot n # args) =
     Some ((if sint n < 0 then [ch CHR ''-''] else [])
           @ shown_digits upper_digits 10 (nat \<bar>sint n\<bar>), m)"
  by (simp add: vsprintf_def directive_numbers [simplified] dec_signed_def)

text \<open>
  An asterisk for the field width takes its argument and is then printed: the directive ends
  there with \<open>%*\<close> in the output, whatever follows in the format is copied as text and no value is
  formatted, although the comment at the top of the file documents \<open>%*d\<close>.
\<close>

theorem asterisk_width_is_printed:
  "directive m pos (ch CHR ''*'' # fmt) (Slot w # args) = Some (cstr ''%*'', fmt, args, m)
   \<and> vsprintf m (cstr ''%*d'') [Slot w, Slot n] = Some (cstr ''%*d'', m)"
  by (simp add: vsprintf_def directive_def is_digit_def word_sle_eq)

text \<open>
  A string conversion prints the argument cut to the precision and filled with blanks up to the
  field width, on the right with the flag \<open>-\<close> and on the left without it.
\<close>

theorem conv_string_field:
  assumes "va_arg_str m args = Some (s, args')" and "length s < 2 ^ 30" and "\<bar>sint w\<bar> \<le> 2 ^ 30"
  shows "conv_string m args flags w p =
    Some (let shown = (if sint p < 0 then s else take (nat (sint p)) s);
              fill = replicate (nat (sint w) - length shown) (ch CHR '' '')
          in if flags AND LEFT \<noteq> 0 then shown @ fill else fill @ shown, args')"
  using conv_string_layout [OF assms] by (simp add: Let_def)

theorem conv_string_field_witness:
  "conv_string (\<lambda>_. 0) [Lit (cstr ''idle''), Slot 1] LEFT 6 3 = Some (cstr ''idl   '', [Slot 1])"
  using conv_string_field [of "\<lambda>_. 0" "[Lit (cstr ''idle''), Slot 1]" "cstr ''idle''" "[Slot 1]" 6 LEFT 3]
  by (simp add: LEFT_def)

end
