(* ===== verification/Machine.thy ===== *)
theory Machine
  imports Flat_Memory
begin

text \<open>
  The hardware every component acts on: the physical memory, the log of port writes
  (\<open>out_byte\<close> of \<open>kernel/kernel/asm/io.asm\<close>, oldest first) and the interrupt flag of EFLAGS, which
  the macros \<open>CLI\<close> and \<open>STI\<close> of \<open>kernel/include/asm/system.h\<close> clear and set. The records of the
  components extend this one.
\<close>

record machine =
  ram :: mem
  out_log :: "(u16 \<times> u8) list"
  iflag :: bool

text \<open>\<open>out_byte(port, v)\<close>: the instruction \<open>out dx, al\<close> takes 16 bits of the port and 8 of the value.\<close>

definition out_byte :: "u32 \<Rightarrow> u32 \<Rightarrow> 'a machine_scheme \<Rightarrow> 'a machine_scheme" where
  "out_byte port v s = s\<lparr>out_log := out_log s @ [(ucast port, ucast v)]\<rparr>"

definition CLI :: "'a machine_scheme \<Rightarrow> 'a machine_scheme" where
  "CLI s = s\<lparr>iflag := False\<rparr>"

definition STI :: "'a machine_scheme \<Rightarrow> 'a machine_scheme" where
  "STI s = s\<lparr>iflag := True\<rparr>"

lemma out_byte_simps [simp]:
  "ram (out_byte p v s) = ram s"
  "out_log (out_byte p v s) = out_log s @ [(ucast p, ucast v)]"
  "iflag (out_byte p v s) = iflag s"
  "machine.more (out_byte p v s) = machine.more s"
  by (simp_all add: out_byte_def)

lemma CLI_simps [simp]:
  "ram (CLI s) = ram s" "out_log (CLI s) = out_log s" "iflag (CLI s) = False"
  "machine.more (CLI s) = machine.more s"
  by (simp_all add: CLI_def)

lemma STI_simps [simp]:
  "ram (STI s) = ram s" "out_log (STI s) = out_log s" "iflag (STI s) = True"
  "machine.more (STI s) = machine.more s"
  by (simp_all add: STI_def)

end
