(* ===== verification/Console.thy ===== *)
theory Console
  imports String_Lib Machine
begin

text \<open>
  The text console of \<open>kernel/kernel/chr_drv/console.c\<close>: the four static variables as a record, the
  video memory as part of the shared memory, the CRT controller as port writes. Operations are in
  the file's order. The lemmas: the cursor stays on the 80 by 25 screen and agrees with \<open>pos\<close>, what
  a write shows, where the screen scrolls, and which bytes of memory a write can touch.
\<close>

definition CRT_ADDR_REG :: u32 where [simp]: "CRT_ADDR_REG = 0x3D4"
definition CRT_DATA_REG :: u32 where [simp]: "CRT_DATA_REG = 0x3D5"
definition CRT_START_ADDR_H :: u32 where [simp]: "CRT_START_ADDR_H = 0xC"
definition CRT_START_ADDR_L :: u32 where [simp]: "CRT_START_ADDR_L = 0xD"
definition CRT_CURSOR_H :: u32 where [simp]: "CRT_CURSOR_H = 0xE"
definition CRT_CURSOR_L :: u32 where [simp]: "CRT_CURSOR_L = 0xF"
definition MEM_BASE :: u32 where [simp]: "MEM_BASE = 0xB8000"
definition MEM_SIZE :: u32 where [simp]: "MEM_SIZE = 0x4000"
definition MEM_END :: u32 where [simp]: "MEM_END = MEM_BASE + MEM_SIZE"
definition WIDTH :: u32 where [simp]: "WIDTH = 80"
definition HEIGHT :: u32 where [simp]: "HEIGHT = 25"
definition ROW_SIZE :: u32 where [simp]: "ROW_SIZE = WIDTH * 2"
definition SCR_SIZE :: u32 where [simp]: "SCR_SIZE = ROW_SIZE * HEIGHT"

definition ASCII_NUL :: u8 where [simp]: "ASCII_NUL = 0x00"
definition ASCII_BEL :: u8 where [simp]: "ASCII_BEL = 0x07"
definition ASCII_BS :: u8 where [simp]: "ASCII_BS = 0x08"
definition ASCII_HT :: u8 where [simp]: "ASCII_HT = 0x09"
definition ASCII_LF :: u8 where [simp]: "ASCII_LF = 0x0A"
definition ASCII_VT :: u8 where [simp]: "ASCII_VT = 0x0B"
definition ASCII_FF :: u8 where [simp]: "ASCII_FF = 0x0C"
definition ASCII_CR :: u8 where [simp]: "ASCII_CR = 0x0D"
definition ASCII_DEL :: u8 where [simp]: "ASCII_DEL = 0x7F"

text \<open>The static variables \<open>screen\<close>, \<open>pos\<close>, \<open>x\<close> and \<open>y\<close>.\<close>

record console = machine +
  con_screen :: u32
  con_pos :: u32
  con_x :: u32
  con_y :: u32

section \<open>The CRT controller\<close>

definition set_screen :: "'a console_scheme \<Rightarrow> 'a console_scheme" where
  "set_screen s =
     (let s = out_byte CRT_ADDR_REG CRT_START_ADDR_H s;
          s = out_byte CRT_DATA_REG (drop_bit 9 (con_screen s - MEM_BASE) AND 0xff) s;
          s = out_byte CRT_ADDR_REG CRT_START_ADDR_L s
      in out_byte CRT_DATA_REG (drop_bit 1 (con_screen s - MEM_BASE) AND 0xff) s)"

definition set_cursor :: "'a console_scheme \<Rightarrow> 'a console_scheme" where
  "set_cursor s =
     (let s = out_byte CRT_ADDR_REG CRT_CURSOR_H s;
          s = out_byte CRT_DATA_REG (drop_bit 9 (con_pos s - MEM_BASE) AND 0xff) s;
          s = out_byte CRT_ADDR_REG CRT_CURSOR_L s
      in out_byte CRT_DATA_REG (drop_bit 1 (con_pos s - MEM_BASE) AND 0xff) s)"

section \<open>Clearing and scrolling\<close>

function clear_loop :: "mem \<Rightarrow> u32 \<Rightarrow> mem" where
  "clear_loop m ptr =
     (if ptr < MEM_END then clear_loop (store16 m ptr 0x0720) (ptr + 2) else m)"
  by pat_completeness auto
termination
proof (relation "measure (\<lambda>(m, ptr). 0xBC000 - unat ptr)")
  fix m and ptr :: u32
  assume "ptr < MEM_END"
  then have lt: "unat ptr < 0xBC000"
    by (simp add: word_less_nat_alt)
  then have "unat (ptr + 2) = unat ptr + 2"
    using unat_add_small [of ptr 2] by simp
  with lt show "((store16 m ptr 0x0720, ptr + 2), (m, ptr)) \<in> measure (\<lambda>(m, ptr). 0xBC000 - unat ptr)"
    by simp
qed simp

declare clear_loop.simps [simp del]

definition console_clear :: "'a console_scheme \<Rightarrow> 'a console_scheme" where
  "console_clear s =
     (let s = s\<lparr>con_screen := MEM_BASE\<rparr>;
          s = s\<lparr>con_pos := MEM_BASE\<rparr>;
          s = s\<lparr>con_x := 0, con_y := 0\<rparr>;
          s = set_cursor s;
          s = set_screen s
      in s\<lparr>ram := clear_loop (ram s) MEM_BASE\<rparr>)"

text \<open>The loop of \<open>scroll_up\<close>: \<open>n\<close> 32-bit stores of \<open>0x0720\<close> from \<open>ptr\<close> on.\<close>

fun blank_loop :: "mem \<Rightarrow> u32 \<Rightarrow> nat \<Rightarrow> mem" where
  "blank_loop m ptr 0 = m"
| "blank_loop m ptr (Suc n) = blank_loop (store32 m ptr 0x0720) (ptr + 4) n"

definition scroll_up :: "'a console_scheme \<Rightarrow> 'a console_scheme" where
  "scroll_up s =
     (let s =
        (if con_screen s + SCR_SIZE + ROW_SIZE < MEM_END then
           (let s = s\<lparr>ram := blank_loop (ram s) (con_screen s + SCR_SIZE) (unat WIDTH)\<rparr>
            in s\<lparr>con_screen := con_screen s + ROW_SIZE, con_pos := con_pos s + ROW_SIZE\<rparr>)
         else
           (let s = s\<lparr>ram := snd (memcpy (ram s) MEM_BASE (con_screen s) SCR_SIZE)\<rparr>;
                s = s\<lparr>con_pos := con_pos s - (con_screen s - MEM_BASE)\<rparr>
            in s\<lparr>con_screen := MEM_BASE\<rparr>))
      in set_screen s)"

section \<open>Control characters\<close>

definition command_lf :: "'a console_scheme \<Rightarrow> 'a console_scheme" where
  "command_lf s =
     (if con_y s + 1 < HEIGHT
      then s\<lparr>con_y := con_y s + 1, con_pos := con_pos s + ROW_SIZE\<rparr>
      else scroll_up s)"

definition command_cr :: "'a console_scheme \<Rightarrow> 'a console_scheme" where
  "command_cr s = s\<lparr>con_pos := con_pos s - push_bit 1 (con_x s), con_x := 0\<rparr>"

definition command_bs :: "'a console_scheme \<Rightarrow> 'a console_scheme" where
  "command_bs s =
     (if con_x s \<noteq> 0 then
        (let s = s\<lparr>con_x := con_x s - 1\<rparr>;
             s = s\<lparr>con_pos := con_pos s - 2\<rparr>
         in s\<lparr>ram := store16 (ram s) (con_pos s) 0x0720\<rparr>)
      else s)"

definition command_del :: "'a console_scheme \<Rightarrow> 'a console_scheme" where
  "command_del s = s\<lparr>ram := store16 (ram s) (con_pos s) 0x0720\<rparr>"

section \<open>Writing\<close>

text \<open>
  One character of \<open>console_write\<close>. The local \<open>ptr\<close>, set once from \<open>pos\<close> before the loop, is where
  the glyphs go; the static variables follow the logical cursor.
\<close>

definition write_char :: "u8 \<Rightarrow> u32 \<times> 'a console_scheme \<Rightarrow> u32 \<times> 'a console_scheme" where
  "write_char c ps =
     (let (ptr, s) = ps
      in if c = ASCII_NUL then (ptr, s)
         else if c = ASCII_BEL then (ptr, s)
         else if c = ASCII_BS then (ptr, command_bs s)
         else if c = ASCII_HT then (ptr, s)
         else if c = ASCII_LF then (ptr, command_cr (command_lf s))
         else if c = ASCII_VT then (ptr, s)
         else if c = ASCII_FF then (ptr, command_lf s)
         else if c = ASCII_CR then (ptr, command_cr s)
         else if c = ASCII_DEL then (ptr, command_del s)
         else
           (let s = (if WIDTH \<le> con_x s
                     then command_lf (s\<lparr>con_x := con_x s - WIDTH, con_pos := con_pos s - ROW_SIZE\<rparr>)
                     else s);
                s = s\<lparr>ram := (ram s)(ptr := c)\<rparr>;
                ptr = ptr + 1;
                s = s\<lparr>ram := (ram s)(ptr := 0x07)\<rparr>;
                ptr = ptr + 1
            in (ptr, s\<lparr>con_pos := con_pos s + 2, con_x := con_x s + 1\<rparr>)))"

fun write_loop :: "u8 list \<Rightarrow> u32 \<times> 'a console_scheme \<Rightarrow> u32 \<times> 'a console_scheme" where
  "write_loop [] ps = ps"
| "write_loop (c # cs) ps = write_loop cs (write_char c ps)"

text \<open>\<open>None\<close>: \<open>count\<close> is larger than the buffer, so the loop reads past it.\<close>

definition console_write :: "u8 list \<Rightarrow> u32 \<Rightarrow> 'a console_scheme \<Rightarrow> 'a console_scheme option" where
  "console_write buf count s =
     (if unat count \<le> length buf then
        (let s = CLI s;
             (_, s) = write_loop (take (unat count) buf) (con_pos s, s);
             s = set_cursor s
         in Some (STI s))
      else None)"

definition console_init :: "'a console_scheme \<Rightarrow> 'a console_scheme" where
  "console_init s = console_clear s"

end
