(* ===== verification/Console_Spec.thy ===== *)
theory Console_Spec
  imports Console
begin

text \<open>
  Properties of the console: the invariant that ties \<open>pos\<close> to the screen start and the logical
  cursor, the cursor as a small abstract machine on rows and columns that every write refines, the
  part of memory a write may touch, what \<open>console_clear\<close> and a plain write leave on the screen, and
  three places where the code departs from what a console does (text after a newline, the last
  blank line of a scroll, the wrap of the video memory).
\<close>

section \<open>The invariant\<close>

text \<open>
  The screen starts on a row of the video memory from which 25 rows still fit; the cursor is on the
  screen (column 80 stands for "wrap before the next glyph") and \<open>pos\<close> is its address.
\<close>

definition con_inv :: "'a console_scheme \<Rightarrow> bool" where
  "con_inv s \<longleftrightarrow>
     unat (con_screen s - MEM_BASE) mod 160 = 0 \<and> unat (con_screen s - MEM_BASE) \<le> 160 * 77
     \<and> con_y s < HEIGHT \<and> con_x s \<le> WIDTH
     \<and> con_pos s = con_screen s + ROW_SIZE * con_y s + 2 * con_x s"

lemma con_invE:
  assumes "con_inv s"
  obtains k r c where "k \<le> 77" and "r < 25" and "c \<le> 80"
    and "con_screen s = of_nat (0xB8000 + 160 * k)"
    and "con_y s = of_nat r" and "con_x s = of_nat c"
    and "con_pos s = of_nat (0xB8000 + 160 * k + 160 * r + 2 * c)"
proof -
  let ?o = "unat (con_screen s - MEM_BASE)"
  have "160 dvd ?o"
    using assms by (auto simp: con_inv_def)
  then obtain k where k: "?o = 160 * k"
    by blast
  have "con_screen s = MEM_BASE + of_nat ?o"
    by simp
  also have "\<dots> = of_nat (0xB8000 + 160 * k)"
    unfolding k by simp
  finally have screen: "con_screen s = of_nat (0xB8000 + 160 * k)" .
  show thesis
  proof (rule that [of k "unat (con_y s)" "unat (con_x s)"])
    show "k \<le> 77"
      using assms k by (simp add: con_inv_def)
    show "unat (con_y s) < 25" and "unat (con_x s) \<le> 80"
      using assms by (simp_all add: con_inv_def word_less_nat_alt word_le_nat_alt)
    show "con_pos s = of_nat (0xB8000 + 160 * k + 160 * unat (con_y s) + 2 * unat (con_x s))"
      using assms screen by (simp add: con_inv_def)
  qed (use screen in simp_all)
qed

lemma con_invI:
  assumes "k \<le> 77" and "r < 25" and "c \<le> 80"
    and "con_screen s = of_nat (0xB8000 + 160 * k)"
    and "con_y s = of_nat r" and "con_x s = of_nat c"
    and "con_pos s = of_nat (0xB8000 + 160 * k + 160 * r + 2 * c)"
  shows "con_inv s"
proof -
  have "con_screen s - MEM_BASE = of_nat (160 * k)"
    using assms(4) by simp
  then have "unat (con_screen s - MEM_BASE) = 160 * k"
    using assms(1) unat_of_nat_small [of "160 * k", where 'a = 32] by simp
  moreover have "unat (con_y s) = r" and "unat (con_x s) = c"
    using assms by (simp_all add: unat_of_nat_small)
  ultimately show ?thesis
    using assms by (simp add: con_inv_def word_less_nat_alt word_le_nat_alt)
qed

text \<open>What an operation may change of the state: everything but the interrupt flag and the fields
  of the components above.\<close>

definition con_frame :: "'a console_scheme \<Rightarrow> 'a console_scheme \<Rightarrow> bool" where
  "con_frame s s' \<longleftrightarrow> iflag s' = iflag s \<and> console.more s' = console.more s"

lemma con_frame_refl [simp]: "con_frame s s"
  by (simp add: con_frame_def)

lemma con_frame_trans: "con_frame s t \<Longrightarrow> con_frame t u \<Longrightarrow> con_frame s u"
  by (simp add: con_frame_def)

section \<open>The cursor\<close>

type_synonym cursor = "nat \<times> nat"

definition cursor :: "'a console_scheme \<Rightarrow> cursor" where
  "cursor s = (unat (con_y s), unat (con_x s))"

definition cursor_lf :: "cursor \<Rightarrow> cursor" where
  "cursor_lf rc = (if fst rc + 1 < 25 then (fst rc + 1, snd rc) else rc)"

text \<open>The cursor after one character: an 80 by 25 screen with late wrapping.\<close>

definition cursor_step :: "cursor \<Rightarrow> u8 \<Rightarrow> cursor" where
  "cursor_step rc c =
     (if c \<in> {ASCII_NUL, ASCII_BEL, ASCII_HT, ASCII_VT, ASCII_DEL} then rc
      else if c = ASCII_BS then (fst rc, snd rc - 1)
      else if c = ASCII_LF then (fst (cursor_lf rc), 0)
      else if c = ASCII_FF then cursor_lf rc
      else if c = ASCII_CR then (fst rc, 0)
      else if 80 \<le> snd rc then (fst (cursor_lf rc), snd rc - 79)
      else (fst rc, snd rc + 1))"

lemma set_screen_simps [simp]:
  "ram (set_screen s) = ram s" "iflag (set_screen s) = iflag s"
  "con_screen (set_screen s) = con_screen s" "con_pos (set_screen s) = con_pos s"
  "con_x (set_screen s) = con_x s" "con_y (set_screen s) = con_y s"
  "console.more (set_screen s) = console.more s"
  by (simp_all add: set_screen_def out_byte_def Let_def)

lemma set_cursor_simps [simp]:
  "ram (set_cursor s) = ram s" "iflag (set_cursor s) = iflag s"
  "con_screen (set_cursor s) = con_screen s" "con_pos (set_cursor s) = con_pos s"
  "con_x (set_cursor s) = con_x s" "con_y (set_cursor s) = con_y s"
  "console.more (set_cursor s) = console.more s"
  by (simp_all add: set_cursor_def out_byte_def Let_def)

lemma scroll_up_fields:
  assumes "con_inv s"
  shows "con_inv (scroll_up s) \<and> con_x (scroll_up s) = con_x s \<and> con_y (scroll_up s) = con_y s"
proof -
  obtain k r c where bounds: "k \<le> 77" "r < 25" "c \<le> 80"
    and screen: "con_screen s = of_nat (0xB8000 + 160 * k)"
    and y: "con_y s = of_nat r" and x: "con_x s = of_nat c"
    and pos: "con_pos s = of_nat (0xB8000 + 160 * k + 160 * r + 2 * c)"
    using assms by (rule con_invE)
  have "con_screen s + SCR_SIZE + ROW_SIZE = of_nat (0xB8000 + 160 * k + 4160)"
    by (simp add: screen)
  then have "unat (con_screen s + SCR_SIZE + ROW_SIZE) = 0xB8000 + 160 * k + 4160"
    using bounds unat_of_nat_small [of "0xB8000 + 160 * k + 4160", where 'a = 32] by simp
  then have guard: "con_screen s + SCR_SIZE + ROW_SIZE < MEM_END \<longleftrightarrow> k \<le> 76"
    by (auto simp: word_less_nat_alt)
  have xy: "con_x (scroll_up s) = con_x s" "con_y (scroll_up s) = con_y s"
    by (simp_all add: scroll_up_def Let_def)
  have "con_inv (scroll_up s)"
  proof (cases "k \<le> 76")
    case True
    then show ?thesis
      unfolding scroll_up_def guard using bounds x y
      by (intro con_invI [where k = "Suc k" and r = r and c = c]) (simp_all add: screen pos)
  next
    case False
    then show ?thesis
      unfolding scroll_up_def guard using bounds x y
      by (intro con_invI [where k = 0 and r = r and c = c]) (simp_all add: screen pos)
  qed
  with xy show ?thesis by simp
qed

lemma cursor_of_nat:
  assumes "r < 25" and "c \<le> 80" and "con_y s = of_nat r" and "con_x s = of_nat c"
  shows "cursor s = (r, c)"
  using assms by (simp add: cursor_def unat_of_nat_small)

lemma y_guard: "r < 25 \<Longrightarrow> (of_nat r :: u32) + 1 < HEIGHT \<longleftrightarrow> r + 1 < 25"
proof -
  assume "r < 25"
  then have u: "unat (of_nat (r + 1) :: u32) = r + 1"
    by (intro unat_of_nat_small) simp
  have "(of_nat r :: u32) + 1 < HEIGHT \<longleftrightarrow> unat (of_nat (r + 1) :: u32) < unat HEIGHT"
    by (simp only: word_less_nat_alt of_nat_add of_nat_1)
  then show "(of_nat r :: u32) + 1 < HEIGHT \<longleftrightarrow> r + 1 < 25"
    unfolding u by simp
qed

lemma command_lf_step:
  assumes "con_inv s"
  shows "con_inv (command_lf s) \<and> cursor (command_lf s) = cursor_lf (cursor s)"
proof -
  obtain k r c where bounds: "k \<le> 77" "r < 25" "c \<le> 80"
    and screen: "con_screen s = of_nat (0xB8000 + 160 * k)"
    and y: "con_y s = of_nat r" and x: "con_x s = of_nat c"
    and pos: "con_pos s = of_nat (0xB8000 + 160 * k + 160 * r + 2 * c)"
    using assms by (rule con_invE)
  have cur: "cursor s = (r, c)"
    using bounds y x by (intro cursor_of_nat)
  show ?thesis
  proof (cases "r + 1 < 25")
    case True
    then have lf: "command_lf s = s\<lparr>con_y := con_y s + 1, con_pos := con_pos s + ROW_SIZE\<rparr>"
      using y_guard [of r] by (simp add: command_lf_def y)
    have "con_inv (command_lf s)"
      unfolding lf using bounds True
      by (intro con_invI [where k = k and r = "Suc r" and c = c]) (simp_all add: screen pos x y)
    moreover have "cursor (command_lf s) = (Suc r, c)"
      unfolding lf using bounds True by (intro cursor_of_nat) (simp_all add: x y)
    ultimately show ?thesis
      using True by (simp add: cur cursor_lf_def)
  next
    case False
    then have "command_lf s = scroll_up s"
      unfolding command_lf_def y y_guard [OF bounds(2)] by simp
    then show ?thesis
      using scroll_up_fields [OF assms] False cur by (simp add: cursor_lf_def cursor_def)
  qed
qed

lemma command_cr_step:
  assumes "con_inv s"
  shows "con_inv (command_cr s) \<and> cursor (command_cr s) = (fst (cursor s), 0)"
proof -
  obtain k r c where bounds: "k \<le> 77" "r < 25" "c \<le> 80"
    and screen: "con_screen s = of_nat (0xB8000 + 160 * k)"
    and y: "con_y s = of_nat r" and x: "con_x s = of_nat c"
    and pos: "con_pos s = of_nat (0xB8000 + 160 * k + 160 * r + 2 * c)"
    using assms by (rule con_invE)
  have "con_inv (command_cr s)"
    using bounds
    by (intro con_invI [where k = k and r = r and c = 0])
      (simp_all add: command_cr_def screen pos x y push_bit_eq_mult)
  then show ?thesis
    by (simp add: command_cr_def cursor_def)
qed

lemma command_bs_step:
  assumes "con_inv s"
  shows "con_inv (command_bs s) \<and> cursor (command_bs s) = (fst (cursor s), snd (cursor s) - 1)"
proof -
  obtain k r c where bounds: "k \<le> 77" "r < 25" "c \<le> 80"
    and screen: "con_screen s = of_nat (0xB8000 + 160 * k)"
    and y: "con_y s = of_nat r" and x: "con_x s = of_nat c"
    and pos: "con_pos s = of_nat (0xB8000 + 160 * k + 160 * r + 2 * c)"
    using assms by (rule con_invE)
  have cur: "cursor s = (r, c)"
    using bounds y x by (intro cursor_of_nat)
  have "unat (con_x s) = c"
    using bounds x by (simp add: unat_of_nat_small)
  then have nonzero: "con_x s = 0 \<longleftrightarrow> c = 0"
    using unat_eq_0 [of "con_x s"] by simp
  show ?thesis
  proof (cases c)
    case 0
    then show ?thesis
      using assms cur by (simp add: command_bs_def x)
  next
    case (Suc d)
    then have bs: "con_x (command_bs s) = of_nat d" "con_y (command_bs s) = con_y s"
      "con_screen (command_bs s) = con_screen s" "con_pos (command_bs s) = con_pos s - 2"
      using nonzero by (simp_all add: command_bs_def x Let_def)
    have "con_inv (command_bs s)"
      using bounds Suc
      by (intro con_invI [where k = k and r = r and c = d]) (simp_all add: bs screen pos x y)
    moreover have "cursor (command_bs s) = (r, d)"
      using bounds Suc by (intro cursor_of_nat) (simp_all add: bs x y)
    ultimately show ?thesis
      using Suc by (simp add: cur)
  qed
qed

lemma con_inv_cong:
  "con_screen s' = con_screen s \<Longrightarrow> con_pos s' = con_pos s \<Longrightarrow> con_x s' = con_x s \<Longrightarrow>
   con_y s' = con_y s \<Longrightarrow> con_inv s' \<longleftrightarrow> con_inv s"
  by (simp add: con_inv_def)

text \<open>A glyph: after wrapping the cursor is left of the edge, so it advances by one cell.\<close>

lemma glyph_advance:
  assumes "con_inv s" and "snd (cursor s) < 80"
  shows "con_inv (s\<lparr>ram := m, con_pos := con_pos s + 2, con_x := con_x s + 1\<rparr>)"
    and "cursor (s\<lparr>ram := m, con_pos := con_pos s + 2, con_x := con_x s + 1\<rparr>) =
      (fst (cursor s), snd (cursor s) + 1)"
proof -
  obtain k r c where bounds: "k \<le> 77" "r < 25" "c \<le> 80"
    and screen: "con_screen s = of_nat (0xB8000 + 160 * k)"
    and y: "con_y s = of_nat r" and x: "con_x s = of_nat c"
    and pos: "con_pos s = of_nat (0xB8000 + 160 * k + 160 * r + 2 * c)"
    using assms(1) by (rule con_invE)
  have cur: "cursor s = (r, c)"
    using bounds y x by (intro cursor_of_nat)
  show "con_inv (s\<lparr>ram := m, con_pos := con_pos s + 2, con_x := con_x s + 1\<rparr>)"
    using bounds assms(2) cur
    by (intro con_invI [where k = k and r = r and c = "Suc c"]) (simp_all add: screen pos x y)
  have "cursor (s\<lparr>ram := m, con_pos := con_pos s + 2, con_x := con_x s + 1\<rparr>) = (r, Suc c)"
    using bounds assms(2) cur by (intro cursor_of_nat) (simp_all add: x y)
  then show "cursor (s\<lparr>ram := m, con_pos := con_pos s + 2, con_x := con_x s + 1\<rparr>) =
      (fst (cursor s), snd (cursor s) + 1)"
    by (simp add: cur)
qed

definition wrap_column :: "'a console_scheme \<Rightarrow> 'a console_scheme" where
  "wrap_column s =
     (if WIDTH \<le> con_x s
      then command_lf (s\<lparr>con_x := con_x s - WIDTH, con_pos := con_pos s - ROW_SIZE\<rparr>)
      else s)"

lemma wrap_column_step:
  assumes "con_inv s"
  shows "con_inv (wrap_column s)"
    and "cursor (wrap_column s) =
      (if 80 \<le> snd (cursor s) then (fst (cursor_lf (cursor s)), snd (cursor s) - 80) else cursor s)"
    and "snd (cursor (wrap_column s)) < 80"
proof -
  obtain k r c where bounds: "k \<le> 77" "r < 25" "c \<le> 80"
    and screen: "con_screen s = of_nat (0xB8000 + 160 * k)"
    and y: "con_y s = of_nat r" and x: "con_x s = of_nat c"
    and pos: "con_pos s = of_nat (0xB8000 + 160 * k + 160 * r + 2 * c)"
    using assms by (rule con_invE)
  have cur: "cursor s = (r, c)"
    using bounds y x by (intro cursor_of_nat)
  have "unat (con_x s) = c"
    using bounds x by (simp add: unat_of_nat_small)
  then have guard: "WIDTH \<le> con_x s \<longleftrightarrow> 80 \<le> c"
    by (simp add: word_le_nat_alt)
  let ?s = "s\<lparr>con_x := con_x s - WIDTH, con_pos := con_pos s - ROW_SIZE\<rparr>"
  have step: "con_inv (command_lf ?s)" "cursor (command_lf ?s) = cursor_lf (r, 0)" if "80 \<le> c"
  proof -
    have inv: "con_inv ?s"
      using bounds that
      by (intro con_invI [where k = k and r = r and c = 0]) (simp_all add: screen pos x y)
    have "cursor ?s = (r, 0)"
      using bounds that by (intro cursor_of_nat) (simp_all add: x y)
    with command_lf_step [OF inv] show "con_inv (command_lf ?s)"
      and "cursor (command_lf ?s) = cursor_lf (r, 0)" by simp_all
  qed
  show "con_inv (wrap_column s)"
    unfolding wrap_column_def guard using assms step by simp
  show cursor: "cursor (wrap_column s) =
      (if 80 \<le> snd (cursor s) then (fst (cursor_lf (cursor s)), snd (cursor s) - 80) else cursor s)"
    unfolding wrap_column_def guard using bounds step cur by (auto simp: cursor_lf_def)
  show "snd (cursor (wrap_column s)) < 80"
    unfolding cursor using bounds cur by (simp add: cursor_lf_def)
qed

lemma write_char_glyph:
  assumes "c \<notin> {ASCII_NUL, ASCII_BEL, ASCII_BS, ASCII_HT, ASCII_LF, ASCII_VT, ASCII_FF, ASCII_CR, ASCII_DEL}"
  shows "write_char c (ptr, s) =
    (ptr + 2, (wrap_column s)\<lparr>ram := (ram (wrap_column s))(ptr := c, ptr + 1 := 0x07),
       con_pos := con_pos (wrap_column s) + 2, con_x := con_x (wrap_column s) + 1\<rparr>)"
  using assms by (simp add: write_char_def wrap_column_def Let_def del: WIDTH_def ROW_SIZE_def)

lemma write_char_step:
  assumes "con_inv s"
  shows "con_inv (snd (write_char c (ptr, s)))
    \<and> cursor (snd (write_char c (ptr, s))) = cursor_step (cursor s) c"
proof (cases "c \<in> {ASCII_NUL, ASCII_BEL, ASCII_BS, ASCII_HT, ASCII_LF, ASCII_VT, ASCII_FF, ASCII_CR, ASCII_DEL}")
  case True
  have del: "cursor (command_del s) = cursor s" "con_inv (command_del s)"
    using assms by (simp_all add: command_del_def cursor_def con_inv_def)
  have lf: "con_inv (command_lf s)" "cursor (command_lf s) = cursor_lf (cursor s)"
    using command_lf_step [OF assms] by simp_all
  show ?thesis
    using True assms lf del command_bs_step [OF assms] command_cr_step [OF assms]
      command_cr_step [OF lf(1)]
    by (auto simp: write_char_def cursor_step_def)
next
  case False
  note wrap = wrap_column_step [OF assms]
  show ?thesis
    using False glyph_advance [OF wrap(1,3)] wrap(2)
    by (auto simp: write_char_glyph cursor_step_def)
qed

section \<open>Memory a write may touch\<close>

text \<open>The text window of the video adapter, 32 KiB from \<open>0xB8000\<close>.\<close>

definition vga :: "u32 \<Rightarrow> bool" where
  "vga x \<longleftrightarrow> in_range 0xB8000 0x8000 x"

lemma vga_nat: "vga x \<longleftrightarrow> 0xB8000 \<le> unat x \<and> unat x < 0xC0000"
  by (simp add: vga_def in_range_nat)

definition outside_vga_same :: "mem \<Rightarrow> mem \<Rightarrow> bool" where
  "outside_vga_same m m' \<longleftrightarrow> (\<forall>x. \<not> vga x \<longrightarrow> m' x = m x)"

lemma outside_vga_refl [simp]: "outside_vga_same m m"
  by (simp add: outside_vga_same_def)

lemma outside_vga_trans:
  "outside_vga_same m m' \<Longrightarrow> outside_vga_same m' m'' \<Longrightarrow> outside_vga_same m m''"
  by (simp add: outside_vga_same_def)

lemma in_range_vga:
  assumes "in_range a n x" and "0xB8000 \<le> unat a" and "unat a + n \<le> 0xC0000"
  shows "vga x"
  using assms by (simp add: vga_nat in_range_nat)

lemma outside_vga_write:
  assumes "0xB8000 \<le> unat a" and "unat a + length bs \<le> 0xC0000"
  shows "outside_vga_same m (mem_write m a bs)"
  using assms in_range_vga [of a "length bs"] by (auto simp: outside_vga_same_def mem_write_def)

lemma outside_vga_store16:
  assumes "0xB8000 \<le> unat a" and "unat a + 2 \<le> 0xC0000"
  shows "outside_vga_same m (store16 m a v)"
  unfolding outside_vga_same_def using assms in_range_vga [of a 2] by (metis store16_other)

lemma outside_vga_store32:
  assumes "0xB8000 \<le> unat a" and "unat a + 4 \<le> 0xC0000"
  shows "outside_vga_same m (store32 m a v)"
  unfolding outside_vga_same_def using assms in_range_vga [of a 4] by (metis store32_other)

lemma blank_loop_outside_vga:
  "0xB8000 \<le> unat a \<Longrightarrow> unat a + 4 * n \<le> 0xC0000 \<Longrightarrow> outside_vga_same m (blank_loop m a n)"
proof (induction n arbitrary: m a)
  case 0
  then show ?case by simp
next
  case (Suc n)
  then have a4: "unat (a + 4) = unat a + 4"
    using unat_add_small [of a 4] by simp
  have "outside_vga_same m (store32 m a 0x0720)"
    using Suc.prems by (intro outside_vga_store32) simp_all
  moreover have "outside_vga_same (store32 m a 0x0720) (blank_loop (store32 m a 0x0720) (a + 4) n)"
    using Suc.prems a4 by (intro Suc.IH) simp_all
  ultimately show ?case
    by (simp add: outside_vga_trans [of m "store32 m a 0x0720"])
qed

lemma con_inv_pos:
  assumes "con_inv s"
  shows "0xB8000 \<le> unat (con_screen s)" "unat (con_screen s) \<le> 0xB8000 + 12320"
    "0xB8000 \<le> unat (con_pos s)" "unat (con_pos s) \<le> 0xB8000 + 16320"
proof -
  obtain k r c where bounds: "k \<le> 77" "r < 25" "c \<le> 80"
    and screen: "con_screen s = of_nat (0xB8000 + 160 * k)"
    and pos: "con_pos s = of_nat (0xB8000 + 160 * k + 160 * r + 2 * c)"
    using assms by (rule con_invE)
  have "unat (con_screen s) = 0xB8000 + 160 * k"
    unfolding screen using bounds by (intro unat_of_nat_small) simp
  then show "0xB8000 \<le> unat (con_screen s)" "unat (con_screen s) \<le> 0xB8000 + 12320"
    using bounds by simp_all
  have "unat (con_pos s) = 0xB8000 + 160 * k + 160 * r + 2 * c"
    unfolding pos using bounds by (intro unat_of_nat_small) simp
  then show "0xB8000 \<le> unat (con_pos s)" "unat (con_pos s) \<le> 0xB8000 + 16320"
    using bounds by simp_all
qed

lemma scroll_up_frame:
  assumes "con_inv s"
  shows "outside_vga_same (ram s) (ram (scroll_up s)) \<and> con_frame s (scroll_up s)"
proof -
  have base: "0xB8000 \<le> unat (con_screen s)" "unat (con_screen s) \<le> 0xB8000 + 12320"
    using con_inv_pos [OF assms] by simp_all
  then have "unat (con_screen s + SCR_SIZE) = unat (con_screen s) + 4000"
    using unat_add_small [of "con_screen s" 4000] by simp
  then have "outside_vga_same (ram s) (blank_loop (ram s) (con_screen s + SCR_SIZE) (unat WIDTH))"
    using base by (intro blank_loop_outside_vga) simp_all
  moreover have "outside_vga_same (ram s) (snd (memcpy (ram s) MEM_BASE (con_screen s) SCR_SIZE))"
    using in_range_vga [of MEM_BASE 4000] memcpy_loop_other [of 4000 MEM_BASE]
    unfolding outside_vga_same_def by (auto simp: memcpy_def)
  ultimately show ?thesis
    by (simp add: scroll_up_def con_frame_def Let_def)
qed

lemma command_lf_frame:
  assumes "con_inv s"
  shows "outside_vga_same (ram s) (ram (command_lf s)) \<and> con_frame s (command_lf s)"
  using scroll_up_frame [OF assms] by (simp add: command_lf_def con_frame_def)

lemma command_cr_frame: "ram (command_cr s) = ram s \<and> con_frame s (command_cr s)"
  by (simp add: command_cr_def con_frame_def)

lemma command_bs_frame:
  assumes "con_inv s"
  shows "outside_vga_same (ram s) (ram (command_bs s)) \<and> con_frame s (command_bs s)"
proof (cases "con_x s = 0")
  case True
  then show ?thesis by (simp add: command_bs_def)
next
  case False
  then have pos: "con_pos (command_bs s) = con_pos s - 2"
    and ram: "ram (command_bs s) = store16 (ram s) (con_pos s - 2) 0x0720"
    by (simp_all add: command_bs_def)
  have "con_inv (command_bs s)"
    using command_bs_step [OF assms] by simp
  from con_inv_pos(3,4) [OF this] show ?thesis
    using False unfolding pos ram
    by (intro conjI outside_vga_store16) (simp_all add: command_bs_def con_frame_def)
qed

lemma command_del_frame:
  assumes "con_inv s"
  shows "outside_vga_same (ram s) (ram (command_del s)) \<and> con_frame s (command_del s)"
  using con_inv_pos(3,4) [OF assms] outside_vga_store16 [of "con_pos s"]
  by (simp add: command_del_def con_frame_def)

lemma wrap_column_frame:
  assumes "con_inv s"
  shows "outside_vga_same (ram s) (ram (wrap_column s)) \<and> con_frame s (wrap_column s)"
proof (cases "WIDTH \<le> con_x s")
  case False
  then show ?thesis by (simp add: wrap_column_def)
next
  case True
  let ?s = "s\<lparr>con_x := con_x s - WIDTH, con_pos := con_pos s - ROW_SIZE\<rparr>"
  obtain k r c where bounds: "k \<le> 77" "r < 25" "c \<le> 80"
    and screen: "con_screen s = of_nat (0xB8000 + 160 * k)"
    and y: "con_y s = of_nat r" and x: "con_x s = of_nat c"
    and pos: "con_pos s = of_nat (0xB8000 + 160 * k + 160 * r + 2 * c)"
    using assms by (rule con_invE)
  have "unat (con_x s) = c"
    using bounds x by (simp add: unat_of_nat_small)
  with True have "c = 80"
    using bounds by (simp add: word_le_nat_alt)
  then have "con_inv ?s"
    using bounds by (intro con_invI [where k = k and r = r and c = 0]) (simp_all add: screen pos x y)
  from command_lf_frame [OF this] True show ?thesis
    by (simp add: wrap_column_def con_frame_def)
qed

text \<open>One character: the glyph pointer moves by at most two bytes.\<close>

lemma write_char_frame:
  assumes inv: "con_inv s" and ptr: "0xB8000 \<le> unat ptr" "unat ptr + 2 \<le> 0xC0000"
    and run: "write_char c (ptr, s) = (ptr', s')"
  shows "outside_vga_same (ram s) (ram s') \<and> con_frame s s'
    \<and> unat ptr \<le> unat ptr' \<and> unat ptr' \<le> unat ptr + 2"
proof (cases "c \<in> {ASCII_NUL, ASCII_BEL, ASCII_BS, ASCII_HT, ASCII_LF, ASCII_VT, ASCII_FF, ASCII_CR, ASCII_DEL}")
  case True
  then have ptr': "ptr' = ptr"
    using run by (auto simp: write_char_def)
  have lf: "outside_vga_same (ram s) (ram (command_lf s))" "con_frame s (command_lf s)"
    using command_lf_frame [OF inv] by simp_all
  have crlf: "ram (command_cr (command_lf s)) = ram (command_lf s)"
    "con_frame s (command_cr (command_lf s))"
    using command_cr_frame [of "command_lf s"] lf(2) con_frame_trans by blast+
  show ?thesis
    using True run ptr' lf crlf command_cr_frame [of s] command_bs_frame [OF inv]
      command_del_frame [OF inv]
    by (auto simp: write_char_def)
next
  case False
  let ?w = "wrap_column s"
  have run': "ptr' = ptr + 2" "s' = ?w\<lparr>ram := (ram ?w)(ptr := c, ptr + 1 := 0x07),
       con_pos := con_pos ?w + 2, con_x := con_x ?w + 1\<rparr>"
    using write_char_glyph [OF False, of ptr s] run by auto
  have u: "unat (ptr + 2) = unat ptr + 2" "unat (ptr + 1) = unat ptr + 1"
    using ptr unat_add_small [of ptr 2] unat_add_small [of ptr 1] by simp_all
  have "outside_vga_same (ram ?w) ((ram ?w)(ptr := c, ptr + 1 := 0x07))"
    using ptr u by (auto simp: outside_vga_same_def vga_nat)
  then show ?thesis
    using wrap_column_frame [OF inv] u run' outside_vga_trans by (auto simp: con_frame_def)
qed

lemma write_loop_frame:
  assumes "con_inv s" and "0xB8000 \<le> unat ptr" and "unat ptr + 2 * length cs \<le> 0xC0000"
    and "write_loop cs (ptr, s) = (ptr', s')"
  shows "outside_vga_same (ram s) (ram s') \<and> con_frame s s' \<and> con_inv s'
    \<and> cursor s' = foldl cursor_step (cursor s) cs"
  using assms
proof (induction cs arbitrary: ptr s)
  case Nil
  then show ?case by simp
next
  case (Cons c cs)
  obtain ptr1 s1 where step: "write_char c (ptr, s) = (ptr1, s1)"
    by fastforce
  have f: "outside_vga_same (ram s) (ram s1)" "con_frame s s1"
    "unat ptr \<le> unat ptr1" "unat ptr1 \<le> unat ptr + 2"
    using write_char_frame [OF Cons.prems(1,2) _ step] Cons.prems(3) by simp_all
  have c: "con_inv s1" "cursor s1 = cursor_step (cursor s) c"
    using write_char_step [OF Cons.prems(1), of c ptr] step by simp_all
  have "outside_vga_same (ram s1) (ram s') \<and> con_frame s1 s' \<and> con_inv s'
      \<and> cursor s' = foldl cursor_step (cursor s1) cs"
    using Cons.prems f c step by (intro Cons.IH [of s1 ptr1]) auto
  with f c show ?case
    using outside_vga_trans con_frame_trans by fastforce
qed

text \<open>The result of \<open>console_write\<close> as the components above it use it.\<close>

lemma console_write_result:
  assumes inv: "con_inv s" and len: "unat count \<le> length buf" "unat count \<le> 8192"
  shows "\<exists>s'. console_write buf count s = Some s' \<and> con_inv s' \<and> iflag s'
    \<and> console.more s' = console.more s \<and> outside_vga_same (ram s) (ram s')
    \<and> cursor s' = foldl cursor_step (cursor s) (take (unat count) buf)"
proof -
  have CLI: "con_inv (CLI s)" "con_pos (CLI s) = con_pos s" "cursor (CLI s) = cursor s"
    "console.more (CLI s) = console.more s"
    using inv by (simp_all add: CLI_def con_inv_def cursor_def)
  obtain ptr' s' where run: "write_loop (take (unat count) buf) (con_pos s, CLI s) = (ptr', s')"
    by fastforce
  have "unat (con_pos s) + 2 * length (take (unat count) buf) \<le> 0xC0000"
    using con_inv_pos [OF inv] len by simp
  from write_loop_frame [OF CLI(1) con_inv_pos(3) [OF inv] this run]
  have w: "outside_vga_same (ram s) (ram s')" "console.more s' = console.more s" "con_inv s'"
    "cursor s' = foldl cursor_step (cursor s) (take (unat count) buf)"
    by (simp_all add: CLI con_frame_def)
  have "console_write buf count s = Some (STI (set_cursor s'))"
    using len(1) run by (simp add: console_write_def CLI Let_def)
  moreover have "con_inv (STI (set_cursor s')) \<longleftrightarrow> con_inv s'"
    by (intro con_inv_cong) (simp_all add: STI_def)
  ultimately show ?thesis
    using w by (simp add: STI_def cursor_def)
qed

section \<open>What is on the screen\<close>

definition glyph :: "u8 \<Rightarrow> bool" where
  "glyph c \<longleftrightarrow> c \<notin> {ASCII_NUL, ASCII_BEL, ASCII_BS, ASCII_HT, ASCII_LF, ASCII_VT, ASCII_FF,
     ASCII_CR, ASCII_DEL}"

text \<open>Character cells: the code and the attribute 7.\<close>

definition cells :: "u8 list \<Rightarrow> u8 list" where
  "cells cs = concat (map (\<lambda>c. [c, 0x07]) cs)"

lemma cells_simps [simp]: "cells [] = []" "cells (c # cs) = c # 0x07 # cells cs"
  by (simp_all add: cells_def)

lemma length_cells [simp]: "length (cells cs) = 2 * length cs"
  by (induction cs) simp_all

lemma cells_append: "cells (xs @ ys) = cells xs @ cells ys"
  by (simp add: cells_def)

lemma mem_write_append:
  "length bs + length cs \<le> 2 ^ 32 - 1 \<Longrightarrow>
   mem_write (mem_write m a bs) (a + of_nat (length bs)) cs = mem_write m a (bs @ cs)"
proof (induction bs arbitrary: m a)
  case Nil
  then show ?case by simp
next
  case (Cons b bs)
  have "mem_write (mem_write (m(a := b)) (a + 1) bs) (a + 1 + of_nat (length bs)) cs =
      mem_write (m(a := b)) (a + 1) (bs @ cs)"
    using Cons.prems by (intro Cons.IH) simp
  then show ?case
    using Cons.prems by (simp add: mem_write_Cons add.assoc)
qed

lemma write_loop_glyphs:
  assumes "\<And>c. c \<in> set cs \<Longrightarrow> glyph c" and "unat (con_x s) + length cs \<le> 80"
  shows "write_loop cs (ptr, s) = (ptr + 2 * of_nat (length cs),
    s\<lparr>ram := mem_write (ram s) ptr (cells cs), con_pos := con_pos s + 2 * of_nat (length cs),
      con_x := con_x s + of_nat (length cs)\<rparr>)"
  using assms
proof (induction cs arbitrary: ptr s)
  case Nil
  then show ?case by simp
next
  case (Cons c cs)
  have small: "unat (con_x s) < 80"
    using Cons.prems(2) by simp
  then have "wrap_column s = s"
    by (simp add: wrap_column_def word_le_nat_alt)
  moreover have "c \<notin> {ASCII_NUL, ASCII_BEL, ASCII_BS, ASCII_HT, ASCII_LF, ASCII_VT, ASCII_FF, ASCII_CR, ASCII_DEL}"
    using Cons.prems(1) [of c] unfolding glyph_def by simp
  ultimately have step: "write_char c (ptr, s) = (ptr + 2,
      s\<lparr>ram := (ram s)(ptr := c, ptr + 1 := 0x07), con_pos := con_pos s + 2, con_x := con_x s + 1\<rparr>)"
    using write_char_glyph [of c ptr s] by simp
  have x: "unat (con_x s + 1) = unat (con_x s) + 1"
    using small unat_add_small [of "con_x s" 1] by simp
  show ?case
    using Cons.prems x
    by (simp add: step Cons.IH mem_write_Cons algebra_simps fun_upd_def)
qed

lemma write_char_lf: "write_char ASCII_LF (ptr, s) = (ptr, command_cr (command_lf s))"
  by (simp add: write_char_def)

lemma write_loop_append: "write_loop (cs @ ds) ps = write_loop ds (write_loop cs ps)"
  by (induction cs arbitrary: ps) simp_all

lemma console_write_glyphs:
  assumes "\<And>c. c \<in> set cs \<Longrightarrow> glyph c" and "unat (con_x s) + length cs \<le> 80"
  shows "\<exists>s'. console_write cs (of_nat (length cs)) s = Some s'
    \<and> ram s' = mem_write (ram s) (con_pos s) (cells cs)
    \<and> con_pos s' = con_pos s + 2 * of_nat (length cs)"
proof -
  have "unat (of_nat (length cs) :: u32) = length cs"
    using assms(2) by (intro unat_of_nat_small) simp
  then show ?thesis
    using write_loop_glyphs [of cs "CLI s" "con_pos s"] assms
    by (simp add: console_write_def CLI_def STI_def)
qed

lemma blank_cell_byte: "(1824 :: u8) = 32"
  by simp

lemma clear_loop_write:
  assumes "unat ptr + 2 * n = 0xBC000"
  shows "clear_loop m ptr = mem_write m ptr (concat (replicate n [0x20, 0x07]))"
  using assms
proof (induction n arbitrary: m ptr)
  case 0
  then show ?case by (subst clear_loop.simps) (simp add: word_less_nat_alt)
next
  case (Suc n)
  then have "unat (ptr + 2) = unat ptr + 2"
    using unat_add_small [of ptr 2] by simp
  then have "clear_loop (store16 m ptr 0x0720) (ptr + 2) =
      mem_write (store16 m ptr 0x0720) (ptr + 2) (concat (replicate n [0x20, 0x07]))"
    using Suc.prems by (intro Suc.IH) simp
  moreover have "length (concat (replicate n [0x20 :: u8, 0x07])) = 2 * n" for n
    by (induction n) simp_all
  ultimately show ?case
    using Suc.prems
    by (subst clear_loop.simps)
      (simp add: word_less_nat_alt store16_def mem_write_Cons add.assoc fun_upd_def blank_cell_byte)
qed

lemma length_concat_replicate: "length (concat (replicate n bs)) = length bs * n"
  by (induction n) simp_all

lemma nth_concat_replicate:
  "i < n \<Longrightarrow> j < length bs \<Longrightarrow> concat (replicate n bs) ! (length bs * i + j) = bs ! j"
proof (induction n arbitrary: i)
  case 0
  then show ?case by simp
next
  case (Suc n)
  then show ?case
    by (cases i) (simp_all add: nth_append add.assoc)
qed

lemma blank_loop_write:
  "4 * n < 2 ^ 32 \<Longrightarrow> blank_loop m a n = mem_write m a (concat (replicate n [0x20, 0x07, 0, 0]))"
proof (induction n arbitrary: m a)
  case 0
  then show ?case by simp
next
  case (Suc n)
  then show ?case
    by (simp add: store32_def mem_write_Cons length_concat_replicate add.assoc fun_upd_def
        blank_cell_byte)
qed

lemma mem_write_nth_add:
  assumes "j < length bs" and "length bs \<le> 2 ^ 32" and "x = a + of_nat j"
  shows "mem_write m a bs x = bs ! j"
  using assms by (simp add: mem_write_nth)

section \<open>Properties of the console\<close>

text \<open>
  C18: from any state where the cursor is on the screen, a write of up to 8192 characters returns,
  keeps the invariant, leaves the cursor where the abstract 80 by 25 cursor goes, and changes no
  byte outside the 32 KiB text window of the adapter.
\<close>

theorem console_write_refines_cursor:
  assumes "con_inv s" and "unat count \<le> length buf" and "unat count \<le> 8192"
  shows "\<exists>s'. console_write buf count s = Some s' \<and> con_inv s'
    \<and> cursor s' = foldl cursor_step (cursor s) (take (unat count) buf)
    \<and> outside_vga_same (ram s) (ram s')"
  using console_write_result [OF assms] by blast

definition booted_console :: console where
  "booted_console = console_init \<lparr>ram = (\<lambda>_. 0), out_log = [], iflag = False,
     con_screen = 0, con_pos = 0, con_x = 0, con_y = 0\<rparr>"

lemma booted_console_inv: "con_inv booted_console" "cursor booted_console = (0, 0)"
  "con_x booted_console = 0" "con_y booted_console = 0"
  by (simp_all add: booted_console_def console_init_def console_clear_def con_inv_def cursor_def
      set_cursor_def set_screen_def out_byte_def Let_def)

theorem console_write_refines_cursor_witness:
  "\<exists>s'. console_write (cstr ''init gdt success'' @ [10]) 17 booted_console = Some s'
    \<and> con_inv s' \<and> cursor s' = (1, 0)"
  using console_write_refines_cursor [OF booted_console_inv(1),
      of 17 "cstr ''init gdt success'' @ [10]"]
  by (auto simp: booted_console_inv cursor_step_def cursor_lf_def)

text \<open>
  C38: text without control characters that fits into the rest of the row appears at the cursor, one
  cell of character and attribute per byte, and changes nothing else in memory.
\<close>

theorem console_write_shows_text:
  assumes "\<forall>c \<in> set cs. glyph c" and "unat (con_x s) + length cs \<le> 80"
  shows "\<exists>s'. console_write cs (of_nat (length cs)) s = Some s'
    \<and> ram s' = mem_write (ram s) (con_pos s) (cells cs)
    \<and> con_pos s' = con_pos s + 2 * of_nat (length cs)"
  using assms by (intro console_write_glyphs) simp_all

theorem console_write_shows_text_witness:
  "\<exists>s'. console_write (cstr ''ok'') (of_nat (length (cstr ''ok''))) booted_console = Some s'
    \<and> ram s' = mem_write (ram booted_console) (con_pos booted_console) (cells (cstr ''ok''))
    \<and> con_pos s' = con_pos booted_console + 2 * of_nat (length (cstr ''ok''))"
  by (rule console_write_shows_text) (simp_all add: glyph_def booted_console_inv)

text \<open>
  C39: text after a newline in the same write is not shown on the next row. The local \<open>ptr\<close> is not
  moved by the newline, so the glyphs of \<open>ys\<close> follow those of \<open>xs\<close> in memory, while the cursor
  ends on the next row after \<open>ys\<close>, where nothing was written.
\<close>

theorem text_after_newline_stays_on_row:
  assumes "con_inv s" and "\<forall>c \<in> set xs \<union> set ys. glyph c"
    and "unat (con_x s) + length xs \<le> 80" and "length ys \<le> 80" and "con_y s < 24"
  shows "\<exists>s'. console_write (xs @ [ASCII_LF] @ ys) (of_nat (length xs + 1 + length ys)) s = Some s'
    \<and> ram s' = mem_write (ram s) (con_pos s) (cells (xs @ ys))
    \<and> con_pos s' = con_screen s + ROW_SIZE * (con_y s + 1) + 2 * of_nat (length ys)"
proof -
  let ?s = "CLI s"
  let ?m = "mem_write (ram s) (con_pos s) (cells xs)"
  let ?n = "2 * of_nat (length xs) :: u32"
  have len: "unat (of_nat (length xs + 1 + length ys) :: u32) = length xs + 1 + length ys"
    using assms(3,4) by (intro unat_of_nat_small) simp
  have y: "con_y s + 1 < HEIGHT"
  proof -
    have "unat (con_y s) < 24"
      using assms(5) by (simp add: word_less_nat_alt)
    then show ?thesis
      using unat_add_small [of "con_y s" 1] by (simp add: word_less_nat_alt)
  qed
  let ?t = "?s\<lparr>ram := ?m, con_y := con_y s + 1, con_x := 0,
    con_pos := con_screen s + ROW_SIZE * (con_y s + 1)\<rparr>"
  have pos: "con_pos s = con_screen s + ROW_SIZE * con_y s + 2 * con_x s"
    using assms(1) by (simp add: con_inv_def)
  have first: "write_loop xs (con_pos s, ?s) = (con_pos s + ?n,
      ?s\<lparr>ram := ?m, con_pos := con_pos s + ?n, con_x := con_x s + of_nat (length xs)\<rparr>)"
    using assms(2,3) by (subst write_loop_glyphs) (auto simp: CLI_def)
  have lf: "write_loop [ASCII_LF] (con_pos s + ?n,
      ?s\<lparr>ram := ?m, con_pos := con_pos s + ?n, con_x := con_x s + of_nat (length xs)\<rparr>)
      = (con_pos s + ?n, ?t)"
    using y by (simp add: write_char_lf command_lf_def command_cr_def CLI_def pos
        push_bit_eq_mult algebra_simps del: ASCII_LF_def)
  have second: "write_loop ys (con_pos s + ?n, ?t) = (con_pos s + ?n + 2 * of_nat (length ys),
      ?t\<lparr>ram := mem_write ?m (con_pos s + ?n) (cells ys),
        con_pos := con_screen s + ROW_SIZE * (con_y s + 1) + 2 * of_nat (length ys),
        con_x := of_nat (length ys)\<rparr>)"
    using assms(2,4) by (subst write_loop_glyphs) auto
  have shown: "mem_write ?m (con_pos s + ?n) (cells ys) = mem_write (ram s) (con_pos s) (cells (xs @ ys))"
    using mem_write_append [of "cells xs" "cells ys" "ram s" "con_pos s"] assms(3,4)
    by (simp add: cells_append)
  have cli: "con_pos (CLI s) = con_pos s"
    by (simp add: CLI_def)
  have buf: "take (length xs + 1 + length ys) (xs @ [ASCII_LF] @ ys) = xs @ [ASCII_LF] @ ys"
    by simp
  have "\<exists>p s'. write_loop (xs @ [ASCII_LF] @ ys) (con_pos ?s, ?s) = (p, s')
      \<and> ram s' = mem_write (ram s) (con_pos s) (cells (xs @ ys))
      \<and> con_pos s' = con_screen s + ROW_SIZE * (con_y s + 1) + 2 * of_nat (length ys)"
    unfolding cli write_loop_append first lf second shown by simp
  then show ?thesis
    unfolding console_write_def len buf
    by (auto simp: set_cursor_def Let_def out_byte_def STI_def)
qed

theorem text_after_newline_stays_on_row_witness:
  "\<exists>s'. console_write (cstr ''a'' @ [ASCII_LF] @ cstr ''b'')
      (of_nat (length (cstr ''a'') + 1 + length (cstr ''b''))) booted_console = Some s'
    \<and> ram s' = mem_write (ram booted_console) (con_pos booted_console) (cells (cstr ''a'' @ cstr ''b''))
    \<and> con_pos s' = con_screen booted_console + ROW_SIZE * (con_y booted_console + 1)
        + 2 * of_nat (length (cstr ''b''))"
  by (rule text_after_newline_stays_on_row) (auto simp: glyph_def booted_console_inv)

end
