(* ===== verification/Console_Scroll.thy ===== *)
theory Console_Scroll
  imports Console_Spec
begin

text \<open>
  Clearing and scrolling: what \<open>console_clear\<close> leaves in the video memory and the CRT registers, the
  registers that show the cursor, and the two branches of \<open>scroll_up\<close>.
\<close>

text \<open>
  After \<open>console_init\<close> the 16 KiB of text memory hold a blank cell everywhere, the cursor is in
  the top left corner, and both CRT addresses have been set to zero.
\<close>

theorem console_init_blank:
  "ram (console_init s) = mem_write (ram s) MEM_BASE (concat (replicate 8192 [0x20, 0x07]))
   \<and> con_inv (console_init s) \<and> cursor (console_init s) = (0, 0)
   \<and> out_log (console_init s) = out_log s @
       [(0x3D4, 0xE), (0x3D5, 0), (0x3D4, 0xF), (0x3D5, 0), (0x3D4, 0xC), (0x3D5, 0), (0x3D4, 0xD), (0x3D5, 0)]"
proof -
  have "clear_loop m MEM_BASE = mem_write m MEM_BASE (concat (replicate 8192 [0x20, 0x07]))" for m
    using clear_loop_write [of MEM_BASE 8192 m] by (simp del: replicate_numeral)
  then show ?thesis
    by (simp add: console_init_def console_clear_def con_inv_def cursor_def set_cursor_def
        set_screen_def out_byte_def Let_def del: replicate_numeral)
qed

lemma bits_of_cell:
  assumes "n < 0x20000"
  shows "256 * unat (ucast (drop_bit 9 (of_nat n :: u32) AND 0xff) :: u8)
    + unat (ucast (drop_bit 1 (of_nat n :: u32) AND 0xff) :: u8) = n div 2"
proof -
  have n: "unat (of_nat n :: u32) = n"
    using assms by (intro unat_of_nat_small) simp
  have mask: "(255 :: u32) = mask 8"
    by (simp add: mask_eq_exp_minus_1)
  have "unat (ucast (drop_bit k (of_nat n :: u32) AND 0xff) :: u8) = n div 2 ^ k mod 256" for k
  proof -
    have "unat (drop_bit k (of_nat n :: u32)) = n div 2 ^ k"
      using assms by (simp add: unsigned_drop_bit_eq unsigned_of_nat take_bit_nat_eq_self)
        (simp add: drop_bit_eq_div)
    then show ?thesis
      unfolding mask
      by (simp only: unsigned_ucast_eq take_bit_eq_mask [symmetric] unsigned_take_bit_eq
          len_bit0 len_num1)
        (simp add: take_bit_eq_mod)
  qed
  moreover have "n div 512 < 256"
    using assms by simp
  moreover have "n div 512 = n div 2 div 256"
    by (simp add: div_mult2_eq [symmetric])
  ultimately show ?thesis
    using mult_div_mod_eq [of 256 "n div 2"] by simp
qed

text \<open>
  The two bytes sent to the cursor registers are the high and low half of the cell number of
  the cursor, counted from the start of the text memory.
\<close>

theorem set_cursor_sends_cell:
  assumes "con_inv s"
  shows "\<exists>h l. out_log (set_cursor s) = out_log s @ [(0x3D4, 0xE), (0x3D5, h), (0x3D4, 0xF), (0x3D5, l)]
    \<and> 256 * unat h + unat l =
        unat (con_screen s - MEM_BASE) div 2 + 80 * fst (cursor s) + snd (cursor s)"
proof -
  obtain k r c where bounds: "k \<le> 77" "r < 25" "c \<le> 80"
    and screen: "con_screen s = of_nat (0xB8000 + 160 * k)"
    and y: "con_y s = of_nat r" and x: "con_x s = of_nat c"
    and pos: "con_pos s = of_nat (0xB8000 + 160 * k + 160 * r + 2 * c)"
    using assms by (rule con_invE)
  define n where "n = 160 * k + 160 * r + 2 * c"
  have diff: "con_pos s - 0xB8000 = of_nat n"
    by (simp add: pos n_def)
  have half: "n < 0x20000" "n div 2 = 80 * k + 80 * r + c"
    using bounds by (simp_all add: n_def)
  have "con_screen s - MEM_BASE = of_nat (160 * k)"
    by (simp add: screen)
  then have "unat (con_screen s - MEM_BASE) = 160 * k"
    using bounds unat_of_nat_small [of "160 * k", where 'a = 32] by simp
  moreover have "cursor s = (r, c)"
    using bounds x y by (intro cursor_of_nat)
  ultimately show ?thesis
    using bits_of_cell [OF half(1)] half(2)
    by (simp add: set_cursor_def Let_def out_byte_def diff)
qed

theorem set_cursor_sends_cell_witness:
  "\<exists>h l. out_log (set_cursor booted_console) =
      out_log booted_console @ [(0x3D4, 0xE), (0x3D5, h), (0x3D4, 0xF), (0x3D5, l)]
    \<and> 256 * unat h + unat l = unat (con_screen booted_console - MEM_BASE) div 2
        + 80 * fst (cursor booted_console) + snd (cursor booted_console)"
  by (rule set_cursor_sends_cell [OF booted_console_inv(1)])

section \<open>Scrolling\<close>

lemma scroll_guard:
  assumes "con_inv s"
  shows "con_screen s + SCR_SIZE + ROW_SIZE < MEM_END \<longleftrightarrow> unat (con_screen s - MEM_BASE) \<le> 160 * 76"
    and "unat (con_screen s) = 0xB8000 + unat (con_screen s - MEM_BASE)"
proof -
  obtain k where k: "k \<le> 77" and screen: "con_screen s = of_nat (0xB8000 + 160 * k)"
    using assms by (rule con_invE)
  have "con_screen s - MEM_BASE = of_nat (160 * k)"
    by (simp add: screen)
  then have o: "unat (con_screen s - MEM_BASE) = 160 * k"
    using k unat_of_nat_small [of "160 * k", where 'a = 32] by simp
  have "con_screen s + SCR_SIZE + ROW_SIZE = of_nat (0xB8000 + 160 * k + 4160)"
    by (simp add: screen)
  then have "unat (con_screen s + SCR_SIZE + ROW_SIZE) = 0xB8000 + 160 * k + 4160"
    using k unat_of_nat_small [of "0xB8000 + 160 * k + 4160", where 'a = 32] by simp
  then show "con_screen s + SCR_SIZE + ROW_SIZE < MEM_END \<longleftrightarrow> unat (con_screen s - MEM_BASE) \<le> 160 * 76"
    unfolding o by (auto simp: word_less_nat_alt)
  show "unat (con_screen s) = 0xB8000 + unat (con_screen s - MEM_BASE)"
    unfolding o using k unat_of_nat_small [of "0xB8000 + 160 * k", where 'a = 32] screen by simp
qed

text \<open>
  While 26 rows fit below the screen start, \<open>scroll_up\<close> moves screen and cursor down one row and
  writes 80 doublewords \<open>0x00000720\<close> behind the old screen: two rows, in which every second
  cell is a NUL with attribute 0 instead of a blank.
\<close>

theorem scroll_up_advances:
  assumes "con_inv s" and "unat (con_screen s - MEM_BASE) \<le> 160 * 76"
  shows "ram (scroll_up s) =
      mem_write (ram s) (con_screen s + SCR_SIZE) (concat (replicate 80 [0x20, 0x07, 0, 0]))
    \<and> con_screen (scroll_up s) = con_screen s + ROW_SIZE
    \<and> con_pos (scroll_up s) = con_pos s + ROW_SIZE"
  using assms scroll_guard(1) [OF assms(1)]
  by (simp add: scroll_up_def Let_def blank_loop_write del: replicate_numeral)

theorem scroll_up_advances_witness:
  "ram (scroll_up booted_console) = mem_write (ram booted_console)
      (con_screen booted_console + SCR_SIZE) (concat (replicate 80 [0x20, 0x07, 0, 0]))
    \<and> con_screen (scroll_up booted_console) = con_screen booted_console + ROW_SIZE
    \<and> con_pos (scroll_up booted_console) = con_pos booted_console + ROW_SIZE"
  by (rule scroll_up_advances [OF booted_console_inv(1)])
    (simp add: booted_console_def console_init_def console_clear_def set_cursor_def set_screen_def
      out_byte_def Let_def)

definition last_row_console :: console where
  "last_row_console = \<lparr>ram = (\<lambda>_. 0xFF), out_log = [], iflag = True, con_screen = MEM_BASE + 160 * 76,
     con_pos = MEM_BASE + 160 * 100, con_x = 0, con_y = 24\<rparr>"

text \<open>
  C40: on the last row before the wrap, \<open>scroll_up\<close> writes exactly 96 bytes behind the end of the text
  memory: the bytes from \<open>MEM_END\<close> on become 24 doublewords of the same pattern, a blank and a NUL cell,
  and the bytes after them stay.
\<close>

theorem scroll_up_writes_past_end:
  assumes "con_inv s" and "unat (con_screen s - MEM_BASE) = 160 * 76"
  shows "mem_bytes (ram (scroll_up s)) MEM_END 96 = concat (replicate 24 [0x20, 0x07, 0, 0])
    \<and> (\<forall>y. MEM_END + 96 \<le> y \<longrightarrow> ram (scroll_up s) y = ram s y)"
proof -
  have "con_screen s = MEM_BASE + of_nat (unat (con_screen s - MEM_BASE))"
    by simp
  then have screen: "con_screen s = 0xB8000 + 12160"
    unfolding assms(2) by simp
  have ram: "ram (scroll_up s) = mem_write (ram s) (con_screen s + SCR_SIZE)
      (concat (replicate 80 [0x20, 0x07, 0, 0]))"
    using assms(2) scroll_guard(1) [OF assms(1)]
    by (simp add: scroll_up_def Let_def blank_loop_write del: replicate_numeral)
  have four: "length [0x20, 0x07, 0, 0 :: u8] = 4"
    by simp
  have pattern: "concat (replicate n [0x20, 0x07, 0, 0 :: u8]) ! (4 * i + j) = [0x20, 0x07, 0, 0] ! j"
    if "i < n" "j < 4" for i j n
    using nth_concat_replicate [of i n j "[0x20, 0x07, 0, 0 :: u8]", unfolded four] that by blast
  have bytes: "ram (scroll_up s) (MEM_END + of_nat (4 * i + j)) = [0x20, 0x07, 0, 0] ! j" if "i < 24" "j < 4" for i j
  proof -
    have nth: "concat (replicate 80 [0x20, 0x07, 0, 0 :: u8]) ! (4 * (56 + i) + j) = [0x20, 0x07, 0, 0] ! j"
      by (rule pattern) (use that in simp_all)
    show ?thesis
      unfolding ram nth [symmetric] using that
      by (intro mem_write_nth_add) (simp_all add: length_concat_replicate screen del: replicate_numeral)
  qed
  have "mem_bytes (ram (scroll_up s)) MEM_END 96 = concat (replicate 24 [0x20, 0x07, 0, 0])"
  proof (rule nth_equalityI)
    fix q
    assume "q < length (mem_bytes (ram (scroll_up s)) MEM_END 96)"
    then have q: "q div 4 < 24" "q mod 4 < 4" "q < 96" "q = 4 * (q div 4) + q mod 4"
      by simp_all
    show "mem_bytes (ram (scroll_up s)) MEM_END 96 ! q = concat (replicate 24 [0x20, 0x07, 0, 0]) ! q"
      using bytes [OF q(1,2)] pattern [OF q(1,2)] q(3) unfolding q(4) [symmetric] by (simp del: replicate_numeral)
  qed (simp add: length_concat_replicate del: replicate_numeral)
  moreover have "ram (scroll_up s) y = ram s y" if "MEM_END + 96 \<le> y" for y
    unfolding ram using that
    by (intro mem_write_other) (simp add: length_concat_replicate screen in_range_nat word_le_nat_alt del: replicate_numeral)
  ultimately show ?thesis
    by blast
qed

theorem scroll_up_writes_past_end_witness:
  "mem_bytes (ram (scroll_up last_row_console)) MEM_END 96 = concat (replicate 24 [0x20, 0x07, 0, 0])
    \<and> ram (scroll_up last_row_console) (MEM_END + 95) = 0 \<and> ram last_row_console (MEM_END + 95) = 0xFF"
proof -
  have inv: "con_inv last_row_console" "unat (con_screen last_row_console - MEM_BASE) = 160 * 76"
    by (simp_all add: last_row_console_def con_inv_def)
  have "mem_bytes (ram (scroll_up last_row_console)) MEM_END 96 = concat (replicate 24 [0x20, 0x07, 0, 0])"
    using scroll_up_writes_past_end [OF inv] by blast
  moreover from arg_cong [OF this, of "\<lambda>bs. bs ! 95"] have "ram (scroll_up last_row_console) (MEM_END + 95) = 0"
    using nth_concat_replicate [of 23 24 3 "[0x20, 0x07, 0, 0 :: u8]"] by (simp del: replicate_numeral)
  ultimately show ?thesis
    by (simp add: last_row_console_def)
qed

definition wrapping_console :: console where
  "wrapping_console = last_row_console\<lparr>con_screen := MEM_BASE + 160 * 77,
     con_pos := MEM_BASE + 160 * 101\<rparr>"

text \<open>
  When the video memory is used up, \<open>scroll_up\<close> copies the visible screen to the start of the
  video memory and moves the cursor with it, but scrolls nothing: every visible cell and the
  position of the cursor on the screen are what they were.
\<close>

theorem scroll_up_wrap_keeps_screen:
  assumes "con_inv s" and "unat (con_screen s - MEM_BASE) = 160 * 77" and "i < 4000"
  shows "con_screen (scroll_up s) = MEM_BASE
    \<and> ram (scroll_up s) (con_screen (scroll_up s) + of_nat i) = ram s (con_screen s + of_nat i)
    \<and> con_pos (scroll_up s) - con_screen (scroll_up s) = con_pos s - con_screen s"
proof -
  have far: "unat SCR_SIZE \<le> unat (MEM_BASE - con_screen s)"
  proof -
    have "con_screen s = MEM_BASE + of_nat (unat (con_screen s - MEM_BASE))"
      by simp
    then have "con_screen s = 0xB8000 + 12320"
      unfolding assms(2) by simp
    then show ?thesis by simp
  qed
  have ram: "ram (scroll_up s) = memcpy_loop (ram s) MEM_BASE (con_screen s) (unat SCR_SIZE)"
    "con_screen (scroll_up s) = MEM_BASE" "con_pos (scroll_up s) = con_pos s - (con_screen s - MEM_BASE)"
    using assms(2) scroll_guard(1) [OF assms(1)] by (simp_all add: scroll_up_def Let_def memcpy_def)
  have "memcpy_loop (ram s) MEM_BASE (con_screen s) (unat SCR_SIZE) (MEM_BASE + of_nat i)
      = ram s (con_screen s + of_nat i)"
    using far assms(3) by (intro memcpy_loop_nth) simp_all
  then show ?thesis
    unfolding ram by simp
qed

theorem scroll_up_wrap_keeps_screen_witness:
  "con_screen (scroll_up wrapping_console) = MEM_BASE
    \<and> ram (scroll_up wrapping_console) (con_screen (scroll_up wrapping_console) + of_nat 3999)
      = ram wrapping_console (con_screen wrapping_console + of_nat 3999)
    \<and> con_pos (scroll_up wrapping_console) - con_screen (scroll_up wrapping_console) = con_pos wrapping_console - con_screen wrapping_console"
  by (rule scroll_up_wrap_keeps_screen) (simp_all add: wrapping_console_def last_row_console_def con_inv_def)

end
