(* ===== verification/Printk.thy ===== *)
theory Printk
  imports Format_Spec Console_Scroll
begin

text \<open>
  \<open>kernel/kernel/printk.c\<close>: the static buffer of 1024 bytes, the formatter into it and the console
  write of what it produced, between \<open>CLI\<close> and \<open>STI\<close>. The lemmas give the components above a rule to
  run \<open>printk\<close> with: it returns, keeps the console's invariant, leaves every byte outside the video
  window and every field of the callers alone, and sets the interrupt flag.
\<close>

record printk_state = console +
  printk_buf :: "u8 list"

text \<open>
  \<open>None\<close>: the formatter reads an argument that was not passed, or the text and its NUL do not fit into
  the buffer, which \<open>vsprintf\<close> never checks. The result is the number of characters.
\<close>

definition printk ::
  "u8 list \<Rightarrow> va_slot list \<Rightarrow> 'a printk_state_scheme \<Rightarrow> (u32 \<times> 'a printk_state_scheme) option" where
  "printk fmt args s =
     do { let s = CLI s;
          (out, m) \<leftarrow> vsprintf (ram s) fmt args;
          if length out + 1 \<le> length (printk_buf s) then
            do { let s = s\<lparr>ram := m, printk_buf := out @ [0] @ drop (length out + 1) (printk_buf s)\<rparr>;
                 let i = of_nat (length out);
                 s \<leftarrow> console_write (printk_buf s) i s;
                 let s = STI s;
                 Some (i, s) }
          else None }"

definition log_inv :: "'a printk_state_scheme \<Rightarrow> bool" where
  "log_inv s \<longleftrightarrow> con_inv s \<and> length (printk_buf s) = 1024"

text \<open>What a call of \<open>printk\<close> may change, as its callers see it.\<close>

definition log_frame :: "'a printk_state_scheme \<Rightarrow> 'a printk_state_scheme \<Rightarrow> bool" where
  "log_frame s s' \<longleftrightarrow>
     outside_vga_same (ram s) (ram s') \<and> printk_state.more s' = printk_state.more s"

lemma log_frame_refl [simp]: "log_frame s s"
  by (simp add: log_frame_def)

lemma log_frame_trans: "log_frame s t \<Longrightarrow> log_frame t u \<Longrightarrow> log_frame s u"
  by (auto simp: log_frame_def intro: outside_vga_trans)

lemma log_frame_ram: "log_frame s s' \<Longrightarrow> \<not> vga x \<Longrightarrow> ram s' x = ram s x"
  by (simp add: log_frame_def outside_vga_same_def)

lemma log_frame_load32:
  assumes "log_frame s s'" and "unat a + 4 \<le> 0xB8000 \<or> 0xC0000 \<le> unat a" and "unat a + 4 \<le> 2 ^ 32"
  shows "load32 (ram s') a = load32 (ram s) a"
proof (rule load32_cong)
  fix x
  assume "in_range a 4 x"
  then have "\<not> vga x"
    using assms(2,3) by (auto simp: in_range_nat vga_nat)
  then show "ram s' x = ram s x"
    using assms(1) by (rule log_frame_ram [rotated])
qed

lemma CLI_printk_buf [simp]: "printk_buf (CLI s) = printk_buf s"
  by (simp add: CLI_def)

lemma console_more_printk:
  "console.more s = console.more (t :: 'a printk_state_scheme) \<Longrightarrow>
   printk_buf s = printk_buf t \<and> printk_state.more s = printk_state.more t"
  by (cases s rule: printk_state.cases_scheme, cases t rule: printk_state.cases_scheme) simp

text \<open>The rule for callers: a message of at most 1023 characters that stores nothing.\<close>

lemma printk_step:
  assumes inv: "log_inv s" and fmt: "vsprintf (ram s) fmt args = Some (out, ram s)"
    and len: "length out \<le> 1023"
  shows "\<exists>s'. printk fmt args s = Some (of_nat (length out), s') \<and> log_inv s' \<and> log_frame s s' \<and> iflag s'
    \<and> cursor s' = foldl cursor_step (cursor s) out"
proof -
  define shown where "shown = out @ [0] @ drop (length out + 1) (printk_buf s)"
  define n where "n = (of_nat (length out) :: u32)"
  let ?s = "(CLI s)\<lparr>ram := ram s, printk_buf := shown\<rparr>"
  have buf: "length (printk_buf s) = 1024"
    using inv by (simp add: log_inv_def)
  have inv': "con_inv ?s" "cursor ?s = cursor s"
    using inv by (simp_all add: log_inv_def con_inv_def cursor_def CLI_def)
  have n: "unat n = length out" and shown: "take (length out) shown = out" "length shown = 1024"
    using len buf by (simp_all add: n_def shown_def unat_of_nat_small)
  obtain s1 where run: "console_write shown n ?s = Some s1"
    and post: "con_inv s1" "iflag s1" "console.more s1 = console.more ?s"
      "outside_vga_same (ram ?s) (ram s1)" "cursor s1 = foldl cursor_step (cursor ?s) out"
    using console_write_result [OF inv'(1), of n shown] len unfolding n shown by auto
  have more: "printk_buf s1 = printk_buf ?s" "printk_state.more s1 = printk_state.more ?s"
    using console_more_printk [OF post(3)] by simp_all
  have "printk fmt args s = Some (n, STI s1)"
  proof -
    have "printk fmt args s = (console_write shown n ?s \<bind> (\<lambda>s. Some (n, STI s)))"
      using fmt len buf by (simp add: printk_def Let_def n_def shown_def)
    then show ?thesis
      unfolding run by simp
  qed
  moreover have "log_inv (STI s1)" "log_frame s (STI s1)" "iflag (STI s1)"
    "cursor (STI s1) = foldl cursor_step (cursor s) out"
    using post more inv'(2) shown(2)
    by (simp_all add: log_inv_def log_frame_def STI_def CLI_def con_inv_def cursor_def)
  ultimately show ?thesis unfolding n_def by blast
qed

text \<open>Callers drop the number \<open>printk\<close> returns.\<close>

definition print_message ::
  "u8 list \<Rightarrow> va_slot list \<Rightarrow> 'a printk_state_scheme \<Rightarrow> 'a printk_state_scheme option" where
  "print_message fmt args s = map_option snd (printk fmt args s)"

lemma printk_message:
  assumes "log_inv s" and "vsprintf (ram s) fmt args = Some (out, ram s)" and "length out \<le> 1023"
  obtains s' where "print_message fmt args s = Some s'" and "log_inv s'" and "log_frame s s'" and "iflag s'"
  using printk_step [OF assms] by (auto simp: print_message_def)

section \<open>Properties\<close>

definition booted_log :: printk_state where
  "booted_log = console.extend (console.truncate booted_console) \<lparr>printk_buf = replicate 1024 0\<rparr>"

lemma booted_log_inv: "log_inv booted_log" "cursor booted_log = (0, 0)"
  using booted_console_inv
  by (simp_all add: booted_log_def log_inv_def con_inv_def cursor_def console.extend_def
      console.truncate_def del: replicate_numeral)

text \<open>
  C36: a message of at most 1023 characters is formatted, written and counted: the result is the
  length of the text, the cursor moves over exactly that text, only the video window of the memory
  changes, and on return interrupts are enabled, whether or not they were before the call.
\<close>

theorem printk_writes_message:
  assumes "log_inv s" and "vsprintf (ram s) fmt args = Some (out, ram s)" and "length out \<le> 1023"
  shows "\<exists>s'. printk fmt args s = Some (of_nat (length out), s') \<and> log_inv s' \<and> log_frame s s'
    \<and> cursor s' = foldl cursor_step (cursor s) out \<and> iflag s'"
  using printk_step [OF assms] by blast

theorem printk_writes_message_witness:
  "\<exists>s'. printk (cstr ''pid %d'') [Slot 7] booted_log = Some (5, s') \<and> cursor s' = (0, 5) \<and> iflag s'"
proof -
  have "vsprintf (ram booted_log) (cstr ''pid %d'') [Slot 7] = Some (cstr ''pid 7'', ram booted_log)"
    by (simp add: format_eval)
  from printk_writes_message [OF booted_log_inv(1) this] show ?thesis
    by (auto simp: booted_log_inv cursor_step_def)
qed

text \<open>
  A message of 1024 characters or more overruns the buffer: no result is defined for it.
\<close>

theorem printk_overflow:
  assumes "log_inv s" and "ch CHR ''%'' \<notin> set fmt" and "1024 \<le> length fmt"
  shows "printk fmt args s = None"
  using assms by (simp add: printk_def vsprintf_text log_inv_def CLI_def)

theorem printk_overflow_witness: "printk (replicate 1024 (ch CHR ''x'')) [] booted_log = None"
  by (rule printk_overflow [OF booted_log_inv(1)]) (simp_all del: replicate_numeral)

end
