(* ===== verification/Phys_Memory.thy ===== *)
theory Phys_Memory
  imports Printk
begin

text \<open>
  The physical memory allocator of \<open>kernel/mm/memory.c\<close> and the two structures of
  \<open>kernel/include/linux/mm.h\<close> it keeps as globals. The BIOS memory map at \<open>ARDS_ADDR\<close> and the page
  map, one byte per page at \<open>0x10000\<close>, are in the flat memory as in the kernel; every operation logs
  through \<open>printk\<close>.
\<close>

definition PAGE_SIZE :: u32 where [simp]: "PAGE_SIZE = 4096"
definition ARDS_ADDR :: u32 where [simp]: "ARDS_ADDR = 0x1100"
definition ZONE_VALID :: u32 where [simp]: "ZONE_VALID = 1"
definition VALID_MEMORY_FROM :: u32 where [simp]: "VALID_MEMORY_FROM = 0x100000"

record physics_memory_info =
  addr_start :: u32
  addr_end :: u32
  valid_mem_size :: u32
  info_pages_total :: u32
  pages_free :: u32
  pages_used :: u32

record physics_memory_map =
  addr_base :: u32
  map_pages_total :: u32
  bitmap_item_used :: u32
  map_ptr :: u32

record memory_state = printk_state +
  g_physics_memory :: physics_memory_info
  g_physics_memory_map :: physics_memory_map

section \<open>The BIOS memory map\<close>

text \<open>Item \<open>i\<close> of the map: 20 bytes each from \<open>ARDS_ADDR + 2\<close> on, the fields of
  \<open>check_memory_item_t\<close> in order.\<close>

record check_memory_item =
  base_addr_low :: u32
  base_addr_high :: u32
  length_low :: u32
  length_high :: u32
  item_type :: u32

definition check_memory_times :: "mem \<Rightarrow> nat" where
  "check_memory_times m = unat (load16 m ARDS_ADDR)"

definition check_memory_item_at :: "mem \<Rightarrow> nat \<Rightarrow> check_memory_item" where
  "check_memory_item_at m i =
     (let p = ARDS_ADDR + 2 + of_nat (20 * i)
      in \<lparr>base_addr_low = load32 m p, base_addr_high = load32 m (p + 4),
          length_low = load32 m (p + 8), length_high = load32 m (p + 12),
          item_type = load32 m (p + 16)\<rparr>)"

text \<open>The loop of \<open>print_check_memory_info\<close> with \<open>n\<close> items to go from item \<open>i\<close> on.\<close>

fun print_items :: "nat \<Rightarrow> nat \<Rightarrow> 'a memory_state_scheme \<Rightarrow> 'a memory_state_scheme option" where
  "print_items i 0 s = Some s"
| "print_items i (Suc n) s =
     do { let tmp = check_memory_item_at (ram s) i;
          s \<leftarrow> print_message (cstr ''%x, %x, %x, %x, %d'' @ [10])
                 [Slot (base_addr_high tmp), Slot (base_addr_low tmp), Slot (length_high tmp),
                  Slot (length_low tmp), Slot (item_type tmp)] s;
          print_items (i + 1) n s }"

definition print_check_memory_info ::
  "'a memory_state_scheme \<Rightarrow> 'a memory_state_scheme option" where
  "print_check_memory_info s = print_items 0 (check_memory_times (ram s)) s"

text \<open>The search loop of \<open>memory_init\<close>: it fills the record from every usable zone above address 0
  until the one that starts at 1 MB.\<close>

fun find_zone :: "mem \<Rightarrow> nat \<Rightarrow> nat \<Rightarrow> physics_memory_info \<Rightarrow> physics_memory_info" where
  "find_zone m i 0 g = g"
| "find_zone m i (Suc n) g =
     (let tmp = check_memory_item_at m i
      in if 0 < base_addr_low tmp \<and> item_type tmp = ZONE_VALID then
           (let g = g\<lparr>addr_start := base_addr_low tmp, valid_mem_size := length_low tmp,
                      addr_end := base_addr_low tmp + length_low tmp\<rparr>
            in if VALID_MEMORY_FROM = addr_start g then g else find_zone m (i + 1) n g)
         else find_zone m (i + 1) n g)"

text \<open>\<open>src_file\<close> is the expansion of \<open>__FILE__\<close>, which depends on how the compiler is called.\<close>

definition memory_init ::
  "u8 list \<Rightarrow> 'a memory_state_scheme \<Rightarrow> 'a memory_state_scheme option" where
  "memory_init src_file s =
     do { let s = s\<lparr>g_physics_memory :=
            find_zone (ram s) 0 (check_memory_times (ram s)) (g_physics_memory s)\<rparr>;
          if VALID_MEMORY_FROM \<noteq> addr_start (g_physics_memory s) then
            print_message (cstr ''[%s:%d] no valid physics memory'' @ [10]) [Lit src_file, Slot 66] s
          else
            do { let g = g_physics_memory s;
                 let g = g\<lparr>info_pages_total := drop_bit 12 (addr_end g - addr_start g)\<rparr>;
                 let g = g\<lparr>pages_used := 0\<rparr>;
                 let g = g\<lparr>pages_free := info_pages_total g - pages_used g\<rparr>;
                 Some (s\<lparr>g_physics_memory := g\<rparr>) } }"

definition memory_map_int ::
  "u8 list \<Rightarrow> 'a memory_state_scheme \<Rightarrow> 'a memory_state_scheme option" where
  "memory_map_int src_file s =
     (if VALID_MEMORY_FROM \<noteq> addr_start (g_physics_memory s) then
        print_message (cstr ''[%s:%d] no valid physics memory'' @ [10]) [Lit src_file, Slot 81] s
      else
        do { let pm = g_physics_memory_map s;
             let pm = pm\<lparr>addr_base := VALID_MEMORY_FROM\<rparr>;
             let pm = pm\<lparr>map_ptr := 0x10000\<rparr>;
             let pm = pm\<lparr>map_pages_total := info_pages_total (g_physics_memory s)\<rparr>;
             let (_, m) = memset (ram s) (map_ptr pm) 0 (map_pages_total pm);
             Some (s\<lparr>g_physics_memory_map := pm, ram := m\<rparr>) })"

section \<open>Pages\<close>

text \<open>
  The loop of \<open>get_free_page\<close>: the comparison of the \<open>int\<close> index with the unsigned page number is
  unsigned.
\<close>

function find_free :: "mem \<Rightarrow> u32 \<Rightarrow> u32 \<Rightarrow> u32 \<Rightarrow> u32 option" where
  "find_free m p npages i =
     (if i < npages then (if m (p + i) = 0 then Some i else find_free m p npages (i + 1)) else None)"
  by pat_completeness auto
termination
proof (relation "measure (\<lambda>(m, p, npages, i). unat npages - unat i)")
  fix m :: mem and p npages i :: u32
  assume "i < npages"
  then have lt: "unat i < unat npages"
    by (simp add: word_less_nat_alt)
  then have "unat (i + 1) = unat i + 1"
    using unat_add_small [of i 1] unat_less_u32 [of npages] by simp
  with lt show "((m, p, npages, i + 1), (m, p, npages, i)) \<in> measure (\<lambda>(m, p, npages, i). unat npages - unat i)"
    by simp
qed simp

declare find_free.simps [simp del]

definition page_format :: "u8 list" where
  "page_format = cstr ''[%s] return: 0x%X, used: %d pages'' @ [10]"

definition get_free_page ::
  "'a memory_state_scheme \<Rightarrow> (u32 \<times> 'a memory_state_scheme) option" where
  "get_free_page s =
     (let pm = g_physics_memory_map s
      in case find_free (ram s) (map_ptr pm) (info_pages_total (g_physics_memory s))
                (bitmap_item_used pm) of
           None \<Rightarrow>
             do { s \<leftarrow> print_message (cstr ''need to expand memory !'') [] s;
                  Some (0, s) }
         | Some i \<Rightarrow>
             do { let s = s\<lparr>ram := (ram s)(map_ptr pm + i := 1)\<rparr>;
                  let pm = pm\<lparr>bitmap_item_used := bitmap_item_used pm + 1\<rparr>;
                  let s = s\<lparr>g_physics_memory_map := pm\<rparr>;
                  let ret = addr_base pm + push_bit 12 i;
                  s \<leftarrow> print_message page_format
                         [Lit (cstr ''get_free_page''), Slot ret, Slot (bitmap_item_used pm)] s;
                  Some (ret, s) })"

text \<open>The index of \<open>free_page\<close> is an arithmetic shift of the difference taken as an \<open>int\<close>.\<close>

definition free_page :: "u32 \<Rightarrow> 'a memory_state_scheme \<Rightarrow> 'a memory_state_scheme option" where
  "free_page p s =
     (if p < addr_start (g_physics_memory s) \<or> addr_end (g_physics_memory s) < p then
        print_message (cstr ''invalid memory address !'') [] s
      else
        do { let pm = g_physics_memory_map s;
             let index = signed_drop_bit 12 (p - addr_base pm);
             let s = s\<lparr>ram := (ram s)(map_ptr pm + index := 0)\<rparr>;
             let pm = pm\<lparr>bitmap_item_used := bitmap_item_used pm - 1\<rparr>;
             let s = s\<lparr>g_physics_memory_map := pm\<rparr>;
             print_message page_format
               [Lit (cstr ''free_page''), Slot p, Slot (bitmap_item_used pm)] s })"

end
