(* ===== verification/Malloc.thy ===== *)
theory Malloc
  imports Phys_Memory
begin

text \<open>
  The bucket allocator of \<open>kernel/mm/malloc.c\<close>. The bucket directory and the head of the list of
  free descriptors are static variables, hence record fields; the descriptors (16 bytes: \<open>page\<close>,
  \<open>next\<close>, \<open>freeptr\<close>, \<open>refcnt\<close>, \<open>bucket_size\<close>) and the list of free objects inside each
  bucket page are in the flat memory. Walking a list that does not end, and following a null pointer,
  have no result (\<open>None\<close>).
\<close>

section \<open>Descriptors\<close>

definition d_page :: "mem \<Rightarrow> u32 \<Rightarrow> u32" where "d_page m d = load32 m d"
definition d_next :: "mem \<Rightarrow> u32 \<Rightarrow> u32" where "d_next m d = load32 m (d + 4)"
definition d_freeptr :: "mem \<Rightarrow> u32 \<Rightarrow> u32" where "d_freeptr m d = load32 m (d + 8)"
definition d_refcnt :: "mem \<Rightarrow> u32 \<Rightarrow> u16" where "d_refcnt m d = load16 m (d + 12)"
definition d_bucket_size :: "mem \<Rightarrow> u32 \<Rightarrow> u16" where "d_bucket_size m d = load16 m (d + 14)"

definition set_page :: "u32 \<Rightarrow> u32 \<Rightarrow> mem \<Rightarrow> mem" where "set_page d v m = store32 m d v"
definition set_next :: "u32 \<Rightarrow> u32 \<Rightarrow> mem \<Rightarrow> mem" where "set_next d v m = store32 m (d + 4) v"
definition set_freeptr :: "u32 \<Rightarrow> u32 \<Rightarrow> mem \<Rightarrow> mem" where "set_freeptr d v m = store32 m (d + 8) v"
definition set_refcnt :: "u32 \<Rightarrow> u16 \<Rightarrow> mem \<Rightarrow> mem" where "set_refcnt d v m = store16 m (d + 12) v"
definition set_bucket_size :: "u32 \<Rightarrow> u16 \<Rightarrow> mem \<Rightarrow> mem" where
  "set_bucket_size d v m = store16 m (d + 14) v"

lemmas desc_defs =
  d_page_def d_next_def d_freeptr_def d_refcnt_def d_bucket_size_def
  set_page_def set_next_def set_freeptr_def set_refcnt_def set_bucket_size_def

record bucket =
  bucket_size :: u32
  bucket_chain :: u32

record malloc_state = memory_state +
  bucket_dir :: "bucket list"
  free_bucket_desc :: u32

text \<open>The initial value of \<open>bucket_dir\<close>, with its end marker.\<close>

definition initial_bucket_dir :: "bucket list" where
  "initial_bucket_dir = map (\<lambda>n. \<lparr>bucket_size = n, bucket_chain = 0\<rparr>)
     [16, 32, 64, 128, 256, 512, 1024, 2048, 4096, 0]"

text \<open>Memory updates of the heap code; \<open>set_chain i p\<close> is \<open>bucket_dir[i].chain = p\<close>.\<close>

definition upd_ram :: "(mem \<Rightarrow> mem) \<Rightarrow> 'a machine_scheme \<Rightarrow> 'a machine_scheme" where
  "upd_ram f s = s\<lparr>ram := f (ram s)\<rparr>"

definition set_chain :: "nat \<Rightarrow> u32 \<Rightarrow> 'a malloc_state_scheme \<Rightarrow> 'a malloc_state_scheme" where
  "set_chain i p s = s\<lparr>bucket_dir := (bucket_dir s)[i := (bucket_dir s ! i)\<lparr>bucket_chain := p\<rparr>]\<rparr>"

section \<open>Descriptor pages\<close>

text \<open>The loop of \<open>init_bucket_desc\<close>: \<open>n\<close> descriptors from \<open>bdesc\<close> on get the next one as
  successor; the result is the last descriptor.\<close>

fun link_descs :: "mem \<Rightarrow> u32 \<Rightarrow> nat \<Rightarrow> mem \<times> u32" where
  "link_descs m bdesc 0 = (m, bdesc)"
| "link_descs m bdesc (Suc n) = link_descs (set_next bdesc (bdesc + 16) m) (bdesc + 16) n"

definition init_bucket_desc :: "'a malloc_state_scheme \<Rightarrow> 'a malloc_state_scheme option" where
  "init_bucket_desc s =
     do { (first, s) \<leftarrow> get_free_page s;
          if first = 0 then Some s
          else
            do { let (m, bdesc) = link_descs (ram s) first (unat (PAGE_SIZE div 16) - 1);
                 let m = set_next bdesc (free_bucket_desc s) m;
                 Some (s\<lparr>ram := m, free_bucket_desc := first\<rparr>) } }"

section \<open>Allocation\<close>

text \<open>The search for the bucket size: the index of the first entry that is the end marker or large
  enough; \<open>size >= len\<close> compares unsigned.\<close>

fun find_dir :: "bucket list \<Rightarrow> u32 \<Rightarrow> nat option" where
  "find_dir [] len = None"
| "find_dir (b # bs) len =
     (if bucket_size b = 0 then Some 0
      else if len \<le> bucket_size b then Some 0 else map_option Suc (find_dir bs len))"

partial_function (option) find_bucket :: "mem \<Rightarrow> u32 \<Rightarrow> u32 option" where
  "find_bucket m bdesc =
     (if bdesc = 0 then Some 0
      else if d_freeptr m bdesc \<noteq> 0 then Some bdesc else find_bucket m (d_next m bdesc))"

text \<open>The chain of free objects: \<open>n\<close> links of \<open>size\<close> bytes from \<open>cp\<close> on, and the last object.\<close>

fun link_objects :: "mem \<Rightarrow> u32 \<Rightarrow> u32 \<Rightarrow> nat \<Rightarrow> mem \<times> u32" where
  "link_objects m cp sz 0 = (m, cp)"
| "link_objects m cp sz (Suc n) = link_objects (store32 m cp (cp + sz)) (cp + sz) sz n"

text \<open>
  The body of \<open>if (!bdesc)\<close>: a descriptor from the free list, filled if necessary, and a page for
  the bucket. The descriptor is the result, 0 where the code returns NULL.
\<close>

definition new_bucket :: "nat \<Rightarrow> 'a malloc_state_scheme \<Rightarrow> (u32 \<times> 'a malloc_state_scheme) option" where
  "new_bucket i s =
     do { let sz = bucket_size (bucket_dir s ! i);
          s \<leftarrow> (if free_bucket_desc s = 0 then init_bucket_desc s else Some s);
          let bdesc = free_bucket_desc s;
          if bdesc = 0 then None
          else
            do { let s = s\<lparr>free_bucket_desc := d_next (ram s) bdesc\<rparr>;
                 let s = upd_ram (set_refcnt bdesc 0) s;
                 let s = upd_ram (set_bucket_size bdesc (ucast sz)) s;
                 (cp, s) \<leftarrow> get_free_page s;
                 let s = upd_ram (set_freeptr bdesc cp) s;
                 let s = upd_ram (set_page bdesc cp) s;
                 if cp = 0 then Some (0, s)
                 else
                   do { let (m, cp) = link_objects (ram s) cp sz (unat (PAGE_SIZE div sz) - 1);
                        let m = store32 m cp 0;
                        let m = set_next bdesc (bucket_chain (bucket_dir s ! i)) m;
                        let s = s\<lparr>ram := m\<rparr>;
                        let s = set_chain i bdesc s;
                        Some (bdesc, s) } } }"

text \<open>The object is taken from the free list of the bucket found or made.\<close>

definition take_object :: "u32 \<Rightarrow> 'a malloc_state_scheme \<Rightarrow> u32 \<times> 'a malloc_state_scheme" where
  "take_object bdesc s =
     (let retval = d_freeptr (ram s) bdesc;
          s = upd_ram (set_freeptr bdesc (load32 (ram s) retval)) s;
          s = upd_ram (set_refcnt bdesc (d_refcnt (ram s) bdesc + 1)) s
      in (retval, STI s))"

definition kmalloc :: "u32 \<Rightarrow> 'a malloc_state_scheme \<Rightarrow> (u32 \<times> 'a malloc_state_scheme) option" where
  "kmalloc len s =
     do { i \<leftarrow> find_dir (bucket_dir s) len;
          if bucket_size (bucket_dir s ! i) = 0 then
            do { s \<leftarrow> print_message
                   (cstr ''malloc called with impossibly large argument (%d)'' @ [10]) [Slot len] s;
                 Some (0, s) }
          else
            do { let s = CLI s;
                 bdesc \<leftarrow> find_bucket (ram s) (bucket_chain (bucket_dir s ! i));
                 if bdesc \<noteq> 0 then Some (take_object bdesc s)
                 else
                   do { (bdesc, s) \<leftarrow> new_bucket i s;
                        if bdesc = 0 then Some (0, s) else Some (take_object bdesc s) } } }"

section \<open>Release\<close>

text \<open>The inner loop of the search: the descriptor of \<open>page\<close> and the one before it, or 0.\<close>

partial_function (option) find_page :: "mem \<Rightarrow> u32 \<Rightarrow> u32 \<Rightarrow> u32 \<Rightarrow> (u32 \<times> u32) option" where
  "find_page m page bdesc prev =
     (if bdesc = 0 then Some (0, prev)
      else if d_page m bdesc = page then Some (bdesc, prev)
      else find_page m page (d_next m bdesc) bdesc)"

text \<open>The outer loop over the directory, from entry \<open>i\<close> on: the entry, the descriptor and \<open>prev\<close>.\<close>

fun find_owner :: "mem \<Rightarrow> u32 \<Rightarrow> u32 \<Rightarrow> nat \<Rightarrow> bucket list \<Rightarrow> (nat \<times> u32 \<times> u32) option option" where
  "find_owner m page sz i [] = None"
| "find_owner m page sz i (b # bs) =
     (if bucket_size b = 0 then Some None
      else if bucket_size b <s sz then find_owner m page sz (i + 1) bs
      else
        do { (bdesc, prev) \<leftarrow> find_page m page (bucket_chain b) 0;
             if bdesc \<noteq> 0 then Some (Some (i, bdesc, prev))
             else find_owner m page sz (i + 1) bs })"

partial_function (option) find_prev :: "mem \<Rightarrow> u32 \<Rightarrow> u32 \<Rightarrow> u32 option" where
  "find_prev m bdesc prev =
     (if prev = 0 then Some 0
      else if d_next m prev = bdesc then Some prev else find_prev m bdesc (d_next m prev))"

text \<open>The branch \<open>refcnt == 0\<close>; the flag says whether the code returns from inside it, without
  \<open>STI\<close>.\<close>

definition drop_bucket ::
  "nat \<Rightarrow> u32 \<Rightarrow> u32 \<Rightarrow> 'a malloc_state_scheme \<Rightarrow> (bool \<times> 'a malloc_state_scheme) option" where
  "drop_bucket i bdesc prev s =
     do { prev \<leftarrow>
            (if (prev \<noteq> 0 \<and> d_next (ram s) prev \<noteq> bdesc)
                \<or> (prev = 0 \<and> bucket_chain (bucket_dir s ! i) \<noteq> bdesc)
             then find_prev (ram s) bdesc (bucket_chain (bucket_dir s ! i)) else Some prev);
          if prev = 0 \<and> bucket_chain (bucket_dir s ! i) \<noteq> bdesc then Some (True, s)
          else
            do { let s = (if prev \<noteq> 0 then upd_ram (set_next prev (d_next (ram s) bdesc)) s
                          else set_chain i (d_next (ram s) bdesc) s);
                 s \<leftarrow> free_page (d_page (ram s) bdesc) s;
                 let s = upd_ram (set_next bdesc (free_bucket_desc s)) s;
                 Some (False, s\<lparr>free_bucket_desc := bdesc\<rparr>) } }"

definition kfree_s :: "u32 \<Rightarrow> u32 \<Rightarrow> 'a malloc_state_scheme \<Rightarrow> 'a malloc_state_scheme option" where
  "kfree_s obj sz s =
     do { let page = obj AND 0xfffff000;
          owner \<leftarrow> find_owner (ram s) page sz 0 (bucket_dir s);
          case owner of
            None \<Rightarrow> Some s
          | Some (i, bdesc, prev) \<Rightarrow>
              do { let s = CLI s;
                   let s = upd_ram (\<lambda>m. store32 m obj (d_freeptr m bdesc)) s;
                   let s = upd_ram (set_freeptr bdesc obj) s;
                   let s = upd_ram (\<lambda>m. set_refcnt bdesc (d_refcnt m bdesc - 1) m) s;
                   if d_refcnt (ram s) bdesc = 0 then
                     do { (returned, s) \<leftarrow> drop_bucket i bdesc prev s;
                          Some (if returned then s else STI s) }
                   else Some (STI s) } }"

end
