(* ===== verification/Descriptors.thy ===== *)
theory Descriptors
  imports Malloc
begin

text \<open>
  The descriptor tables of \<open>kernel/kernel/gdt.c\<close> and \<open>kernel/kernel/idt.c\<close>, with the structures of
  \<open>kernel/include/linux/head.h\<close>. A packed structure of bit fields is a record of words of the
  fields' widths together with the 64-bit word its layout makes; the tables themselves are in the
  flat memory at the addresses the linker chose, which are parameters. The registers that
  \<open>lgdt\<close> and \<open>lidt\<close> load are record fields.
\<close>

section \<open>Structures\<close>

record gdt_item =
  limit_low :: u16
  base_low :: "24 word"
  seg_type :: "4 word"
  segment :: "1 word"
  DPL :: "2 word"
  present :: "1 word"
  limit_high :: "4 word"
  available :: "1 word"
  long_mode :: "1 word"
  big :: "1 word"
  granularity :: "1 word"
  base_high :: u8

definition gdt_item_word :: "gdt_item \<Rightarrow> u64" where
  "gdt_item_word g = ucast (limit_low g) OR push_bit 16 (ucast (base_low g)) OR push_bit 40 (ucast (seg_type g))
     OR push_bit 44 (ucast (segment g)) OR push_bit 45 (ucast (DPL g)) OR push_bit 47 (ucast (present g))
     OR push_bit 48 (ucast (limit_high g)) OR push_bit 52 (ucast (available g)) OR push_bit 53 (ucast (long_mode g))
     OR push_bit 54 (ucast (big g)) OR push_bit 55 (ucast (granularity g)) OR push_bit 56 (ucast (base_high g))"

definition word_gdt_item :: "u64 \<Rightarrow> gdt_item" where
  "word_gdt_item w = \<lparr>limit_low = ucast w, base_low = ucast (drop_bit 16 w), seg_type = ucast (drop_bit 40 w),
     segment = ucast (drop_bit 44 w), DPL = ucast (drop_bit 45 w), present = ucast (drop_bit 47 w),
     limit_high = ucast (drop_bit 48 w), available = ucast (drop_bit 52 w), long_mode = ucast (drop_bit 53 w),
     big = ucast (drop_bit 54 w), granularity = ucast (drop_bit 55 w), base_high = ucast (drop_bit 56 w)\<rparr>"

record interrupt_gate =
  offset0 :: u16
  selector :: u16
  reserved :: u8
  gate_type :: "4 word"
  gate_segment :: "1 word"
  gate_DPL :: "2 word"
  gate_present :: "1 word"
  offset1 :: u16

definition gate_word :: "interrupt_gate \<Rightarrow> u64" where
  "gate_word g = ucast (offset0 g) OR push_bit 16 (ucast (selector g)) OR push_bit 32 (ucast (reserved g))
     OR push_bit 40 (ucast (gate_type g)) OR push_bit 44 (ucast (gate_segment g)) OR push_bit 45 (ucast (gate_DPL g))
     OR push_bit 47 (ucast (gate_present g)) OR push_bit 48 (ucast (offset1 g))"

definition word_gate :: "u64 \<Rightarrow> interrupt_gate" where
  "word_gate w = \<lparr>offset0 = ucast w, selector = ucast (drop_bit 16 w), reserved = ucast (drop_bit 32 w),
     gate_type = ucast (drop_bit 40 w), gate_segment = ucast (drop_bit 44 w), gate_DPL = ucast (drop_bit 45 w),
     gate_present = ucast (drop_bit 47 w), offset1 = ucast (drop_bit 48 w)\<rparr>"

record xdt_ptr =
  xdt_limit :: u16
  xdt_base :: u32

definition write_xdt_ptr :: "u32 \<Rightarrow> u32 \<Rightarrow> xdt_ptr \<Rightarrow> xdt_ptr" where
  "write_xdt_ptr lim base p = p\<lparr>xdt_limit := ucast lim, xdt_base := base\<rparr>"

text \<open>A 64-bit object in memory, the low word first.\<close>

definition load64 :: "mem \<Rightarrow> u32 \<Rightarrow> u64" where
  "load64 m a = ucast (load32 m a) OR push_bit 32 (ucast (load32 m (a + 4)))"

definition store64 :: "mem \<Rightarrow> u32 \<Rightarrow> u64 \<Rightarrow> mem" where
  "store64 m a w = store32 (store32 m a (ucast w)) (a + 4) (ucast (drop_bit 32 w))"

record table_state = malloc_state +
  gdtr :: xdt_ptr
  idtr :: xdt_ptr
  gdt_ptr :: xdt_ptr
  idt_ptr :: xdt_ptr
  r3_code_selector :: u32
  r3_data_selector :: u32

section \<open>The global descriptor table\<close>

definition GDT_SIZE :: nat where [simp]: "GDT_SIZE = 256"

text \<open>
  The bit field assignments of both functions; \<open>t\<close> is the type they differ in. \<open>None\<close>: the index is
  beyond the table.
\<close>

definition set_gdt_item ::
  "4 word \<Rightarrow> u32 \<Rightarrow> u32 \<Rightarrow> u32 \<Rightarrow> u32 \<Rightarrow> 'a table_state_scheme \<Rightarrow> 'a table_state_scheme option" where
  "set_gdt_item t gdt gdt_index base lim s =
     (if gdt_index <s 4 then
        print_message (cstr ''the gdt index %d has been used ...'' @ [10]) [Slot gdt_index] s
      else if GDT_SIZE \<le> unat gdt_index then None
      else
        (let a = gdt + 8 * gdt_index;
             item = word_gdt_item (load64 (ram s) a);
             item = item\<lparr>limit_low := ucast (lim AND 0xffff)\<rparr>;
             item = item\<lparr>base_low := ucast (base AND 0xffffff)\<rparr>;
             item = item\<lparr>seg_type := t\<rparr>;
             item = item\<lparr>segment := 1\<rparr>;
             item = item\<lparr>DPL := 3\<rparr>;
             item = item\<lparr>present := 1\<rparr>;
             item = item\<lparr>limit_high := ucast (signed_drop_bit 16 lim AND 0xf)\<rparr>;
             item = item\<lparr>available := 0\<rparr>;
             item = item\<lparr>long_mode := 0\<rparr>;
             item = item\<lparr>big := 1\<rparr>;
             item = item\<lparr>granularity := 1\<rparr>;
             item = item\<lparr>base_high := ucast (signed_drop_bit 24 base AND 0xff)\<rparr>
         in Some (s\<lparr>ram := store64 (ram s) a (gdt_item_word item)\<rparr>)))"

definition r3_gdt_code_item ::
  "u32 \<Rightarrow> u32 \<Rightarrow> u32 \<Rightarrow> u32 \<Rightarrow> 'a table_state_scheme \<Rightarrow> 'a table_state_scheme option" where
  "r3_gdt_code_item = set_gdt_item 8"

definition r3_gdt_data_item ::
  "u32 \<Rightarrow> u32 \<Rightarrow> u32 \<Rightarrow> u32 \<Rightarrow> 'a table_state_scheme \<Rightarrow> 'a table_state_scheme option" where
  "r3_gdt_data_item = set_gdt_item 2"

text \<open>The \<open>short\<close> limit is converted to \<open>size_t\<close> with its sign.\<close>

definition gdt_init :: "u32 \<Rightarrow> 'a table_state_scheme \<Rightarrow> 'a table_state_scheme option" where
  "gdt_init gdt s =
     do { let s = s\<lparr>gdt_ptr := gdtr s\<rparr>;
          let s = s\<lparr>ram := snd (memcpy (ram s) gdt (xdt_base (gdt_ptr s)) (scast (xdt_limit (gdt_ptr s))))\<rparr>;
          s \<leftarrow> r3_gdt_code_item gdt 4 0 0xfffff s;
          s \<leftarrow> r3_gdt_data_item gdt 5 0 0xfffff s;
          let s = s\<lparr>r3_code_selector := push_bit 3 4 OR 3\<rparr>;
          let s = s\<lparr>r3_data_selector := push_bit 3 5 OR 3\<rparr>;
          let s = s\<lparr>gdt_ptr := (gdt_ptr s)\<lparr>xdt_base := gdt\<rparr>\<rparr>;
          let s = s\<lparr>gdt_ptr := (gdt_ptr s)\<lparr>xdt_limit := of_nat (8 * GDT_SIZE) - 1\<rparr>\<rparr>;
          Some (s\<lparr>gdtr := gdt_ptr s\<rparr>) }"

section \<open>The interrupt descriptor table\<close>

definition INTERRUPT_TABLE_SIZE :: nat where [simp]: "INTERRUPT_TABLE_SIZE = 256"

text \<open>The addresses of the entry points of \<open>interrupt_handler.asm\<close> and \<open>clock_handler.asm\<close>.\<close>

record entry_points =
  interrupt_handler_entry :: u32
  interrupt_handler_table :: "nat \<Rightarrow> u32"
  clock_handler_entry :: u32
  keymap_handler_entry :: u32

definition gate_handler :: "entry_points \<Rightarrow> nat \<Rightarrow> u32" where
  "gate_handler hs i =
     (let handler = interrupt_handler_entry hs;
          handler = (if i \<le> 0x15 then interrupt_handler_table hs i else handler);
          handler = (if i = 0x20 then clock_handler_entry hs else handler)
      in if i = 0x21 then keymap_handler_entry hs else handler)"

definition set_gate :: "entry_points \<Rightarrow> nat \<Rightarrow> interrupt_gate \<Rightarrow> interrupt_gate" where
  "set_gate hs i p =
     (let handler = gate_handler hs i;
          p = p\<lparr>offset0 := ucast (handler AND 0xffff)\<rparr>;
          p = p\<lparr>offset1 := ucast (signed_drop_bit 16 handler AND 0xffff)\<rparr>;
          p = p\<lparr>selector := push_bit 3 1\<rparr>;
          p = p\<lparr>reserved := 0\<rparr>;
          p = p\<lparr>gate_type := 14\<rparr>;
          p = p\<lparr>gate_segment := 0\<rparr>;
          p = p\<lparr>gate_DPL := 0\<rparr>
      in p\<lparr>gate_present := 1\<rparr>)"

text \<open>The loop of \<open>idt_init\<close>, the \<open>n\<close> last entries of the table at \<open>tbl\<close> to go.\<close>

fun gate_loop :: "entry_points \<Rightarrow> u32 \<Rightarrow> nat \<Rightarrow> mem \<Rightarrow> mem" where
  "gate_loop hs tbl 0 m = m"
| "gate_loop hs tbl (Suc n) m =
     (let i = INTERRUPT_TABLE_SIZE - Suc n;
          a = tbl + of_nat (8 * i)
      in gate_loop hs tbl n (store64 m a (gate_word (set_gate hs i (word_gate (load64 m a))))))"

definition idt_init :: "entry_points \<Rightarrow> u32 \<Rightarrow> 'a table_state_scheme \<Rightarrow> 'a table_state_scheme" where
  "idt_init hs tbl s =
     (let s = s\<lparr>ram := gate_loop hs tbl INTERRUPT_TABLE_SIZE (ram s)\<rparr>;
          s = s\<lparr>idt_ptr := write_xdt_ptr (of_nat (INTERRUPT_TABLE_SIZE * 8)) tbl (idt_ptr s)\<rparr>
      in s\<lparr>idtr := idt_ptr s\<rparr>)"

section \<open>Layout\<close>

lemma bit_beyond: "LENGTH('a) \<le> n \<Longrightarrow> bit (w :: 'a::len word) n \<longleftrightarrow> False"
  using bit_imp_le_length [of w n] by auto

lemma word_gdt_item_word [simp]: "word_gdt_item (gdt_item_word g) = g"
  by (cases g) (auto simp: word_gdt_item_def gdt_item_word_def intro!: bit_word_eqI simp: bit_simps bit_beyond)

lemma word_gate_word [simp]: "word_gate (gate_word g) = g"
  by (cases g) (auto simp: word_gate_def gate_word_def intro!: bit_word_eqI simp: bit_simps bit_beyond)

lemma word_halves_disjoint: "disjoint_ranges a 4 (a + 4) 4"
  unfolding disjoint_ranges_def
proof (intro allI impI)
  fix x
  assume "in_range a 4 x"
  then obtain i where "i < 4" and "x = a + of_nat i"
    by (rule in_rangeE)
  then show "\<not> in_range (a + 4) 4 x"
    by (auto simp: in_range_def dest!: byte_cases4)
qed

lemma load64_store64 [simp]: "load64 (store64 m a w) a = w"
proof -
  have "load32 (store64 m a w) a = ucast w"
    unfolding store64_def
    by (subst load32_store32_disjoint [OF word_halves_disjoint]) simp
  moreover have "load32 (store64 m a w) (a + 4) = ucast (drop_bit 32 w)"
    by (simp add: store64_def)
  ultimately show ?thesis
    by (auto simp: load64_def intro!: bit_word_eqI simp: bit_simps)
qed

end
