(* ===== verification/Traps.thy ===== *)
theory Traps
  imports Descriptors
begin

text \<open>
  The end-of-interrupt signal of \<open>kernel/kernel/traps.c\<close>, the timer set-up of
  \<open>kernel/kernel/chr_drv/clock.c\<close> and the exception messages of \<open>kernel/kernel/exception.c\<close> with the
  stack layout the stubs of \<open>interrupt_handler.asm\<close> call them with.
\<close>

section \<open>Interrupt controller and timer\<close>

definition PIC_M_CTRL :: u32 where [simp]: "PIC_M_CTRL = 0x20"
definition PIC_S_CTRL :: u32 where [simp]: "PIC_S_CTRL = 0xa0"
definition PIC_EOI :: u32 where [simp]: "PIC_EOI = 0x20"

definition send_eoi :: "u32 \<Rightarrow> 'a machine_scheme \<Rightarrow> 'a machine_scheme" where
  "send_eoi idt_index s =
     (if 0x20 \<le>s idt_index \<and> idt_index <s 0x28 then out_byte PIC_M_CTRL PIC_EOI s
      else if 0x28 \<le>s idt_index \<and> idt_index <s 0x30 then
        (let s = out_byte PIC_M_CTRL PIC_EOI s in out_byte PIC_S_CTRL PIC_EOI s)
      else s)"

definition PIT_CHAN0_REG :: u32 where [simp]: "PIT_CHAN0_REG = 0x40"
definition PIT_CTRL_REG :: u32 where [simp]: "PIT_CTRL_REG = 0x43"
definition HZ :: u32 where [simp]: "HZ = 100"
definition OSCILLATOR :: u32 where [simp]: "OSCILLATOR = 1193182"
definition CLOCK_COUNTER :: u32 where [simp]: "CLOCK_COUNTER = OSCILLATOR div HZ"

definition clock_init :: "'a machine_scheme \<Rightarrow> 'a machine_scheme" where
  "clock_init s =
     (let s = out_byte PIT_CTRL_REG 0b00110100 s;
          s = out_byte PIT_CHAN0_REG (CLOCK_COUNTER AND 0xff) s
      in out_byte PIT_CHAN0_REG (signed_drop_bit 8 CLOCK_COUNTER AND 0xff) s)"

lemma send_eoi_simps [simp]:
  "ram (send_eoi i s) = ram s" "iflag (send_eoi i s) = iflag s" "machine.more (send_eoi i s) = machine.more s"
  by (simp_all add: send_eoi_def Let_def)

lemma send_eoi_log: "\<exists>log. send_eoi i s = s\<lparr>out_log := log\<rparr>"
  by (rule exI [of _ "out_log (send_eoi i s)"]) (simp add: send_eoi_def Let_def out_byte_def)

lemma clock_init_simps [simp]:
  "ram (clock_init s) = ram s" "iflag (clock_init s) = iflag s" "machine.more (clock_init s) = machine.more s"
  by (simp_all add: clock_init_def Let_def)

lemma clock_init_log:
  "out_log (clock_init s) = out_log s @ [(0x43, 0x34), (0x40, 0x9B), (0x40, 0x2E)]"
  by (simp add: clock_init_def Let_def)

section \<open>Exceptions\<close>

definition messages :: "string list" where
  "messages =
     [''#DE Divide Error'', ''#DB RESERVED'', ''--  NMI Interrupt'', ''#BP Breakpoint'', ''#OF Overflow'',
      ''#BR BOUND Range Exceeded'', ''#UD Invalid Opcode (Undefined Opcode)'',
      ''#NM Device Not Available (No Math Coprocessor)'', ''#DF Double Fault'',
      ''    Coprocessor Segment Overrun (reserved)'', ''#TS Invalid TSS'', ''#NP Segment Not Present'',
      ''#SS Stack-Segment Fault'', ''#GP General Protection'', ''#PF Page Fault'',
      ''--  (Intel reserved. Do not use.)'', ''#MF x87 FPU Floating-Point Error (Math Fault)'',
      ''#AC Alignment Check'', ''#MC Machine Check'', ''#XF SIMD Floating-Point Exception'',
      ''#VE Virtualization Exception'', ''#CP Control Protection Exception'']"

text \<open>\<open>messages[idt_index]\<close>; \<open>None\<close> outside the array.\<close>

definition message :: "u32 \<Rightarrow> u8 list option" where
  "message i = (if unat i < length messages then Some (cstr (messages ! unat i)) else None)"

definition div_zero_exception :: "u32 \<Rightarrow> 'a printk_state_scheme \<Rightarrow> 'a printk_state_scheme option" where
  "div_zero_exception idt_index s =
     do { t \<leftarrow> message idt_index; print_message (cstr ''%s'' @ [10]) [Lit t] s }"

definition normal_protect_exception :: "u32 \<Rightarrow> 'a printk_state_scheme \<Rightarrow> 'a printk_state_scheme option" where
  "normal_protect_exception idt_index s =
     do { t \<leftarrow> message idt_index; print_message (cstr ''%s'' @ [10]) [Lit t] s }"

text \<open>
  The general purpose registers as \<open>pushad\<close> leaves them, from the lowest address on.
\<close>

record pushed_regs =
  p_edi :: u32
  p_esi :: u32
  p_ebp :: u32
  p_esp :: u32
  p_ebx :: u32
  p_edx :: u32
  p_ecx :: u32
  p_eax :: u32

text \<open>The handler ends in an endless loop; the result is the state in which it spins.\<close>

definition exception_handler ::
  "u32 \<Rightarrow> pushed_regs \<Rightarrow> u32 \<Rightarrow> u8 \<Rightarrow> u32 \<Rightarrow> 'a printk_state_scheme \<Rightarrow> 'a printk_state_scheme option" where
  "exception_handler idt_index r eip cs eflags s =
     do { t \<leftarrow> message idt_index;
          s \<leftarrow> print_message (cstr ''EXCEPTION : %s '' @ [10]) [Lit t] s;
          s \<leftarrow> print_message (cstr ''   VECTOR : 0x%02X'' @ [10]) [Slot idt_index] s;
          s \<leftarrow> print_message (cstr ''   EFLAGS : 0x%08X'' @ [10]) [Slot eflags] s;
          s \<leftarrow> print_message (cstr ''       CS : 0x%02X'' @ [10]) [Slot (scast cs)] s;
          s \<leftarrow> print_message (cstr ''      EIP : 0x%08X'' @ [10]) [Slot eip] s;
          print_message (cstr ''      ESP : 0x%08X'' @ [10]) [Slot (p_esp r)] s }"

text \<open>
  A stub of the macro \<open>INTERRUPT_HANDLER\<close>: the registers and the vector are pushed on what the
  processor left on the stack, and the handler takes its parameters from there by position.
\<close>

definition interrupt_stub ::
  "u32 \<Rightarrow> pushed_regs \<Rightarrow> u32 list \<Rightarrow> 'a printk_state_scheme \<Rightarrow> 'a printk_state_scheme option" where
  "interrupt_stub v r stack s =
     (case stack of
        eip # cs # eflags # _ \<Rightarrow> exception_handler v r eip (ucast cs) eflags s
      | _ \<Rightarrow> None)"

text \<open>
  What the processor pushes: EFLAGS, CS and EIP, and for some vectors an error code after them.
\<close>

definition has_error_code :: "u32 \<Rightarrow> bool" where
  "has_error_code v \<longleftrightarrow> v \<in> {8, 10, 11, 12, 13, 14, 17, 21}"

definition exception_stack :: "u32 \<Rightarrow> u32 \<Rightarrow> u32 \<Rightarrow> u32 \<Rightarrow> u32 \<Rightarrow> u32 list \<Rightarrow> u32 list" where
  "exception_stack v err eip cs eflags stack =
     (if has_error_code v then [err] else []) @ [eip, cs, eflags] @ stack"

end
