(* ===== verification/Keyboard.thy ===== *)
theory Keyboard
  imports Traps
begin

text \<open>
  The keyboard driver of \<open>kernel/kernel/chr_drv/keyboard.c\<close>: the table of key codes, the key map with
  its two columns of characters and two columns of key states, and the interrupt handler. The byte
  that \<open>in_byte(0x60)\<close> reads from the keyboard controller is an argument.
\<close>

section \<open>Key codes\<close>

text \<open>The constants of \<open>key_index_t\<close> in order; the value of one is its position.\<close>

definition key_index_t :: "string list" where
  "key_index_t =
    [''KEY_NONE'', ''KEY_ESC'', ''KEY_1'', ''KEY_2'', ''KEY_3'', ''KEY_4'', ''KEY_5'', ''KEY_6'',
     ''KEY_7'', ''KEY_8'', ''KEY_9'', ''KEY_0'', ''KEY_MINUS'', ''KEY_EQUAL'', ''KEY_BACKSPACE'',
     ''KEY_TAB'', ''KEY_Q'', ''KEY_W'', ''KEY_E'', ''KEY_R'', ''KEY_T'', ''KEY_Y'', ''KEY_U'',
     ''KEY_I'', ''KEY_O'', ''KEY_P'', ''KEY_BRACKET_L'', ''KEY_BRACKET_R'', ''KEY_ENTER'',
     ''KEY_CTRL_L'', ''KEY_A'', ''KEY_S'', ''KEY_D'', ''KEY_F'', ''KEY_G'', ''KEY_H'', ''KEY_J'',
     ''KEY_K'', ''KEY_L'', ''KEY_SEMICOLON'', ''KEY_QUOTE'', ''KEY_BACKQUOTE'', ''KEY_SHIFT_L'',
     ''KEY_BACKSLASH'', ''KEY_Z'', ''KEY_X'', ''KEY_C'', ''KEY_V'', ''KEY_B'', ''KEY_N'', ''KEY_M'',
     ''KEY_COMMA'', ''KEY_POINT'', ''KEY_SLASH'', ''KEY_SHIFT_R'', ''KEY_STAR'', ''KEY_ALT_L'',
     ''KEY_SPACE'', ''KEY_CAPSLOCK'', ''KEY_F1'', ''KEY_F2'', ''KEY_F3'', ''KEY_F4'', ''KEY_F5'',
     ''KEY_F6'', ''KEY_F7'', ''KEY_F8'', ''KEY_F9'', ''KEY_F10'', ''KEY_NUMLOCK'', ''KEY_SCRLOCK'',
     ''KEY_PAD_7'', ''KEY_PAD_8'', ''KEY_PAD_9'', ''KEY_PAD_MINUS'', ''KEY_PAD_4'', ''KEY_PAD_5'',
     ''KEY_PAD_6'', ''KEY_PAD_PLUS'', ''KEY_PAD_1'', ''KEY_PAD_2'', ''KEY_PAD_3'', ''KEY_PAD_0'',
     ''KEY_PAD_POINT'', ''KEY_54'', ''KEY_55'', ''KEY_56'', ''KEY_F11'', ''KEY_F12'', ''KEY_59'',
     ''KEY_WIN_L'', ''KEY_WIN_R'', ''KEY_CLIPBOARD'', ''KEY_5D'', ''KEY_5E'', ''KEY_PRINT_SCREEN'']"

definition key_index :: "string \<Rightarrow> nat" where
  "key_index k = length (takeWhile (\<lambda>n. n \<noteq> k) key_index_t)"

definition INV :: u8 where [simp]: "INV = 0"
definition CODE_PRINT_SCREEN_DOWN :: u16 where [simp]: "CODE_PRINT_SCREEN_DOWN = 0xB7"

section \<open>The key map\<close>

text \<open>
  The characters of every key without and with shift; the two columns behind them, the states of
  the plain and of the extended key, are false at first.
\<close>

definition keymap_chars_low :: "(u8 \<times> u8) list" where
  "keymap_chars_low =
    [(INV, INV), (0x1b, 0x1b), (ch CHR ''1'', ch CHR ''!''), (ch CHR ''2'', ch CHR ''@''),
    (ch CHR ''3'', ch CHR ''#''), (ch CHR ''4'', ch CHR ''$''), (ch CHR ''5'', ch CHR ''%''),
    (ch CHR ''6'', ch CHR ''^''), (ch CHR ''7'', ch CHR ''&''), (ch CHR ''8'', ch CHR ''*''),
    (ch CHR ''9'', ch CHR ''(''), (ch CHR ''0'', ch CHR '')''), (ch CHR ''-'', ch CHR ''_''),
    (ch CHR ''='', ch CHR ''+''), (8, 8), (9, 9), (ch CHR ''q'', ch CHR ''Q''),
    (ch CHR ''w'', ch CHR ''W''), (ch CHR ''e'', ch CHR ''E''), (ch CHR ''r'', ch CHR ''R''),
    (ch CHR ''t'', ch CHR ''T''), (ch CHR ''y'', ch CHR ''Y''), (ch CHR ''u'', ch CHR ''U''),
    (ch CHR ''i'', ch CHR ''I''), (ch CHR ''o'', ch CHR ''O''), (ch CHR ''p'', ch CHR ''P''),
    (ch CHR ''['', ch CHR ''{''), (ch CHR '']'', ch CHR ''}''), (10, 10), (INV, INV),
    (ch CHR ''a'', ch CHR ''A''), (ch CHR ''s'', ch CHR ''S''), (ch CHR ''d'', ch CHR ''D''),
    (ch CHR ''f'', ch CHR ''F''), (ch CHR ''g'', ch CHR ''G''), (ch CHR ''h'', ch CHR ''H''),
    (ch CHR ''j'', ch CHR ''J''), (ch CHR ''k'', ch CHR ''K''), (ch CHR ''l'', ch CHR ''L''),
    (ch CHR '';'', ch CHR '':''), (39, 34), (96, ch CHR ''~''), (INV, INV), (92, ch CHR ''|''),
    (ch CHR ''z'', ch CHR ''Z''), (ch CHR ''x'', ch CHR ''X''), (ch CHR ''c'', ch CHR ''C''),
    (ch CHR ''v'', ch CHR ''V'')]"

definition keymap_chars_high :: "(u8 \<times> u8) list" where
  "keymap_chars_high =
    [(ch CHR ''b'', ch CHR ''B''), (ch CHR ''n'', ch CHR ''N''), (ch CHR ''m'', ch CHR ''M''),
    (ch CHR '','', ch CHR ''<''), (ch CHR ''.'', ch CHR ''>''), (ch CHR ''/'', ch CHR ''?''),
    (INV, INV), (ch CHR ''*'', ch CHR ''*''), (INV, INV), (ch CHR '' '', ch CHR '' ''), (INV, INV),
    (INV, INV), (INV, INV), (INV, INV), (INV, INV), (INV, INV), (INV, INV), (INV, INV), (INV, INV),
    (INV, INV), (INV, INV), (INV, INV), (INV, INV), (ch CHR ''7'', INV), (ch CHR ''8'', INV),
    (ch CHR ''9'', INV), (ch CHR ''-'', ch CHR ''-''), (ch CHR ''4'', INV), (ch CHR ''5'', INV),
    (ch CHR ''6'', INV), (ch CHR ''+'', ch CHR ''+''), (ch CHR ''1'', INV), (ch CHR ''2'', INV),
    (ch CHR ''3'', INV), (ch CHR ''0'', INV), (ch CHR ''.'', 0x7f), (INV, INV), (INV, INV),
    (INV, INV), (INV, INV), (INV, INV), (INV, INV), (INV, INV), (INV, INV), (INV, INV), (INV, INV),
    (INV, INV), (INV, INV)]"

definition initial_keymap :: "u8 list list" where
  "initial_keymap = map (\<lambda>(c, d). [c, d, 0, 0]) (keymap_chars_low @ keymap_chars_high)"

record keyboard_state = table_state +
  keymap :: "u8 list list"
  capslock_state :: bool
  scrlock_state :: bool
  numlock_state :: bool
  extcode_state :: bool

text \<open>\<open>keymap[i][j]\<close>, read and assigned; \<open>None\<close> outside the array.\<close>

definition keymap_at :: "u8 list list \<Rightarrow> nat \<Rightarrow> nat \<Rightarrow> u8 option" where
  "keymap_at km i j = (if i < length km \<and> j < length (km ! i) then Some (km ! i ! j) else None)"

definition keymap_set :: "u8 list list \<Rightarrow> nat \<Rightarrow> nat \<Rightarrow> u8 \<Rightarrow> u8 list list option" where
  "keymap_set km i j v =
     (if i < length km \<and> j < length (km ! i) then Some (km[i := (km ! i)[j := v]]) else None)"

definition shift_state :: "u8 list list \<Rightarrow> bool option" where
  "shift_state km =
     do { l \<leftarrow> keymap_at km (key_index ''KEY_SHIFT_L'') 2;
          if l \<noteq> 0 then Some True
          else do { r \<leftarrow> keymap_at km (key_index ''KEY_SHIFT_R'') 2; Some (r \<noteq> 0) } }"

section \<open>The interrupt handler\<close>

text \<open>The toggles of the three lock keys.\<close>

definition toggle_locks :: "nat \<Rightarrow> 'a keyboard_state_scheme \<Rightarrow> 'a keyboard_state_scheme" where
  "toggle_locks makecode s =
     (if makecode = key_index ''KEY_NUMLOCK'' then s\<lparr>numlock_state := \<not> numlock_state s\<rparr>
      else if makecode = key_index ''KEY_CAPSLOCK'' then s\<lparr>capslock_state := \<not> capslock_state s\<rparr>
      else if makecode = key_index ''KEY_SCRLOCK'' then s\<lparr>scrlock_state := \<not> scrlock_state s\<rparr>
      else s)"

text \<open>The handler from the first test on the make code on; \<open>scancode\<close> and \<open>ext\<close> are as computed.\<close>

definition key_event ::
  "u8 \<Rightarrow> nat \<Rightarrow> 'a keyboard_state_scheme \<Rightarrow> 'a keyboard_state_scheme option" where
  "key_event scancode ext s =
     do { let makecode = (ucast (scancode AND 0x7f) :: u16);
          let makecode = (if makecode = CODE_PRINT_SCREEN_DOWN
                          then of_nat (key_index ''KEY_PRINT_SCREEN'') else makecode);
          let makecode = unat makecode;
          if key_index ''KEY_PRINT_SCREEN'' < makecode then Some s
          else if (scancode AND 0x80) \<noteq> 0 then
            do { km \<leftarrow> keymap_set (keymap s) makecode ext 0; Some (s\<lparr>keymap := km\<rparr>) }
          else
            do { km \<leftarrow> keymap_set (keymap s) makecode ext 1;
                 let s = s\<lparr>keymap := km\<rparr>;
                 let s = toggle_locks makecode s;
                 let shift = False;
                 let shift = (if capslock_state s then \<not> shift else shift);
                 pressed \<leftarrow> shift_state (keymap s);
                 let shift = (if pressed then \<not> shift else shift);
                 c \<leftarrow> (if ext = 3 \<and> makecode \<noteq> key_index ''KEY_SLASH'' then keymap_at (keymap s) makecode 1
                      else keymap_at (keymap s) makecode (if shift then 1 else 0));
                 if c = INV then Some s else print_message (cstr ''%c'') [Slot (scast c)] s } }"

definition keymap_handler ::
  "u32 \<Rightarrow> u8 \<Rightarrow> 'a keyboard_state_scheme \<Rightarrow> 'a keyboard_state_scheme option" where
  "keymap_handler idt_index in_byte s =
     (let ext = 2;
          s = send_eoi idt_index s;
          scancode = in_byte
      in if scancode = 0xe0 then Some (s\<lparr>extcode_state := True\<rparr>)
         else if extcode_state s then
           (let ext = 3;
                scancode = ucast ((ucast scancode :: u32) OR 0xe000);
                s = s\<lparr>extcode_state := False\<rparr>
            in key_event scancode ext s)
         else key_event scancode ext s)"

lemma key_index_values [simp]:
  "key_index ''KEY_PRINT_SCREEN'' = 95" "key_index ''KEY_SHIFT_L'' = 42" "key_index ''KEY_SHIFT_R'' = 54"
  "key_index ''KEY_SLASH'' = 53" "key_index ''KEY_NUMLOCK'' = 69" "key_index ''KEY_CAPSLOCK'' = 58"
  "key_index ''KEY_SCRLOCK'' = 70" "length key_index_t = 96"
  by (simp_all add: key_index_def key_index_t_def)

lemma length_keymap_chars [simp]: "length keymap_chars_low = 48" "length keymap_chars_high = 48"
  by (simp_all add: keymap_chars_low_def keymap_chars_high_def)

end
