(* ===== verification/Task.thy ===== *)
theory Task
  imports Keyboard
begin

text \<open>
  The tasks of \<open>kernel/kernel/task.c\<close> and \<open>kernel/include/linux/task.h\<close>. A task is one page from
  \<open>kmalloc\<close>: its control block \<open>task_t\<close> at the lower end, its stack growing down from the upper one.
  The control blocks are in the flat memory, at the offsets the structure has; the array \<open>tasks\<close> and
  \<open>current\<close> are record fields. Strings and functions are named by their addresses.
\<close>

section \<open>The control block\<close>

definition NR_TASKS :: nat where [simp]: "NR_TASKS = 64"

definition TASK_RUNNING :: u32 where [simp]: "TASK_RUNNING = 1"
definition TASK_READY :: u32 where [simp]: "TASK_READY = 2"

text \<open>Offsets of the fields of \<open>tss_t\<close> that the kernel uses.\<close>

definition tss_esp0 :: u32 where [simp]: "tss_esp0 = 4"
definition tss_cr3 :: u32 where [simp]: "tss_cr3 = 28"
definition tss_eip :: u32 where [simp]: "tss_eip = 32"
definition tss_eax :: u32 where [simp]: "tss_eax = 40"
definition tss_ecx :: u32 where [simp]: "tss_ecx = 44"
definition tss_edx :: u32 where [simp]: "tss_edx = 48"
definition tss_ebx :: u32 where [simp]: "tss_ebx = 52"
definition tss_ebp :: u32 where [simp]: "tss_ebp = 60"
definition tss_esi :: u32 where [simp]: "tss_esi = 64"
definition tss_edi :: u32 where [simp]: "tss_edi = 68"

text \<open>Offsets of the fields of \<open>task_t\<close>, the \<open>tss_t\<close> of 108 bytes before them.\<close>

definition off_pid :: u32 where [simp]: "off_pid = 108"
definition off_ppid :: u32 where [simp]: "off_ppid = 112"
definition off_name :: u32 where [simp]: "off_name = 116"
definition off_state :: u32 where [simp]: "off_state = 148"
definition off_exit_code :: u32 where [simp]: "off_exit_code = 152"
definition off_scheduling_times :: u32 where [simp]: "off_scheduling_times = 164"
definition off_esp0 :: u32 where [simp]: "off_esp0 = 168"
definition off_ebp0 :: u32 where [simp]: "off_ebp0 = 172"
definition sizeof_task_t :: u32 where [simp]: "sizeof_task_t = 188"

definition field :: "mem \<Rightarrow> u32 \<Rightarrow> u32 \<Rightarrow> u32" where
  "field m task off = load32 m (task + off)"

definition set_field :: "u32 \<Rightarrow> u32 \<Rightarrow> u32 \<Rightarrow> mem \<Rightarrow> mem" where
  "set_field task off v m = store32 m (task + off) v"

record task_state = keyboard_state +
  tasks :: "u32 list"
  current :: u32

section \<open>Creation\<close>

text \<open>The first empty entry of the table, from entry \<open>i\<close> on.\<close>

fun empty_slot :: "u32 list \<Rightarrow> nat \<Rightarrow> nat option" where
  "empty_slot [] i = None"
| "empty_slot (t # ts) i = (if t = 0 then Some i else empty_slot ts (i + 1))"

definition find_empty_process :: "'a task_state_scheme \<Rightarrow> (u32 \<times> 'a task_state_scheme) option" where
  "find_empty_process s =
     (case empty_slot (tasks s) 0 of
        Some i \<Rightarrow> Some (of_nat i, s)
      | None \<Rightarrow> do { s \<leftarrow> print_message (cstr ''no valid pid'' @ [10]) [] s; Some (- 1, s) })"

text \<open>\<open>None\<close>: \<open>kmalloc\<close> gave NULL, which \<open>memset\<close> writes through, or the pid is outside the table.\<close>

definition create_task ::
  "u32 \<Rightarrow> u32 \<Rightarrow> u32 \<Rightarrow> 'a task_state_scheme \<Rightarrow> (u32 \<times> 'a task_state_scheme) option" where
  "create_task name func priority s =
     do { (task, s) \<leftarrow> kmalloc 4096 s;
          if task = 0 then None
          else
            do { let s = upd_ram (\<lambda>m. snd (memset m task 0 PAGE_SIZE)) s;
                 (pid, s) \<leftarrow> find_empty_process s;
                 let s = upd_ram (set_field task off_pid pid) s;
                 let s = upd_ram (set_field task off_ppid
                           (if current s = 0 then 0 else field (ram s) (current s) off_pid)) s;
                 let s = upd_ram (set_field task off_scheduling_times 0) s;
                 (_, m) \<leftarrow> strcpy (ram s) (task + off_name) name;
                 let s = s\<lparr>ram := m\<rparr>;
                 let pid = field (ram s) task off_pid;
                 if unat pid < length (tasks s) then
                   do { let s = s\<lparr>tasks := (tasks s)[unat pid := task]\<rparr>;
                        let s = upd_ram (set_field task tss_cr3 (task + sizeof_task_t)) s;
                        let s = upd_ram (set_field task tss_eip func) s;
                        let s = upd_ram (set_field task off_esp0 (task + PAGE_SIZE)) s;
                        let s = upd_ram (\<lambda>m. set_field task off_ebp0 (field m task off_esp0) m) s;
                        let s = upd_ram (\<lambda>m. set_field task tss_esp0 (field m task off_esp0) m) s;
                        let s = upd_ram (set_field task off_state TASK_READY) s;
                        Some (task, s) }
                 else None } }"

text \<open>\<open>task_init\<close> creates the idle task; \<open>idle_start\<close> is the first statement of that task.\<close>

definition task_init :: "u32 \<Rightarrow> u32 \<Rightarrow> 'a task_state_scheme \<Rightarrow> 'a task_state_scheme option" where
  "task_init idle_name idle s = map_option snd (create_task idle_name idle 1 s)"

definition idle_start :: "u32 \<Rightarrow> u32 \<Rightarrow> 'a task_state_scheme \<Rightarrow> 'a task_state_scheme option" where
  "idle_start t1_name t1_fun s = map_option snd (create_task t1_name t1_fun 1 s)"

text \<open>One round of the endless loops of the two tasks.\<close>

definition idle_round :: "'a task_state_scheme \<Rightarrow> 'a task_state_scheme option" where
  "idle_round s = map_option STI (print_message (cstr ''idle task running...'' @ [10]) [] s)"

definition t1_round :: "'a task_state_scheme \<Rightarrow> 'a task_state_scheme option" where
  "t1_round s = print_message (cstr ''t1 task running...'' @ [10]) [] s"

section \<open>Exit\<close>

text \<open>The entry for which the loops of both exit functions do their work, from entry \<open>i\<close> on.\<close>

fun find_task :: "u32 list \<Rightarrow> u32 \<Rightarrow> nat \<Rightarrow> nat option" where
  "find_task [] task i = None"
| "find_task (t # ts) task i = (if task = t then Some i else find_task ts task (i + 1))"

text \<open>\<open>None\<close>: the entry that matches is empty and its name is read through the null pointer.\<close>

definition clear_task :: "u32 \<Rightarrow> nat \<Rightarrow> 'a task_state_scheme \<Rightarrow> 'a task_state_scheme option" where
  "clear_task code i s =
     do { let tmp = tasks s ! i;
          if tmp = 0 then None
          else
            do { s \<leftarrow> print_message (cstr ''task exit: %s'' @ [10]) [Slot (tmp + off_name)] s;
                 let s = upd_ram (set_field tmp off_exit_code code) s;
                 let s = s\<lparr>tasks := (tasks s)[i := 0]\<rparr>;
                 Some (s\<lparr>current := 0\<rparr>) } }"

definition task_exit :: "u32 \<Rightarrow> u32 \<Rightarrow> 'a task_state_scheme \<Rightarrow> 'a task_state_scheme option" where
  "task_exit code task s =
     (case find_task (drop 1 (tasks s)) task 1 of
        None \<Rightarrow> Some s
      | Some i \<Rightarrow> do { s \<leftarrow> clear_task code i s; kfree_s task 4096 s })"

definition current_task_exit :: "u32 \<Rightarrow> 'a task_state_scheme \<Rightarrow> 'a task_state_scheme option" where
  "current_task_exit code s =
     (case find_task (drop 1 (tasks s)) (current s) 1 of
        None \<Rightarrow> Some s
      | Some i \<Rightarrow> clear_task code i s)"

section \<open>Accessors\<close>

definition inc_scheduling_times :: "u32 \<Rightarrow> 'a task_state_scheme \<Rightarrow> u32 \<times> 'a task_state_scheme" where
  "inc_scheduling_times task s =
     (let n = field (ram s) task off_scheduling_times
      in (n, upd_ram (set_field task off_scheduling_times (n + 1)) s))"

definition get_task_pid :: "u32 \<Rightarrow> 'a task_state_scheme \<Rightarrow> u32" where
  "get_task_pid task s = field (ram s) task off_pid"

definition get_task_ppid :: "u32 \<Rightarrow> 'a task_state_scheme \<Rightarrow> u32" where
  "get_task_ppid task s = field (ram s) task off_ppid"

end
