(* ===== verification/Sched.thy ===== *)
theory Sched
  imports Task
begin

text \<open>
  The scheduler of \<open>kernel/kernel/sched.c\<close>, the context switch of \<open>sched.asm\<close>, the entry of the clock
  interrupt in \<open>clock_handler.asm\<close> and its handler in \<open>kernel/kernel/chr_drv/clock.c\<close>. The general
  registers and the instruction pointer are record fields; an assembly routine is the composition
  of its instructions. A \<open>call\<close> of a C function is that function on its arguments; the return
  address and frame it leaves below the stack pointer are not kept. The routines end in a jump to the
  new task, so \<open>sched\<close> and all its callers end in the state the next task starts from.
\<close>

record registers =
  eax :: u32
  ecx :: u32
  edx :: u32
  ebx :: u32
  esp :: u32
  ebp :: u32
  esi :: u32
  edi :: u32
  eip :: u32

record cpu_state = task_state +
  cpu_ticks :: u32
  regs :: registers

definition push :: "u32 \<Rightarrow> 'a cpu_state_scheme \<Rightarrow> 'a cpu_state_scheme" where
  "push v s = s\<lparr>ram := store32 (ram s) (esp (regs s) - 4) v, regs := (regs s)\<lparr>esp := esp (regs s) - 4\<rparr>\<rparr>"

definition upd_regs :: "(registers \<Rightarrow> registers) \<Rightarrow> 'a cpu_state_scheme \<Rightarrow> 'a cpu_state_scheme" where
  "upd_regs f s = s\<lparr>regs := f (regs s)\<rparr>"

section \<open>The context switch\<close>

text \<open>From \<open>.recover_env\<close> on, and the same instructions in \<open>switch_idle_task\<close>; the task is in EAX.\<close>

definition recover_env :: "'a cpu_state_scheme \<Rightarrow> 'a cpu_state_scheme" where
  "recover_env s =
     (let s = upd_regs (\<lambda>r. r\<lparr>ecx := field (ram s) (eax r) tss_ecx\<rparr>) s;
          s = upd_regs (\<lambda>r. r\<lparr>edx := field (ram s) (eax r) tss_edx\<rparr>) s;
          s = upd_regs (\<lambda>r. r\<lparr>ebx := field (ram s) (eax r) tss_ebx\<rparr>) s;
          s = upd_regs (\<lambda>r. r\<lparr>esi := field (ram s) (eax r) tss_esi\<rparr>) s;
          s = upd_regs (\<lambda>r. r\<lparr>edi := field (ram s) (eax r) tss_edi\<rparr>) s;
          s = upd_regs (\<lambda>r. r\<lparr>eax := field (ram s) (eax r) tss_eip\<rparr>) s;
          s = STI s
      in upd_regs (\<lambda>r. r\<lparr>eip := eax r\<rparr>) s)"

text \<open>Both routines take the stack of the task in EAX first.\<close>

definition load_stack :: "'a cpu_state_scheme \<Rightarrow> 'a cpu_state_scheme" where
  "load_stack s =
     (let s = upd_regs (\<lambda>r. r\<lparr>esp := field (ram s) (eax r) tss_esp0\<rparr>) s
      in upd_regs (\<lambda>r. r\<lparr>ebp := field (ram s) (eax r) tss_ebp\<rparr>) s)"

text \<open>\<open>None\<close>: \<open>current\<close> is null and its context is read through it.\<close>

definition switch_idle_task :: "'a cpu_state_scheme \<Rightarrow> 'a cpu_state_scheme option" where
  "switch_idle_task s =
     (let s = upd_regs (\<lambda>r. r\<lparr>eax := current s\<rparr>) s
      in if eax (regs s) = 0 then None
         else
           (let s = load_stack s
            in Some (recover_env s)))"

text \<open>
  \<open>xh\<close> is the address of \<open>task_exit_handler\<close>. \<open>load_ppid\<close> is the call of \<open>get_task_ppid\<close>;
  \<open>first_schedule\<close> is what a task with parent 0 goes through before \<open>.recover_env\<close>.
\<close>

definition load_ppid :: "'a cpu_state_scheme \<Rightarrow> 'a cpu_state_scheme" where
  "load_ppid s =
     (let s = push (eax (regs s)) s;
          s = upd_regs (\<lambda>r. r\<lparr>eax := get_task_ppid (eax r) s\<rparr>) s
      in upd_regs (\<lambda>r. r\<lparr>esp := esp r + 4\<rparr>) s)"

definition first_schedule :: "u32 \<Rightarrow> 'a cpu_state_scheme \<Rightarrow> 'a cpu_state_scheme" where
  "first_schedule xh s =
     (let s = upd_regs (\<lambda>r. r\<lparr>eax := current s\<rparr>) s;
          s = push (eax (regs s)) s;
          (n, s) = inc_scheduling_times (eax (regs s)) s;
          s = upd_regs (\<lambda>r. r\<lparr>eax := n\<rparr>) s;
          s = upd_regs (\<lambda>r. r\<lparr>esp := esp r + 4\<rparr>) s
      in if eax (regs s) \<noteq> 0 then s
         else
           (let s = upd_regs (\<lambda>r. r\<lparr>eax := xh\<rparr>) s
            in push (eax (regs s)) s))"

definition switch_task :: "u32 \<Rightarrow> 'a cpu_state_scheme \<Rightarrow> 'a cpu_state_scheme option" where
  "switch_task xh s =
     (let s = upd_regs (\<lambda>r. r\<lparr>eax := current s\<rparr>) s
      in if eax (regs s) = 0 then None
         else
           (let s = load_stack s;
                s = load_ppid s;
                s = (if eax (regs s) \<noteq> 0 then s else first_schedule xh s);
                s = upd_regs (\<lambda>r. r\<lparr>eax := current s\<rparr>) s
            in Some (recover_env s)))"

section \<open>The scheduler\<close>

fun first_ready :: "mem \<Rightarrow> u32 list \<Rightarrow> u32" where
  "first_ready m [] = 0"
| "first_ready m (task # ts) =
     (if task = 0 then first_ready m ts
      else if field m task off_state \<noteq> TASK_READY then first_ready m ts
      else task)"

definition find_ready_task :: "'a task_state_scheme \<Rightarrow> u32" where
  "find_ready_task s = first_ready (ram s) (drop 1 (tasks s))"

definition sched :: "u32 \<Rightarrow> 'a cpu_state_scheme \<Rightarrow> 'a cpu_state_scheme option" where
  "sched xh s =
     (let next_task = find_ready_task s
      in if next_task = 0 then
           (let s = s\<lparr>current := tasks s ! 0\<rparr> in switch_idle_task s)
         else
           (let s = upd_ram (set_field next_task off_state TASK_RUNNING) s;
                s = s\<lparr>current := next_task\<rparr>
            in switch_task xh s))"

definition do_timer :: "u32 \<Rightarrow> 'a cpu_state_scheme \<Rightarrow> 'a cpu_state_scheme option" where
  "do_timer xh s = sched xh s"

text \<open>What a task returns to: it leaves the table and another one runs.\<close>

definition task_exit_handler :: "u32 \<Rightarrow> 'a cpu_state_scheme \<Rightarrow> 'a cpu_state_scheme option" where
  "task_exit_handler xh s =
     do { let s = upd_regs (\<lambda>r. r\<lparr>eax := current s\<rparr>) s;
          let s = push (eax (regs s)) s;
          let s = push 0 s;
          s \<leftarrow> task_exit 0 (eax (regs s)) s;
          let s = upd_regs (\<lambda>r. r\<lparr>esp := esp r + 8\<rparr>) s;
          sched xh s }"

section \<open>The clock interrupt\<close>

definition clock_handler :: "u32 \<Rightarrow> u32 \<Rightarrow> 'a cpu_state_scheme \<Rightarrow> 'a cpu_state_scheme option" where
  "clock_handler xh idt_index s =
     do { let s = send_eoi idt_index s;
          s \<leftarrow> print_message (cstr ''set eoi 0x%x %d'' @ [10]) [Slot idt_index, Slot (cpu_ticks s)] s;
          let s = s\<lparr>cpu_ticks := cpu_ticks s + 1\<rparr>;
          do_timer xh s }"

text \<open>The instructions that save the interrupted task, which is in ECX.\<close>

definition save_env :: "'a cpu_state_scheme \<Rightarrow> 'a cpu_state_scheme" where
  "save_env s =
     (let s = upd_ram (set_field (ecx (regs s)) tss_eax (eax (regs s))) s;
          s = upd_ram (set_field (ecx (regs s)) tss_edx (edx (regs s))) s;
          s = upd_ram (set_field (ecx (regs s)) tss_ebx (ebx (regs s))) s;
          s = upd_ram (set_field (ecx (regs s)) tss_ebp (ebp (regs s))) s;
          s = upd_ram (set_field (ecx (regs s)) tss_esi (esi (regs s))) s;
          s = upd_ram (set_field (ecx (regs s)) tss_edi (edi (regs s))) s;
          s = upd_regs (\<lambda>r. r\<lparr>eax := load32 (ram s) (esp r + 4)\<rparr>) s;
          s = upd_ram (set_field (ecx (regs s)) tss_eip (eax (regs s))) s;
          s = upd_regs (\<lambda>r. r\<lparr>eax := esp r\<rparr>) s;
          s = upd_regs (\<lambda>r. r\<lparr>eax := eax r + 0x10\<rparr>) s;
          s = upd_ram (set_field (ecx (regs s)) tss_esp0 (eax (regs s))) s;
          s = upd_regs (\<lambda>r. r\<lparr>eax := ecx r\<rparr>) s;
          s = upd_regs (\<lambda>r. r\<lparr>ecx := load32 (ram s) (esp r), esp := esp r + 4\<rparr>) s
      in upd_ram (set_field (eax (regs s)) tss_ecx (ecx (regs s))) s)"

definition clock_entry :: "u32 \<Rightarrow> 'a cpu_state_scheme \<Rightarrow> 'a cpu_state_scheme option" where
  "clock_entry xh s =
     (let s = push (ecx (regs s)) s;
          s = upd_regs (\<lambda>r. r\<lparr>ecx := current s\<rparr>) s;
          s = (if ecx (regs s) = 0 then s else save_env s);
          s = push 0x20 s
      in clock_handler xh 0x20 s)"

text \<open>
  The processor takes the interrupt: EFLAGS, CS and EIP go to the stack and, the gate being an
  interrupt gate, the interrupt flag is cleared.
\<close>

definition clock_interrupt :: "u32 \<Rightarrow> u32 \<Rightarrow> u32 \<Rightarrow> 'a cpu_state_scheme \<Rightarrow> 'a cpu_state_scheme option" where
  "clock_interrupt xh eflags cs s =
     (let s = push eflags s; s = push cs s; s = push (eip (regs s)) s; s = CLI s
      in clock_entry xh s)"

section \<open>Interrupts of devices\<close>

text \<open>
  The entries of \<open>interrupt_handler.asm\<close> for the keyboard and for all other devices: one argument is
  pushed, a C function is called, the argument is dropped. No register is saved; \<open>va\<close>, \<open>vc\<close> and \<open>vd\<close> are
  what the C function leaves in the registers the calling convention lets it use.
\<close>

record scratch_values =
  v_eax :: u32
  v_ecx :: u32
  v_edx :: u32

definition handler_call ::
  "('a cpu_state_scheme \<Rightarrow> 'a cpu_state_scheme option) \<Rightarrow> u32 \<Rightarrow> scratch_values \<Rightarrow> 'a cpu_state_scheme \<Rightarrow> 'a cpu_state_scheme option" where
  "handler_call handler arg v s =
     do { let s = push arg s;
          s \<leftarrow> handler s;
          let s = upd_regs (\<lambda>r. r\<lparr>eax := v_eax v, ecx := v_ecx v, edx := v_edx v\<rparr>) s;
          Some (upd_regs (\<lambda>r. r\<lparr>esp := esp r + 4\<rparr>) s) }"

definition keymap_entry :: "u8 \<Rightarrow> scratch_values \<Rightarrow> 'a cpu_state_scheme \<Rightarrow> 'a cpu_state_scheme option" where
  "keymap_entry in_byte = handler_call (keymap_handler 0x21 in_byte) 0x21"

text \<open>\<open>msg\<close> is the address of the text.\<close>

definition interrupt_entry :: "u32 \<Rightarrow> scratch_values \<Rightarrow> 'a cpu_state_scheme \<Rightarrow> 'a cpu_state_scheme option" where
  "interrupt_entry msg = handler_call (print_message (cstr ''interrupt handler ...'' @ [10]) []) msg"

text \<open>The instruction \<open>iret\<close>: EIP, CS and EFLAGS come from the stack; the interrupt flag is bit 9.\<close>

definition iret :: "'a cpu_state_scheme \<Rightarrow> 'a cpu_state_scheme" where
  "iret s =
     (let sp = esp (regs s);
          s = s\<lparr>iflag := bit (load32 (ram s) (sp + 8)) 9\<rparr>
      in upd_regs (\<lambda>r. r\<lparr>eip := load32 (ram s) sp, esp := sp + 12\<rparr>) s)"

definition device_interrupt ::
  "('a cpu_state_scheme \<Rightarrow> 'a cpu_state_scheme option) \<Rightarrow> u32 \<Rightarrow> u32 \<Rightarrow> 'a cpu_state_scheme \<Rightarrow> 'a cpu_state_scheme option" where
  "device_interrupt entry eflags cs s =
     (let s = push eflags s; s = push cs s; s = push (eip (regs s)) s; s = CLI s
      in map_option iret (entry s))"

end
