(* ===== verification/Heap_Base.thy ===== *)
theory Heap_Base
  imports Flat_Memory
begin

text \<open>
  Geometry of the kernel heap: the 16-byte block and the 4 KiB page of an address, the object slots
  of a bucket page, and null-terminated linked lists in memory. The lists are given by their
  successor function; a locale collects what the heap code relies on for the two kinds it uses
  (descriptor chains and lists of free objects) and is interpreted on both.
\<close>

section \<open>Blocks and pages\<close>

definition block_of :: "u32 \<Rightarrow> u32" where "block_of x = push_bit 4 (drop_bit 4 x)"
definition page_of :: "u32 \<Rightarrow> u32" where "page_of x = push_bit 12 (drop_bit 12 x)"

lemma unat_round_down: "unat (push_bit k (drop_bit k (x :: u32))) = 2 ^ k * (unat x div 2 ^ k)"
proof -
  have "2 ^ k * (unat x div 2 ^ k) \<le> unat x"
    by simp
  also have "\<dots> < 2 ^ 32"
    using unat_less_u32 [of x] by simp
  finally have small: "2 ^ k * (unat x div 2 ^ k) < 2 ^ 32" .
  have "unat (drop_bit k x) = unat x div 2 ^ k"
    using unat_less_u32 [of x] by (simp add: unsigned_drop_bit_eq take_bit_nat_eq_self)
      (simp add: drop_bit_eq_div)
  then have "unat (push_bit k (drop_bit k x)) = take_bit 32 (2 ^ k * (unat x div 2 ^ k))"
    unfolding unsigned_push_bit_eq by (simp add: push_bit_eq_mult mult.commute)
  with small show ?thesis
    by (simp add: take_bit_nat_eq_self)
qed

lemma aligned_top:
  fixes x :: u32
  assumes "unat x = k * q" and "k * n = 2 ^ 32"
  shows "unat x + k \<le> 2 ^ 32"
proof -
  have "k * q < k * n"
    using assms unat_less_u32 [of x] by simp
  then have "k * Suc q \<le> k * n"
    by (intro mult_le_mono2) simp
  then show ?thesis
    using assms by simp
qed

lemma unat_block_of: "unat (block_of x) = 16 * (unat x div 16)"
  using unat_round_down [of 4 x] by (simp add: block_of_def)

lemma unat_page_of: "unat (page_of x) = 4096 * (unat x div 4096)"
  using unat_round_down [of 12 x] by (simp add: page_of_def)

lemma page_of_mask: "x AND 0xfffff000 = page_of x"
proof (rule bit_word_eqI)
  fix n
  assume "n < LENGTH(32)"
  have mask: "(0xfffff000 :: u32) = NOT (mask 12)"
    by (simp add: mask_eq_exp_minus_1 not_eq_complement)
  show "bit (x AND 0xfffff000) n = bit (page_of x) n"
    unfolding mask using \<open>n < LENGTH(32)\<close> by (auto simp: page_of_def bit_simps)
qed

lemma block_of_block_of [simp]: "block_of (block_of x) = block_of x"
  by (simp add: word_unat_eq_iff unat_block_of)

lemma page_of_page_of [simp]: "page_of (page_of x) = page_of x"
  by (simp add: word_unat_eq_iff unat_page_of)

lemma page_of_block_of [simp]: "page_of (block_of x) = page_of x"
proof -
  have "16 * (n div 16) div 4096 = n div (4096 :: nat)" for n
  proof -
    have "16 * (n div 16) div (16 * 256) = n div (16 * 256)"
      unfolding div_mult2_eq by (metis nonzero_mult_div_cancel_left zero_neq_numeral)
    then show ?thesis by simp
  qed
  then show ?thesis
    by (simp add: word_unat_eq_iff unat_page_of unat_block_of)
qed

text \<open>An aligned block is the set of addresses that round down to it.\<close>

lemma in_block:
  assumes "block_of d = d" and "n \<le> 16" and "in_range d n y"
  shows "block_of y = d"
proof -
  have d: "unat d mod 16 = 0"
    using unat_block_of [of d] assms(1) by (metis mod_mult_self1_is_0)
  have "unat d + 16 \<le> 2 ^ 32"
    using unat_block_of [of d] unfolding assms(1) by (rule aligned_top [where n = 268435456]) simp
  then have y: "unat d \<le> unat y" "unat y < unat d + 16"
    using assms(2,3) in_range_nat [of d n y] by auto
  obtain k where k: "unat d = 16 * k"
    using d by (metis mod_0_imp_dvd dvdE)
  then have "unat y div 16 = k"
    using y by (intro div_nat_eqI) simp_all
  then have "16 * (unat y div 16) = unat d"
    using k by simp
  then show ?thesis
    by (simp add: word_unat_eq_iff unat_block_of)
qed

lemma in_page:
  assumes "page_of p = p" and "in_range p 4096 y"
  shows "page_of y = p"
proof -
  have d: "unat p mod 4096 = 0"
    using unat_page_of [of p] assms(1) by (metis mod_mult_self1_is_0)
  have "unat p + 4096 \<le> 2 ^ 32"
    using unat_page_of [of p] unfolding assms(1) by (rule aligned_top [where n = 1048576]) simp
  moreover from this have "unat p \<le> unat y" "unat y < unat p + 4096"
    using assms(2) in_range_nat [of p 4096 y] by auto
  ultimately have "unat y div 4096 = unat p div 4096"
    using d by (intro div_nat_eqI) (simp_all add: mult.commute minus_mod_eq_mult_div [symmetric])
  then have "4096 * (unat y div 4096) = unat p"
    using unat_page_of [of p] assms(1) by simp
  then show ?thesis
    by (simp add: word_unat_eq_iff unat_page_of)
qed

lemma page_offset:
  assumes "page_of p = p" and "k < 4096"
  shows "unat (p + of_nat k) = unat p + k" and "page_of (p + of_nat k) = p"
proof -
  have d: "unat p mod 4096 = 0"
    using unat_page_of [of p] assms(1) by (metis mod_mult_self1_is_0)
  have "unat p + 4096 \<le> 2 ^ 32"
    using unat_page_of [of p] unfolding assms(1) by (rule aligned_top [where n = 1048576]) simp
  then show "unat (p + of_nat k) = unat p + k"
    using assms(2) by (intro unat_add_small) simp
  show "page_of (p + of_nat k) = p"
    by (rule in_page [OF assms(1)]) (use assms(2) in simp)
qed

section \<open>Object slots\<close>

text \<open>The objects of \<open>sz\<close> bytes a page is cut into.\<close>

definition slots :: "u32 \<Rightarrow> nat \<Rightarrow> u32 list" where
  "slots p sz = map (\<lambda>k. p + of_nat (sz * k)) [0..<4096 div sz]"

definition bucket_bytes :: "nat \<Rightarrow> nat" where
  "bucket_bytes i = 2 ^ (i + 4)"

lemma bucket_bytes_props:
  assumes "i < 9"
  shows "16 dvd bucket_bytes i" "bucket_bytes i dvd 4096" "0 < bucket_bytes i"
    "bucket_bytes i \<le> 4096" "0 < 4096 div bucket_bytes i" "4096 div bucket_bytes i \<le> 256"
    "bucket_bytes i * (4096 div bucket_bytes i) = 4096"
proof -
  have "i = 0 \<or> i = 1 \<or> i = 2 \<or> i = 3 \<or> i = 4 \<or> i = 5 \<or> i = 6 \<or> i = 7 \<or> i = 8"
    using assms by arith
  then show "16 dvd bucket_bytes i" "bucket_bytes i dvd 4096" "0 < bucket_bytes i"
    "bucket_bytes i \<le> 4096" "0 < 4096 div bucket_bytes i" "4096 div bucket_bytes i \<le> 256"
    "bucket_bytes i * (4096 div bucket_bytes i) = 4096"
    by (elim disjE; simp add: bucket_bytes_def)+
qed

lemma slot_offset:
  assumes "page_of p = p" and "i < 9" and "k < 4096 div bucket_bytes i"
  shows "unat (p + of_nat (bucket_bytes i * k)) = unat p + bucket_bytes i * k"
    and "page_of (p + of_nat (bucket_bytes i * k)) = p"
    and "block_of (p + of_nat (bucket_bytes i * k)) = p + of_nat (bucket_bytes i * k)"
    and "bucket_bytes i * k + bucket_bytes i \<le> 4096"
proof -
  have "bucket_bytes i * (k + 1) \<le> bucket_bytes i * (4096 div bucket_bytes i)"
    using assms(3) by (intro mult_le_mono2) simp
  then show le: "bucket_bytes i * k + bucket_bytes i \<le> 4096"
    using bucket_bytes_props(7) [OF assms(2)] by simp
  then have lt: "bucket_bytes i * k < 4096"
    using bucket_bytes_props(3) [OF assms(2)] by simp
  show u: "unat (p + of_nat (bucket_bytes i * k)) = unat p + bucket_bytes i * k"
    and "page_of (p + of_nat (bucket_bytes i * k)) = p"
    using page_offset [OF assms(1) lt] by simp_all
  have "unat p = 16 * (256 * (unat p div 4096))"
    using unat_page_of [of p] assms(1) by simp
  then have "16 dvd unat p"
    by (metis dvd_triv_left)
  moreover have "16 dvd bucket_bytes i * k"
    using bucket_bytes_props(1) [OF assms(2)] by simp
  ultimately have "16 * ((unat p + bucket_bytes i * k) div 16) = unat p + bucket_bytes i * k"
    by (intro dvd_mult_div_cancel dvd_add)
  then show "block_of (p + of_nat (bucket_bytes i * k)) = p + of_nat (bucket_bytes i * k)"
    unfolding word_unat_eq_iff unat_block_of u .
qed

lemma slotsE:
  assumes "x \<in> set (slots p (bucket_bytes i))"
  obtains k where "k < 4096 div bucket_bytes i" and "x = p + of_nat (bucket_bytes i * k)"
  using assms by (auto simp: slots_def)

lemma slots_props:
  assumes "page_of p = p" and "i < 9" and "x \<in> set (slots p (bucket_bytes i))"
  shows "page_of x = p" and "block_of x = x" and "unat p \<le> unat x"
    and "unat x + bucket_bytes i \<le> unat p + 4096"
proof -
  obtain k where k: "k < 4096 div bucket_bytes i" and x: "x = p + of_nat (bucket_bytes i * k)"
    using assms(3) by (rule slotsE)
  note off = slot_offset [OF assms(1,2) k]
  show "page_of x = p" and "block_of x = x" and "unat p \<le> unat x"
    and "unat x + bucket_bytes i \<le> unat p + 4096"
    unfolding x using off by simp_all
qed

lemma distinct_slots:
  assumes "page_of p = p" and "i < 9"
  shows "distinct (slots p (bucket_bytes i))"
proof -
  have "inj_on (\<lambda>k. p + of_nat (bucket_bytes i * k)) {0..<4096 div bucket_bytes i}"
  proof (rule inj_onI)
    fix j k
    assume "j \<in> {0..<4096 div bucket_bytes i}" and "k \<in> {0..<4096 div bucket_bytes i}"
      and "p + of_nat (bucket_bytes i * j) = p + of_nat (bucket_bytes i * k)"
    then have "bucket_bytes i * j = bucket_bytes i * k"
      using slot_offset(1) [OF assms, of j] slot_offset(1) [OF assms, of k]
      by (metis add_left_imp_eq atLeastLessThan_iff)
    then show "j = k"
      using bucket_bytes_props(3) [OF assms(2)] by simp
  qed
  then show ?thesis
    by (simp add: slots_def distinct_map)
qed

lemma length_slots [simp]: "length (slots p sz) = 4096 div sz"
  by (simp add: slots_def)

text \<open>Different objects of a page do not overlap.\<close>

lemma slots_disjoint:
  assumes "page_of p = p" and "i < 9" and "x \<in> set (slots p (bucket_bytes i))"
    and "y \<in> set (slots p (bucket_bytes i))" and "x \<noteq> y"
  shows "disjoint_ranges x (bucket_bytes i) y (bucket_bytes i)"
proof -
  obtain j k where j: "j < 4096 div bucket_bytes i" "x = p + of_nat (bucket_bytes i * j)"
    and k: "k < 4096 div bucket_bytes i" "y = p + of_nat (bucket_bytes i * k)"
    using assms(3,4) by (auto elim!: slotsE)
  have "unat p mod 4096 = 0"
    using unat_page_of [of p] assms(1) by (metis mod_mult_self1_is_0)
  have "unat p + 4096 \<le> 2 ^ 32"
    using unat_page_of [of p] unfolding assms(1) by (rule aligned_top [where n = 1048576]) simp
  then have "unat x + bucket_bytes i \<le> 2 ^ 32" "unat y + bucket_bytes i \<le> 2 ^ 32"
    using slots_props(4) [OF assms(1,2)] assms(3,4) by fastforce+
  moreover have "j \<noteq> k"
    using assms(5) j k by auto
  then have "bucket_bytes i * j + bucket_bytes i \<le> bucket_bytes i * k
      \<or> bucket_bytes i * k + bucket_bytes i \<le> bucket_bytes i * j"
    by (metis mult_Suc_right add.commute mult_le_mono2 Suc_leI linorder_neqE_nat)
  ultimately show ?thesis
    using slot_offset(1) [OF assms(1,2)] j k by (intro disjoint_rangesI) auto
qed

section \<open>Linked lists\<close>

fun links :: "(u32 \<Rightarrow> u32) \<Rightarrow> u32 \<Rightarrow> u32 list \<Rightarrow> bool" where
  "links nxt p [] \<longleftrightarrow> p = 0"
| "links nxt p (x # xs) \<longleftrightarrow> p = x \<and> x \<noteq> 0 \<and> links nxt (nxt x) xs"

lemma links_cong:
  "(\<And>x. x \<in> set xs \<Longrightarrow> nxt' x = nxt x) \<Longrightarrow> links nxt' p xs = links nxt p xs"
  by (induction xs arbitrary: p) auto

lemma links_null: "links nxt p xs \<Longrightarrow> p = 0 \<longleftrightarrow> xs = []"
  by (cases xs) auto

lemma links_nonzero: "links nxt p xs \<Longrightarrow> 0 \<notin> set xs"
  by (induction xs arbitrary: p) auto

lemma links_determined: "links nxt p xs \<Longrightarrow> links nxt p ys \<Longrightarrow> xs = ys"
proof (induction xs arbitrary: p ys)
  case Nil
  then show ?case by (cases ys) auto
next
  case (Cons x xs)
  then show ?case by (cases ys) auto
qed

text \<open>Taking a node out of the middle of a list.\<close>

lemma links_remove:
  assumes "links nxt p (xs @ [a, b] @ ys)" and "distinct (xs @ [a, b] @ ys)"
    and "nxt' a = nxt b" and "\<And>x. x \<in> set xs \<union> set ys \<Longrightarrow> nxt' x = nxt x"
  shows "links nxt' p (xs @ [a] @ ys)"
  using assms
proof (induction xs arbitrary: p)
  case Nil
  then have "links nxt (nxt b) ys"
    by simp
  then have "links nxt' (nxt b) ys"
    using Nil.prems(4) links_cong [of ys nxt' nxt] by simp
  with Nil show ?case by simp
next
  case (Cons x xs)
  then show ?case by simp
qed

end
