(* ===== verification/Heap_Inv.thy ===== *)
theory Heap_Inv
  imports Malloc Heap_Base
begin

text \<open>
  The invariant of the kernel heap on the flat memory, and its preservation by the memory updates
  of \<open>malloc.c\<close>. A view names what the pointers mean: the free descriptors, the descriptor chain
  of each bucket size, the free objects of each descriptor, and the descriptor pages. Each update
  is an update of the view; what the heap does not use (the objects in use) is not mentioned, so
  their owners may write them freely.
\<close>

section \<open>The two kinds of lists\<close>

text \<open>
  Both successor functions read one word inside the 16-byte block of the node, which is all the
  chain walks of \<open>kmalloc\<close> and \<open>kfree_s\<close> rely on.
\<close>

locale block_list =
  fixes nxt :: "mem \<Rightarrow> u32 \<Rightarrow> u32"
  assumes nxt_block: "block_of x = x \<Longrightarrow> (\<And>y. block_of y = x \<Longrightarrow> m' y = m y) \<Longrightarrow> nxt m' x = nxt m x"
begin

lemma links_frame:
  assumes "links (nxt m) p xs" and "\<And>x. x \<in> set xs \<Longrightarrow> block_of x = x"
    and "\<And>y. block_of y \<in> set xs \<Longrightarrow> m' y = m y"
  shows "links (nxt m') p xs"
proof -
  have "nxt m' x = nxt m x" if "x \<in> set xs" for x
    using assms(2,3) that by (intro nxt_block) auto
  then show ?thesis
    using assms(1) links_cong [of xs "nxt m'" "nxt m"] by simp
qed

end

lemma desc_block:
  assumes "block_of d = d" and "\<And>y. block_of y = d \<Longrightarrow> m' y = m y"
  shows "d_page m' d = d_page m d" "d_next m' d = d_next m d" "d_freeptr m' d = d_freeptr m d"
    "d_refcnt m' d = d_refcnt m d" "d_bucket_size m' d = d_bucket_size m d"
proof -
  have in_d: "block_of y = d" if "in_range (d + of_nat k) n y" "k + n \<le> 16" for y k n
    using that assms(1) in_range_sub [of d k n y 16] in_block [of d 16 y] by simp
  have same32: "load32 m' (d + of_nat k) = load32 m (d + of_nat k)" if "k + 4 \<le> 16" for k
    using that assms(2) in_d [of k 4] by (intro load32_cong) auto
  have same16: "load16 m' (d + of_nat k) = load16 m (d + of_nat k)" if "k + 2 \<le> 16" for k
    using that assms(2) in_d [of k 2] by (intro load16_cong) auto
  show "d_page m' d = d_page m d" "d_next m' d = d_next m d" "d_freeptr m' d = d_freeptr m d"
    "d_refcnt m' d = d_refcnt m d" "d_bucket_size m' d = d_bucket_size m d"
    using same32 [of 0] same32 [of 4] same32 [of 8] same16 [of 12] same16 [of 14]
    by (simp_all add: desc_defs)
qed

interpretation descs: block_list d_next
  by unfold_locales (rule desc_block(2))

interpretation objects: block_list load32
proof
  fix x :: u32 and m m' :: mem
  assume "block_of x = x" and "\<And>y. block_of y = x \<Longrightarrow> m' y = m y"
  then show "load32 m' x = load32 m x"
    using desc_block(1) [of x m' m] by (simp add: d_page_def)
qed

section \<open>Field updates\<close>

lemma field_disjoint:
  assumes "i + n \<le> 16" and "j + k \<le> 16" and "i + n \<le> j \<or> j + k \<le> i"
  shows "disjoint_ranges (d + of_nat i) n (d + of_nat j) k"
proof (unfold disjoint_ranges_def, intro allI impI notI)
  fix x
  assume "in_range (d + of_nat i) n x" and "in_range (d + of_nat j) k x"
  then obtain a b where "a < n" "x = d + of_nat i + of_nat a" "b < k" "x = d + of_nat j + of_nat b"
    by (auto elim!: in_rangeE)
  moreover from this have "d + of_nat (i + a) = d + of_nat (j + b)"
    by (simp add: add.assoc)
  ultimately show False
    using assms word_offset_unique [of "i + a" "j + b" d] by simp
qed

lemmas field_disjoint_at =
  field_disjoint [of 0 4 4 4, simplified] field_disjoint [of 4 4 0 4, simplified]
  field_disjoint [of 0 4 8 4, simplified] field_disjoint [of 8 4 0 4, simplified]
  field_disjoint [of 0 4 12 2, simplified] field_disjoint [of 12 2 0 4, simplified]
  field_disjoint [of 0 4 14 2, simplified] field_disjoint [of 14 2 0 4, simplified]
  field_disjoint [of 4 4 8 4, simplified] field_disjoint [of 8 4 4 4, simplified]
  field_disjoint [of 4 4 12 2, simplified] field_disjoint [of 12 2 4 4, simplified]
  field_disjoint [of 4 4 14 2, simplified] field_disjoint [of 14 2 4 4, simplified]
  field_disjoint [of 8 4 12 2, simplified] field_disjoint [of 12 2 8 4, simplified]
  field_disjoint [of 8 4 14 2, simplified] field_disjoint [of 14 2 8 4, simplified]
  field_disjoint [of 12 2 14 2, simplified] field_disjoint [of 14 2 12 2, simplified]

lemma desc_fields [simp]:
  "d_page (set_page d v m) d = v" "d_next (set_page d v m) d = d_next m d"
  "d_freeptr (set_page d v m) d = d_freeptr m d" "d_refcnt (set_page d v m) d = d_refcnt m d"
  "d_page (set_next d v m) d = d_page m d" "d_next (set_next d v m) d = v"
  "d_freeptr (set_next d v m) d = d_freeptr m d" "d_refcnt (set_next d v m) d = d_refcnt m d"
  "d_page (set_freeptr d v m) d = d_page m d" "d_next (set_freeptr d v m) d = d_next m d"
  "d_freeptr (set_freeptr d v m) d = v" "d_refcnt (set_freeptr d v m) d = d_refcnt m d"
  "d_page (set_refcnt d w m) d = d_page m d" "d_next (set_refcnt d w m) d = d_next m d"
  "d_freeptr (set_refcnt d w m) d = d_freeptr m d" "d_refcnt (set_refcnt d w m) d = w"
  "d_page (set_bucket_size d w m) d = d_page m d" "d_next (set_bucket_size d w m) d = d_next m d"
  "d_freeptr (set_bucket_size d w m) d = d_freeptr m d" "d_refcnt (set_bucket_size d w m) d = d_refcnt m d"
  by (simp_all add: desc_defs mem_simps field_disjoint_at)

lemma desc_updates_block:
  assumes "block_of d = d" and "block_of y \<noteq> d"
  shows "set_page d v m y = m y" "set_next d v m y = m y" "set_freeptr d v m y = m y"
    "set_refcnt d w m y = m y" "set_bucket_size d w m y = m y" "store32 m d v y = m y"
proof -
  have out: "\<not> in_range (d + of_nat k) n y" if "k + n \<le> 16" for k n
    using that assms in_range_sub [of d k n y 16] in_block [of d 16 y] by auto
  show "set_page d v m y = m y" "set_next d v m y = m y" "set_freeptr d v m y = m y"
    "set_refcnt d w m y = m y" "set_bucket_size d w m y = m y" "store32 m d v y = m y"
    using out [of 0 4] out [of 4 4] out [of 8 4] out [of 12 2] out [of 14 2]
    by (simp_all add: desc_defs store32_other store16_other)
qed

section \<open>The invariant\<close>

record heap_view =
  hv_free :: "u32 list"
  hv_chain :: "nat \<Rightarrow> u32 list"
  hv_objs :: "u32 \<Rightarrow> u32 list"
  hv_dpages :: "u32 set"

definition bucket_ok :: "mem \<Rightarrow> nat \<Rightarrow> u32 \<Rightarrow> u32 list \<Rightarrow> bool" where
  "bucket_ok m i d fs \<longleftrightarrow>
     links (load32 m) (d_freeptr m d) fs \<and> distinct fs
     \<and> set fs \<subseteq> set (slots (d_page m d) (bucket_bytes i))
     \<and> unat (d_refcnt m d) + length fs = 4096 div bucket_bytes i"

definition in_chain :: "heap_view \<Rightarrow> nat \<Rightarrow> u32 \<Rightarrow> bool" where
  "in_chain H i d \<longleftrightarrow> i < 9 \<and> d \<in> set (hv_chain H i)"

definition view_ok :: "heap_view \<Rightarrow> bool" where
  "view_ok H \<longleftrightarrow> distinct (hv_free H) \<and> (\<forall>i<9. distinct (hv_chain H i))
     \<and> (\<forall>i d. in_chain H i d \<longrightarrow> d \<notin> set (hv_free H))
     \<and> (\<forall>i j d. in_chain H i d \<longrightarrow> in_chain H j d \<longrightarrow> i = j)
     \<and> (\<forall>d. d \<in> set (hv_free H) \<or> (\<exists>i. in_chain H i d) \<longrightarrow> block_of d = d \<and> page_of d \<in> hv_dpages H)"

definition heap_mem :: "mem \<Rightarrow> bucket list \<Rightarrow> u32 \<Rightarrow> u32 set \<Rightarrow> heap_view \<Rightarrow> bool" where
  "heap_mem m dir fb own H \<longleftrightarrow> view_ok H
     \<and> map bucket_size dir = [16, 32, 64, 128, 256, 512, 1024, 2048, 4096, 0]
     \<and> links (d_next m) fb (hv_free H)
     \<and> (\<forall>i<9. links (d_next m) (bucket_chain (dir ! i)) (hv_chain H i))
     \<and> (\<forall>i d. in_chain H i d \<longrightarrow> bucket_ok m i d (hv_objs H d) \<and> d_page m d \<in> own - hv_dpages H)
     \<and> (\<forall>i j d e. in_chain H i d \<longrightarrow> in_chain H j e \<longrightarrow> d_page m d = d_page m e \<longrightarrow> d = e)
     \<and> hv_dpages H \<subseteq> own \<and> (\<forall>p \<in> own. page_of p = p \<and> 0x100000 \<le> unat p)"

lemma heap_memD:
  assumes "heap_mem m dir fb own H"
  shows "view_ok H" and "links (d_next m) fb (hv_free H)"
    and "i < 9 \<Longrightarrow> links (d_next m) (bucket_chain (dir ! i)) (hv_chain H i)"
    and "in_chain H i d \<Longrightarrow> bucket_ok m i d (hv_objs H d)"
    and "in_chain H i d \<Longrightarrow> d_page m d \<in> own" and "in_chain H i d \<Longrightarrow> d_page m d \<notin> hv_dpages H"
    and "in_chain H i d \<Longrightarrow> in_chain H j e \<Longrightarrow> d_page m d = d_page m e \<Longrightarrow> d = e"
    and "hv_dpages H \<subseteq> own" and "p \<in> own \<Longrightarrow> page_of p = p" and "p \<in> own \<Longrightarrow> 0x100000 \<le> unat p"
    and "map bucket_size dir = [16, 32, 64, 128, 256, 512, 1024, 2048, 4096, 0]"
  using assms unfolding heap_mem_def by blast+

lemma heap_memI:
  assumes "view_ok H" and "map bucket_size dir = [16, 32, 64, 128, 256, 512, 1024, 2048, 4096, 0]"
    and "links (d_next m) fb (hv_free H)"
    and "\<And>i. i < 9 \<Longrightarrow> links (d_next m) (bucket_chain (dir ! i)) (hv_chain H i)"
    and "\<And>i d. in_chain H i d \<Longrightarrow> bucket_ok m i d (hv_objs H d)"
    and "\<And>i d. in_chain H i d \<Longrightarrow> d_page m d \<in> own - hv_dpages H"
    and "\<And>i j d e. in_chain H i d \<Longrightarrow> in_chain H j e \<Longrightarrow> d_page m d = d_page m e \<Longrightarrow> d = e"
    and "hv_dpages H \<subseteq> own" and "\<And>p. p \<in> own \<Longrightarrow> page_of p = p \<and> 0x100000 \<le> unat p"
  shows "heap_mem m dir fb own H"
  unfolding heap_mem_def using assms by blast

lemma view_okD:
  assumes "view_ok H"
  shows "distinct (hv_free H)" and "i < 9 \<Longrightarrow> distinct (hv_chain H i)"
    and "in_chain H i d \<Longrightarrow> d \<notin> set (hv_free H)"
    and "in_chain H i d \<Longrightarrow> in_chain H j d \<Longrightarrow> i = j"
    and "d \<in> set (hv_free H) \<Longrightarrow> block_of d = d" and "d \<in> set (hv_free H) \<Longrightarrow> page_of d \<in> hv_dpages H"
    and "in_chain H i d \<Longrightarrow> block_of d = d" and "in_chain H i d \<Longrightarrow> page_of d \<in> hv_dpages H"
  using assms unfolding view_ok_def by blast+

text \<open>The objects in use, with their sizes.\<close>

definition live :: "mem \<Rightarrow> heap_view \<Rightarrow> (u32 \<times> nat) set" where
  "live m H = {(x, bucket_bytes i) | x i d. in_chain H i d
     \<and> x \<in> set (slots (d_page m d) (bucket_bytes i)) \<and> x \<notin> set (hv_objs H d)}"

lemma live_iff:
  "(x, n) \<in> live m H \<longleftrightarrow> (\<exists>i d. in_chain H i d \<and> n = bucket_bytes i
     \<and> x \<in> set (slots (d_page m d) (bucket_bytes i)) \<and> x \<notin> set (hv_objs H d))"
  by (auto simp: live_def)

lemma live_same_pages:
  assumes "\<And>i d. in_chain H i d \<Longrightarrow> d_page m' d = d_page m d"
  shows "live m' H = live m H"
proof -
  have "z \<in> live m' H \<longleftrightarrow> z \<in> live m H" for z
    using assms by (cases z) (simp add: live_iff cong: conj_cong)
  then show ?thesis by blast
qed

text \<open>The blocks the heap keeps data in.\<close>

definition cells :: "heap_view \<Rightarrow> u32 set" where
  "cells H = set (hv_free H) \<union> {x. \<exists>i d. in_chain H i d \<and> (x = d \<or> x \<in> set (hv_objs H d))}"

lemma heap_mem_obj:
  assumes "heap_mem m dir fb own H" and "in_chain H i d" and "x \<in> set (slots (d_page m d) (bucket_bytes i))"
  shows "block_of x = x" "page_of x = d_page m d" "d_page m d \<in> own" "d_page m d \<notin> hv_dpages H"
    "page_of (d_page m d) = d_page m d"
proof -
  have p: "d_page m d \<in> own - hv_dpages H" and i: "i < 9"
    using assms(1,2) by (auto simp: heap_mem_def in_chain_def)
  then show own: "d_page m d \<in> own" "d_page m d \<notin> hv_dpages H"
    by auto
  show page: "page_of (d_page m d) = d_page m d"
    using assms(1) own by (auto simp: heap_mem_def)
  show "block_of x = x" "page_of x = d_page m d"
    using slots_props [OF page i assms(3)] by simp_all
qed

lemma heap_mem_cells:
  assumes "heap_mem m dir fb own H" and "x \<in> cells H"
  shows "block_of x = x" and "page_of x \<in> own"
proof -
  note ok = view_okD [OF heap_memD(1) [OF assms(1)]]
  have "block_of x = x \<and> page_of x \<in> own"
  proof (cases "x \<in> set (hv_free H) \<or> (\<exists>i. in_chain H i x)")
    case True
    then show ?thesis
      using ok(5-8) heap_memD(8) [OF assms(1)] by blast
  next
    case False
    then obtain i d where d: "in_chain H i d" "x \<in> set (hv_objs H d)"
      using assms(2) by (auto simp: cells_def)
    then have "x \<in> set (slots (d_page m d) (bucket_bytes i))"
      using heap_memD(4) [OF assms(1) d(1)] by (auto simp: bucket_ok_def)
    then show ?thesis
      using heap_mem_obj(1-3) [OF assms(1) d(1)] by simp
  qed
  then show "block_of x = x" and "page_of x \<in> own" by simp_all
qed

lemma cells_cases:
  "x \<in> set (hv_free H) \<Longrightarrow> x \<in> cells H" "in_chain H i x \<Longrightarrow> x \<in> cells H"
  "in_chain H i d \<Longrightarrow> x \<in> set (hv_objs H d) \<Longrightarrow> x \<in> cells H"
  by (auto simp: cells_def)

lemma heap_mem_same:
  assumes inv: "heap_mem m dir fb own H" and same: "\<And>y. block_of y \<in> cells H \<Longrightarrow> m' y = m y"
    and own: "own \<subseteq> own'" "\<forall>p \<in> own'. page_of p = p \<and> 0x100000 \<le> unat p"
  shows "heap_mem m' dir fb own' H" and "live m' H = live m H"
proof -
  note view = view_okD [OF heap_memD(1) [OF inv]]
  have fields: "d_page m' d = d_page m d" "d_freeptr m' d = d_freeptr m d" "d_refcnt m' d = d_refcnt m d"
    if "in_chain H i d" for i d
    using desc_block [OF view(7) [OF that], of m' m] same cells_cases(2) [OF that] by simp_all
  have obj: "links (load32 m') p (hv_objs H d)" if "links (load32 m) p (hv_objs H d)" "in_chain H i d" for i d p
    using that(1)
  proof (rule objects.links_frame)
    show "block_of x = x" if "x \<in> set (hv_objs H d)" for x
      using heap_mem_cells(1) [OF inv] cells_cases(3) [OF \<open>in_chain H i d\<close> that] .
    show "m' y = m y" if "block_of y \<in> set (hv_objs H d)" for y
      using same cells_cases(3) [OF \<open>in_chain H i d\<close> that] .
  qed
  have free: "links (d_next m') fb (hv_free H)"
    by (rule descs.links_frame [OF heap_memD(2) [OF inv] view(5) same [OF cells_cases(1)]])
  have chain: "links (d_next m') (bucket_chain (dir ! i)) (hv_chain H i)" if "i < 9" for i
    using heap_memD(3) [OF inv that]
  proof (rule descs.links_frame)
    show "block_of x = x" if "x \<in> set (hv_chain H i)" for x
      using view(7) [of i x] that \<open>i < 9\<close> by (simp add: in_chain_def)
    show "m' y = m y" if "block_of y \<in> set (hv_chain H i)" for y
      using same cells_cases(2) [of H i "block_of y"] that \<open>i < 9\<close> by (simp add: in_chain_def)
  qed
  have ok: "bucket_ok m' i d (hv_objs H d)" if "in_chain H i d" for i d
    using heap_memD(4) [OF inv that] fields [OF that] obj [OF _ that] by (simp add: bucket_ok_def)
  show "heap_mem m' dir fb own' H"
  proof (rule heap_memI [OF heap_memD(1,11) [OF inv] free chain ok])
    show "d_page m' d \<in> own' - hv_dpages H" if "in_chain H i d" for i d
      using heap_memD(5,6) [OF inv that] fields [OF that] own(1) by auto
    show "d = e" if "in_chain H i d" "in_chain H j e" "d_page m' d = d_page m' e" for i j d e
      using heap_memD(7) [OF inv that(1,2)] that(3) fields(1) [OF that(1)] fields(1) [OF that(2)] by simp
    show "hv_dpages H \<subseteq> own'"
      using heap_memD(8) [OF inv] own(1) by blast
  qed (use own(2) in auto)
  show "live m' H = live m H"
    by (rule live_same_pages) (rule fields(1))
qed

section \<open>Taking and giving back an object\<close>

text \<open>One descriptor gets a new list of free objects.\<close>

lemma heap_mem_objs:
  assumes inv: "heap_mem m dir fb own H" and d: "in_chain H i d"
    and same: "\<And>y. block_of y \<in> cells H - {d} \<Longrightarrow> m' y = m y"
    and fields: "d_page m' d = d_page m d" "d_next m' d = d_next m d" and ok: "bucket_ok m' i d fs"
  shows "heap_mem m' dir fb own (H\<lparr>hv_objs := (hv_objs H)(d := fs)\<rparr>)" (is "heap_mem _ _ _ _ ?H")
    and "in_chain H j e \<Longrightarrow> d_page m' e = d_page m e"
proof -
  note view = view_okD [OF heap_memD(1) [OF inv]]
  have in_chain [simp]: "in_chain ?H j e = in_chain H j e" for j e
    by (simp add: in_chain_def)
  have view': "view_ok ?H"
    using heap_memD(1) [OF inv] by (simp add: view_ok_def)
  have desc: "d_page m' e = d_page m e \<and> d_next m' e = d_next m e \<and> d_freeptr m' e = d_freeptr m e
      \<and> d_refcnt m' e = d_refcnt m e" if "e \<noteq> d" "in_chain H j e \<or> e \<in> set (hv_free H)" for j e
  proof -
    have "block_of e = e" and "e \<in> cells H"
      using that(2) view(5,7) cells_cases(1,2) by blast+
    then show ?thesis
      using desc_block [of e m' m] same that(1) by simp
  qed
  have next_eq: "d_next m' e = d_next m e" if "in_chain H j e \<or> e \<in> set (hv_free H)" for j e
    using desc [OF _ that] fields(2) by (cases "e = d") auto
  have page: "d_page m' e = d_page m e" if "in_chain H j e" for j e
    using desc [of e j] that fields(1) by (cases "e = d") auto
  have objs: "bucket_ok m' j e (hv_objs H e)" if "in_chain H j e" "e \<noteq> d" for j e
  proof -
    have other: "x \<noteq> d" if "x \<in> set (hv_objs H e)" for x
    proof
      assume "x = d"
      have "x \<in> set (slots (d_page m e) (bucket_bytes j))"
        using heap_memD(4) [OF inv \<open>in_chain H j e\<close>] that by (auto simp: bucket_ok_def)
      then have "page_of d \<notin> hv_dpages H"
        using heap_mem_obj [OF inv \<open>in_chain H j e\<close>] \<open>x = d\<close> by auto
      then show False
        using view(8) [OF d] by simp
    qed
    have "links (load32 m') p (hv_objs H e)" if "links (load32 m) p (hv_objs H e)" for p
      using that
    proof (rule objects.links_frame)
      show "block_of x = x" if "x \<in> set (hv_objs H e)" for x
        using heap_mem_cells(1) [OF inv cells_cases(3) [OF \<open>in_chain H j e\<close> that]] .
      show "m' y = m y" if "block_of y \<in> set (hv_objs H e)" for y
        using same cells_cases(3) [OF \<open>in_chain H j e\<close> that] other [OF that] by simp
    qed
    then show ?thesis
      using heap_memD(4) [OF inv that(1)] desc [OF that(2) disjI1 [OF that(1)]] by (simp add: bucket_ok_def)
  qed
  show "heap_mem m' dir fb own ?H"
  proof (rule heap_memI [OF view' heap_memD(11) [OF inv]])
    show "links (d_next m') fb (hv_free ?H)"
      using heap_memD(2) [OF inv] links_cong [of "hv_free H" "d_next m'" "d_next m"] next_eq by simp
    show "links (d_next m') (bucket_chain (dir ! j)) (hv_chain ?H j)" if "j < 9" for j
      using heap_memD(3) [OF inv that] links_cong [of "hv_chain H j" "d_next m'" "d_next m"] next_eq [of j] that
      by (simp add: in_chain_def)
    show "bucket_ok m' j e (hv_objs ?H e)" if "in_chain ?H j e" for j e
    proof (cases "e = d")
      case True
      then have "j = i"
        using that d view(4) by simp
      with True ok show ?thesis by simp
    next
      case False
      then show ?thesis
        using objs that by simp
    qed
    show "d_page m' e \<in> own - hv_dpages ?H" if "in_chain ?H j e" for j e
      using heap_memD(5,6) [OF inv] page that by simp
    show "e = f" if "in_chain ?H j e" "in_chain ?H k f" "d_page m' e = d_page m' f" for j k e f
      using heap_memD(7) [OF inv] page [of j e] page [of k f] that by simp
  qed (use heap_memD(8,9,10) [OF inv] in simp_all)
  show "in_chain H j e \<Longrightarrow> d_page m' e = d_page m e"
    by (rule page)
qed

text \<open>An object belongs to one descriptor.\<close>

lemma slot_owner:
  assumes "heap_mem m dir fb own H" and "in_chain H i d" and "in_chain H j e"
    and "x \<in> set (slots (d_page m d) (bucket_bytes i))" and "x \<in> set (slots (d_page m e) (bucket_bytes j))"
  shows "e = d \<and> j = i"
proof -
  have "d_page m d = d_page m e"
    using heap_mem_obj(2) [OF assms(1,2,4)] heap_mem_obj(2) [OF assms(1,3,5)] by simp
  then have "e = d"
    using heap_memD(7) [OF assms(1,2,3)] by simp
  then show ?thesis
    using view_okD(4) [OF heap_memD(1) [OF assms(1)]] assms(2,3) by blast
qed

lemma take_object_mem:
  assumes inv: "heap_mem m dir fb own H" and d: "in_chain H i d" and fs: "hv_objs H d = x # xs"
  defines "m' \<equiv> set_refcnt d (d_refcnt m d + 1) (set_freeptr d (load32 m x) m)"
    and "H' \<equiv> H\<lparr>hv_objs := (hv_objs H)(d := xs)\<rparr>"
  shows "heap_mem m' dir fb own H'" and "(x, bucket_bytes i) \<notin> live m H"
    and "live m' H' = insert (x, bucket_bytes i) (live m H)"
    and "x \<in> set (slots (d_page m d) (bucket_bytes i))"
proof -
  note view = view_okD [OF heap_memD(1) [OF inv]]
  have i: "i < 9"
    using d by (simp add: in_chain_def)
  have ok: "bucket_ok m i d (x # xs)"
    using heap_memD(4) [OF inv d] fs by simp
  then show slot: "x \<in> set (slots (d_page m d) (bucket_bytes i))"
    by (simp add: bucket_ok_def)
  have block: "block_of d = d"
    using view(7) d .
  have same: "m' y = m y" if "block_of y \<noteq> d" for y
    using that desc_updates_block [OF block] by (simp add: m'_def)
  have not_d: "z \<noteq> d" if "z \<in> set (slots (d_page m d) (bucket_bytes i))" for z
    using heap_mem_obj(2,4) [OF inv d that] view(8) [OF d] by auto
  have links: "links (load32 m') (load32 m x) xs"
  proof (rule objects.links_frame)
    show "links (load32 m) (load32 m x) xs"
      using ok by (simp add: bucket_ok_def)
    show "block_of z = z" if "z \<in> set xs" for z
      using heap_mem_obj(1) [OF inv d] ok that by (auto simp: bucket_ok_def)
    show "m' y = m y" if "block_of y \<in> set xs" for y
      using same not_d ok that by (auto simp: bucket_ok_def)
  qed
  have count: "unat (d_refcnt m d) + Suc (length xs) = 4096 div bucket_bytes i"
    using ok by (simp add: bucket_ok_def)
  have "unat (d_refcnt m d + 1) = unat (d_refcnt m d) + 1"
    using count bucket_bytes_props(6) [OF i] unat_add_small [of "d_refcnt m d" 1] by simp
  then have ok': "bucket_ok m' i d xs"
    using ok links count by (simp add: bucket_ok_def m'_def)
  have page: "d_page m' d = d_page m d" and "d_next m' d = d_next m d"
    by (simp_all add: m'_def)
  from heap_mem_objs [OF inv d _ this ok'] same
  show inv': "heap_mem m' dir fb own H'" and "(x, bucket_bytes i) \<notin> live m H"
    using slot_owner [OF inv d _ slot] fs by (auto simp: H'_def live_iff)
  have pages: "d_page m' e = d_page m e" if "in_chain H j e" for j e
    using heap_mem_objs(2) [OF inv d _ page \<open>d_next m' d = d_next m d\<close> ok'] same that by blast
  have "x \<notin> set xs"
    using ok by (simp add: bucket_ok_def)
  have [simp]: "in_chain H' j e = in_chain H j e" for j e
    by (simp add: H'_def in_chain_def)
  have "(y, n) \<in> live m' H' \<longleftrightarrow> (y, n) \<in> insert (x, bucket_bytes i) (live m H)" for y n
  proof
    assume "(y, n) \<in> live m' H'"
    then obtain j e where e: "in_chain H j e" "n = bucket_bytes j"
      "y \<in> set (slots (d_page m e) (bucket_bytes j))" "y \<notin> set (hv_objs H' e)"
      using pages by (auto simp: live_iff)
    show "(y, n) \<in> insert (x, bucket_bytes i) (live m H)"
    proof (cases "e = d")
      case True
      then have "j = i"
        using e(1) d view(4) by blast
      show ?thesis
      proof (cases "y = x")
        case False
        then have "y \<notin> set (hv_objs H d)"
          using e(4) \<open>e = d\<close> fs by (simp add: H'_def)
        then have "(y, n) \<in> live m H"
          using e \<open>e = d\<close> \<open>j = i\<close> d unfolding live_iff by blast
        then show ?thesis by simp
      qed (use e(2) \<open>j = i\<close> in simp)
    next
      case False
      then show ?thesis
        using e by (auto simp: live_iff H'_def)
    qed
  next
    assume "(y, n) \<in> insert (x, bucket_bytes i) (live m H)"
    then show "(y, n) \<in> live m' H'"
    proof
      assume "(y, n) = (x, bucket_bytes i)"
      then show ?thesis
        using d slot \<open>x \<notin> set xs\<close> pages [OF d] unfolding live_iff
        by (intro exI [of _ i] exI [of _ d]) (simp, simp add: H'_def)
    next
      assume "(y, n) \<in> live m H"
      then obtain j e where e: "in_chain H j e" "n = bucket_bytes j"
        "y \<in> set (slots (d_page m e) (bucket_bytes j))" "y \<notin> set (hv_objs H e)"
        by (auto simp: live_iff)
      then show ?thesis
        using pages [OF e(1)] fs unfolding live_iff
        by (intro exI [of _ j] exI [of _ e]) (simp, auto simp: H'_def)
    qed
  qed
  then show "live m' H' = insert (x, bucket_bytes i) (live m H)"
    by auto
qed

end
