(* ===== verification/Heap_Steps.thy ===== *)
theory Heap_Steps
  imports Heap_Inv
begin

text \<open>
  The larger updates of the heap: a fresh page of descriptors, a fresh bucket with its chain of free
  objects, giving an object back, and taking an empty bucket out of its chain. Each is an update of
  the view of \<open>Heap_Inv\<close>.
\<close>

section \<open>Lists over consecutive addresses\<close>

lemma links_upt:
  assumes "j < n" and "\<And>k. j \<le> k \<Longrightarrow> Suc k < n \<Longrightarrow> nxt (f k) = f (Suc k)"
    and "links nxt (nxt (f (n - 1))) rest" and "\<And>k. j \<le> k \<Longrightarrow> k < n \<Longrightarrow> f k \<noteq> 0"
  shows "links nxt (f j) (map f [j..<n] @ rest)"
  using assms
proof (induction "n - j" arbitrary: j)
  case 0
  then show ?case by simp
next
  case (Suc l)
  show ?case
  proof (cases "Suc j < n")
    case True
    then have "links nxt (f (Suc j)) (map f [Suc j..<n] @ rest)"
      using Suc by (intro Suc.hyps) auto
    then show ?thesis
      using Suc.prems True by (simp add: upt_conv_Cons)
  next
    case False
    then have "n = Suc j"
      using Suc.prems(1) by simp
    then show ?thesis
      using Suc.prems by simp
  qed
qed

definition slot :: "u32 \<Rightarrow> nat \<Rightarrow> nat \<Rightarrow> u32" where
  "slot p sz k = p + of_nat (sz * k)"

lemma slots_slot: "slots p sz = map (slot p sz) [0..<4096 div sz]"
  by (simp add: slots_def slot_def)

lemma slot_0 [simp]: "slot p sz 0 = p"
  by (simp add: slot_def)

lemma slot_Suc: "slot p sz (Suc k) = slot p sz k + of_nat sz"
  by (simp add: slot_def algebra_simps)

lemma slot_inj:
  assumes "page_of p = p" and "i < 9" and "j < 4096 div bucket_bytes i" and "k < 4096 div bucket_bytes i"
  shows "slot p (bucket_bytes i) j = slot p (bucket_bytes i) k \<longleftrightarrow> j = k"
proof -
  have "unat (slot p (bucket_bytes i) j) = unat p + bucket_bytes i * j"
    and "unat (slot p (bucket_bytes i) k) = unat p + bucket_bytes i * k"
    using slot_offset(1) [OF assms(1,2)] assms(3,4) by (simp_all only: slot_def)
  then show ?thesis
    using bucket_bytes_props(3) [OF assms(2)] by (metis add_left_imp_eq less_numeral_extra(3) mult_left_cancel)
qed

lemma slot_nonzero:
  assumes "page_of p = p" and "0x100000 \<le> unat p" and "i < 9" and "k < 4096 div bucket_bytes i"
  shows "slot p (bucket_bytes i) k \<noteq> 0"
proof -
  have "unat (slot p (bucket_bytes i) k) = unat p + bucket_bytes i * k"
    using slot_offset(1) [OF assms(1,3,4)] by (simp only: slot_def)
  with assms(2) show ?thesis
    by fastforce
qed

text \<open>
  The two loops that cut a page into a list, of descriptors in \<open>init_bucket_desc\<close> and of objects in
  \<open>kmalloc\<close>, write one word into each block they pass.
\<close>

locale page_linker = block_list nxt for nxt :: "mem \<Rightarrow> u32 \<Rightarrow> u32" +
  fixes upd :: "u32 \<Rightarrow> u32 \<Rightarrow> mem \<Rightarrow> mem"
    and loop :: "mem \<Rightarrow> u32 \<Rightarrow> nat \<Rightarrow> mem \<times> u32"
    and i :: nat
  assumes upd_nxt: "block_of d = d \<Longrightarrow> nxt (upd d v m) d = v"
    and upd_other: "block_of d = d \<Longrightarrow> block_of y \<noteq> d \<Longrightarrow> upd d v m y = m y"
    and loop_0: "loop m d 0 = (m, d)"
    and loop_Suc: "loop m d (Suc n) =
      loop (upd d (d + of_nat (bucket_bytes i)) m) (d + of_nat (bucket_bytes i)) n"
begin

lemma link_loop:
  assumes p: "page_of p = p" and i: "i < 9" and n: "j + n < 4096 div bucket_bytes i"
  shows "\<exists>m'. loop m (slot p (bucket_bytes i) j) n = (m', slot p (bucket_bytes i) (j + n))
    \<and> (\<forall>k. j \<le> k \<longrightarrow> k < j + n \<longrightarrow> nxt m' (slot p (bucket_bytes i) k) = slot p (bucket_bytes i) (Suc k))
    \<and> (\<forall>y. block_of y \<notin> slot p (bucket_bytes i) ` {j..<j + n} \<longrightarrow> m' y = m y)"
  using n
proof (induction n arbitrary: j m)
  case 0
  then show ?case by (simp add: loop_0)
next
  case (Suc n)
  let ?f = "slot p (bucket_bytes i)"
  let ?m = "upd (?f j) (?f (Suc j)) m"
  have block: "block_of (?f k) = ?f k" if "k < 4096 div bucket_bytes i" for k
    using slot_offset(3) [OF p i that] by (simp only: slot_def)
  have bj: "block_of (?f j) = ?f j"
    using Suc.prems by (intro block) simp
  obtain m' where run: "loop ?m (?f (Suc j)) n = (m', ?f (Suc j + n))"
    and next_eq: "\<forall>k. Suc j \<le> k \<longrightarrow> k < Suc j + n \<longrightarrow> nxt m' (?f k) = ?f (Suc k)"
    and same: "\<forall>y. block_of y \<notin> ?f ` {Suc j..<Suc j + n} \<longrightarrow> m' y = ?m y"
    using Suc.IH [of "Suc j" ?m] Suc.prems by auto
  have "loop m (?f j) (Suc n) = (m', ?f (j + Suc n))"
    using run by (simp add: loop_Suc slot_Suc)
  moreover have "nxt m' (?f k) = ?f (Suc k)" if "j \<le> k" "k < j + Suc n" for k
  proof (cases "k = j")
    case True
    have "?f j \<notin> ?f ` {Suc j..<Suc j + n}"
    proof
      assume "?f j \<in> ?f ` {Suc j..<Suc j + n}"
      then obtain l where l: "Suc j \<le> l" "l < Suc j + n" "?f j = ?f l"
        by auto
      then show False
        using slot_inj [OF p i, of j l] Suc.prems by simp
    qed
    then have "nxt m' (?f j) = nxt ?m (?f j)"
      using same by (intro nxt_block [OF bj]) auto
    then show ?thesis
      using upd_nxt [OF bj] True by simp
  next
    case False
    then show ?thesis
      using next_eq that by simp
  qed
  moreover have "m' y = m y" if "block_of y \<notin> ?f ` {j..<j + Suc n}" for y
  proof -
    have "block_of y \<noteq> ?f j" and "block_of y \<notin> ?f ` {Suc j..<Suc j + n}"
      using that by auto
    then show ?thesis
      using same upd_other [OF bj] by simp
  qed
  ultimately show ?case by blast
qed

text \<open>A chain of all slots of a page, the last one linked to \<open>q\<close>.\<close>

lemma link_page:
  assumes p: "page_of p = p" "0x100000 \<le> unat p" and i: "i < 9"
    and run: "loop m p (4096 div bucket_bytes i - 1) = (m1, lst)" and m': "m' = upd lst q m1"
    and rest: "links (nxt m) q rest" "\<And>x. x \<in> set rest \<Longrightarrow> block_of x = x \<and> page_of x \<noteq> p"
  shows "links (nxt m') p (slots p (bucket_bytes i) @ rest)"
    and "page_of y \<noteq> p \<Longrightarrow> m' y = m y"
proof -
  let ?f = "slot p (bucket_bytes i)" and ?n = "4096 div bucket_bytes i"
  have n: "0 < ?n"
    using bucket_bytes_props(5) [OF i] .
  have slot: "block_of (?f k) = ?f k" "page_of (?f k) = p" if "k < ?n" for k
    using slot_offset(2,3) [OF p(1) i that] by (simp_all only: slot_def)
  define l where "l = ?n - 1"
  have "0 + l < ?n"
    using n by (simp add: l_def)
  then have "\<exists>m'. loop m (?f 0) l = (m', ?f (0 + l))
    \<and> (\<forall>k. 0 \<le> k \<longrightarrow> k < 0 + l \<longrightarrow> nxt m' (?f k) = ?f (Suc k))
    \<and> (\<forall>y. block_of y \<notin> ?f ` {0..<0 + l} \<longrightarrow> m' y = m y)"
    by (rule link_loop [OF p(1) i])
  then have "\<exists>m'. loop m p l = (m', ?f l)
    \<and> (\<forall>k<l. nxt m' (?f k) = ?f (Suc k)) \<and> (\<forall>y. block_of y \<notin> ?f ` {0..<l} \<longrightarrow> m' y = m y)"
    by simp
  with run [folded l_def] have lst: "lst = ?f l"
    and next_eq: "\<And>k. k < l \<Longrightarrow> nxt m1 (?f k) = ?f (Suc k)"
    and same: "\<And>y. block_of y \<notin> ?f ` {0..<l} \<Longrightarrow> m1 y = m y"
    by auto
  have l: "l < ?n" "Suc l = ?n"
    using n by (simp_all add: l_def)
  have blast: "block_of lst = lst" and plast: "page_of lst = p"
    using slot [OF l(1)] lst by simp_all
  have not_last: "?f k \<noteq> lst" if "k < l" for k
    using slot_inj [OF p(1) i, of k l] that l unfolding lst by auto
  show outside: "m' y = m y" if "page_of y \<noteq> p" for y
  proof -
    have other: "block_of y \<noteq> ?f k" if "k < ?n" for k
      using slot(2) [OF that] \<open>page_of y \<noteq> p\<close> page_of_block_of [of y] by metis
    have "block_of y \<notin> ?f ` {0..<l}"
    proof
      assume "block_of y \<in> ?f ` {0..<l}"
      then obtain k where "k < l" and "block_of y = ?f k"
        by auto
      then show False
        using other [of k] l(1) by simp
    qed
    moreover have "block_of y \<noteq> lst"
      using other [OF l(1)] unfolding lst .
    ultimately show ?thesis
      using same upd_other [OF blast] by (simp add: m')
  qed
  have link: "nxt m' (?f k) = ?f (Suc k)" if "Suc k < ?n" for k
  proof -
    have k: "k < l"
      using that l by simp
    have "nxt m' (?f k) = nxt m1 (?f k)"
      using slot(1) [of k] upd_other [OF blast] not_last [OF k] that by (intro nxt_block) (auto simp: m')
    then show ?thesis
      using next_eq [OF k] by simp
  qed
  have end_link: "nxt m' (?f l) = q"
    using upd_nxt [OF blast] by (simp add: m' lst)
  have "nxt m' x = nxt m x" if "x \<in> set rest" for x
    using rest(2) [OF that] outside by (intro nxt_block) auto
  then have "links (nxt m') q rest"
    using rest(1) links_cong [of rest "nxt m'" "nxt m"] by simp
  then show "links (nxt m') p (slots p (bucket_bytes i) @ rest)"
    using links_upt [of 0 ?n "nxt m'" ?f rest] n link slot_nonzero [OF p i] end_link
    unfolding l_def by (simp add: slots_slot)
qed

end

interpretation desc_pages: page_linker d_next set_next link_descs 0
  by unfold_locales (simp_all add: desc_updates_block bucket_bytes_def)

interpretation object_pages: page_linker load32 "\<lambda>d v m. store32 m d v"
    "\<lambda>m d n. link_objects m d (of_nat (bucket_bytes i)) n" i for i
  by unfold_locales (simp_all add: desc_updates_block)

section \<open>A page of descriptors\<close>

lemma view_insert_dpage:
  assumes "view_ok H" and "distinct xs" and "\<And>x. x \<in> set xs \<Longrightarrow> block_of x = x \<and> page_of x = p"
    and "p \<notin> hv_dpages H"
  shows "view_ok (H\<lparr>hv_free := xs @ hv_free H, hv_dpages := insert p (hv_dpages H)\<rparr>)"
proof -
  note view = view_okD [OF assms(1)]
  have "x \<notin> set (hv_free H)" "\<not> in_chain H i x" if "x \<in> set xs" for x i
    using assms(3) [OF that] assms(4) view(6,8) by auto
  then show ?thesis
    using assms(2,3) view unfolding view_ok_def in_chain_def by auto
qed

lemma in_chain_same:
  "hv_chain H' = hv_chain H \<Longrightarrow> in_chain H' = in_chain H"
  by (simp add: in_chain_def fun_eq_iff)

text \<open>Only the free list and the descriptor pages of the view change.\<close>

lemma heap_mem_free:
  assumes inv: "heap_mem m dir fb own H" and view: "view_ok H'" and free: "links (d_next m) fb' (hv_free H')"
    and same: "hv_chain H' = hv_chain H" "hv_objs H' = hv_objs H" and dpages: "hv_dpages H' \<subseteq> own"
    and apart: "\<And>i d. in_chain H i d \<Longrightarrow> d_page m d \<notin> hv_dpages H'"
  shows "heap_mem m dir fb' own H'" and "live m H' = live m H"
proof -
  have chain: "in_chain H' = in_chain H"
    using same(1) by (rule in_chain_same)
  show "heap_mem m dir fb' own H'"
  proof (rule heap_memI [OF view heap_memD(11) [OF inv] free])
    show "links (d_next m) (bucket_chain (dir ! i)) (hv_chain H' i)" if "i < 9" for i
      unfolding same by (rule heap_memD(3) [OF inv that])
    show "bucket_ok m i d (hv_objs H' d)" if "in_chain H' i d" for i d
      using that unfolding same chain by (rule heap_memD(4) [OF inv])
    show "d_page m d \<in> own - hv_dpages H'" if "in_chain H' i d" for i d
      using that heap_memD(5) [OF inv] apart unfolding chain by blast
    show "d = e" if "in_chain H' i d" "in_chain H' j e" "d_page m d = d_page m e" for i j d e
      using that unfolding chain by (rule heap_memD(7) [OF inv])
    show "hv_dpages H' \<subseteq> own"
      by (rule dpages)
    show "page_of p = p \<and> 0x100000 \<le> unat p" if "p \<in> own" for p
      using heap_memD(9,10) [OF inv that] ..
  qed
  show "live m H' = live m H"
    by (simp add: live_def chain same)
qed

lemma new_dpage_mem:
  assumes inv: "heap_mem m dir fb own H" and p: "page_of p = p" "0x100000 \<le> unat p" "p \<notin> own"
    and run: "link_descs m p (unat (PAGE_SIZE div 16) - 1) = (m1, d)"
  defines "m' \<equiv> set_next d fb m1"
    and "H' \<equiv> H\<lparr>hv_free := slots p 16 @ hv_free H, hv_dpages := insert p (hv_dpages H)\<rparr>"
  shows "heap_mem m' dir p (insert p own) H'" and "live m' H' = live m H"
    and "page_of y \<noteq> p \<Longrightarrow> m' y = m y"
proof -
  note view = view_okD [OF heap_memD(1) [OF inv]]
  have size: "bucket_bytes 0 = 16"
    by (simp add: bucket_bytes_def)
  have free: "block_of x = x \<and> page_of x \<noteq> p" if "x \<in> set (hv_free H)" for x
    using view(5,6) [OF that] heap_memD(8) [OF inv] p(3) by auto
  have run': "link_descs m p (4096 div bucket_bytes 0 - 1) = (m1, d)"
    using run by (simp add: size)
  note linked = desc_pages.link_page [OF p(1,2) _ run' meta_eq_to_obj_eq [OF m'_def] heap_memD(2) [OF inv] free]
  have links: "links (d_next m') p (slots p 16 @ hv_free H)"
    using linked(1) by (simp add: size)
  show out: "m' y = m y" if "page_of y \<noteq> p" for y
    using linked(2) [OF _ _ that] by simp
  have same: "m' y = m y" if "block_of y \<in> cells H" for y
  proof -
    have "page_of y \<in> own"
      using heap_mem_cells(2) [OF inv that] by simp
    then show ?thesis
      using p(3) by (intro out) auto
  qed
  have own: "\<forall>q \<in> insert p own. page_of q = q \<and> 0x100000 \<le> unat q"
    using p heap_memD(9,10) [OF inv] by auto
  note framed = heap_mem_same [OF inv same subset_insertI own]
  have slot: "block_of x = x \<and> page_of x = p" if "x \<in> set (slots p 16)" for x
    using slots_props [OF p(1), of 0 x] that by (simp add: size)
  have "p \<notin> hv_dpages H"
    using heap_memD(8) [OF inv] p(3) by auto
  then have view': "view_ok H'"
    using view_insert_dpage [OF heap_memD(1) [OF inv] _ slot] distinct_slots [OF p(1), of 0]
    by (simp add: H'_def size)
  have links': "links (d_next m') p (hv_free H')"
    using links by (simp add: H'_def)
  have dpages: "hv_dpages H' \<subseteq> insert p own"
    using heap_memD(8) [OF inv] by (auto simp: H'_def)
  have apart: "d_page m' e \<notin> hv_dpages H'" if e: "in_chain H i e" for i e
  proof -
    have "d_page m' e = d_page m e"
      using desc_block(1) [OF view(7) [OF e]] same cells_cases(2) [OF e] by blast
    then show ?thesis
      using heap_memD(5,6) [OF inv e] p(3) by (auto simp: H'_def)
  qed
  have chains: "hv_chain H' = hv_chain H" "hv_objs H' = hv_objs H"
    by (simp_all add: H'_def)
  note moved = heap_mem_free [OF framed(1) view' links' chains dpages apart]
  show "heap_mem m' dir p (insert p own) H'"
    by (rule moved(1))
  show "live m' H' = live m H"
    using moved(2) framed(2) by simp
qed

lemma pop_desc_mem:
  assumes inv: "heap_mem m dir fb own H" and free: "hv_free H = d # rest"
  defines "H' \<equiv> H\<lparr>hv_free := rest\<rparr>"
  shows "fb = d" and "heap_mem m dir (d_next m d) own H'" and "live m H' = live m H"
    and "block_of d = d" and "page_of d \<in> hv_dpages H" and "d \<notin> cells H'" and "d \<noteq> 0"
proof -
  note view = view_okD [OF heap_memD(1) [OF inv]]
  have d: "d \<in> set (hv_free H)"
    using free by simp
  show "block_of d = d" and page: "page_of d \<in> hv_dpages H"
    using view(5,6) [OF d] .
  show "fb = d" and "d \<noteq> 0"
    using heap_memD(2) [OF inv] free by simp_all
  have links: "links (d_next m) (d_next m d) (hv_free H')"
    using heap_memD(2) [OF inv] free by (simp add: H'_def)
  have view': "view_ok H'"
    using heap_memD(1) [OF inv] free unfolding view_ok_def H'_def by (auto simp: in_chain_def)
  have same: "hv_chain H' = hv_chain H" "hv_objs H' = hv_objs H" "hv_dpages H' \<subseteq> own"
    using heap_memD(8) [OF inv] by (simp_all add: H'_def)
  have apart: "d_page m e \<notin> hv_dpages H'" if "in_chain H i e" for i e
    using heap_memD(6) [OF inv that] by (simp add: H'_def)
  note moved = heap_mem_free [OF inv view' links same apart]
  show "heap_mem m dir (d_next m d) own H'"
    by (rule moved(1))
  show "live m H' = live m H"
    by (rule moved(2))
  have "d \<notin> set rest"
    using view(1) free by simp
  moreover have "\<not> in_chain H i d" for i
    using view(3) d by blast
  moreover have "d \<notin> set (hv_objs H e)" if e: "in_chain H i e" for i e
  proof
    assume "d \<in> set (hv_objs H e)"
    then have "d \<in> set (slots (d_page m e) (bucket_bytes i))"
      using heap_memD(4) [OF inv e] by (auto simp: bucket_ok_def)
    then have "page_of d \<notin> hv_dpages H"
      using heap_mem_obj(2,4) [OF inv e] by simp
    with page show False by simp
  qed
  ultimately show "d \<notin> cells H'"
    by (auto simp: cells_def H'_def in_chain_def)
qed

section \<open>A fresh bucket\<close>

lemma dir_update:
  assumes "map bucket_size dir = [16, 32, 64, 128, 256, 512, 1024, 2048, 4096, 0]" and "i < 9"
  shows "map bucket_size (dir[i := (dir ! i)\<lparr>bucket_chain := d\<rparr>]) = map bucket_size dir"
    and "j < 9 \<Longrightarrow> bucket_chain (dir[i := (dir ! i)\<lparr>bucket_chain := d\<rparr>] ! j) =
      (if j = i then d else bucket_chain (dir ! j))"
    and "bucket_size (dir ! i) = of_nat (bucket_bytes i)"
proof -
  have len: "length dir = 10"
    using arg_cong [OF assms(1), of length] by simp
  have "bucket_size (dir ! i) = map bucket_size dir ! i"
    using len assms(2) by simp
  also have "\<dots> = of_nat (bucket_bytes i)"
  proof -
    have "i = 0 \<or> i = 1 \<or> i = 2 \<or> i = 3 \<or> i = 4 \<or> i = 5 \<or> i = 6 \<or> i = 7 \<or> i = 8"
      using assms(2) by arith
    then show ?thesis
      unfolding assms(1) by (elim disjE) (simp_all add: bucket_bytes_def)
  qed
  finally show "bucket_size (dir ! i) = of_nat (bucket_bytes i)" .
  show "map bucket_size (dir[i := (dir ! i)\<lparr>bucket_chain := d\<rparr>]) = map bucket_size dir"
    using len assms(2) by (simp add: map_update list_update_same_conv)
  show "bucket_chain (dir[i := (dir ! i)\<lparr>bucket_chain := d\<rparr>] ! j) =
      (if j = i then d else bucket_chain (dir ! j))" if "j < 9"
    using that len assms(2) by (auto simp: nth_list_update)
qed

lemma new_bucket_mem:
  assumes inv: "heap_mem m dir fb own H" and d: "block_of d = d" "page_of d \<in> hv_dpages H" "d \<notin> cells H"
    and p: "page_of p = p" "0x100000 \<le> unat p" "p \<notin> own" and i: "i < 9"
    and fields: "d_page m d = p" "d_freeptr m d = p" "d_refcnt m d = 0"
    and run: "link_objects m p (of_nat (bucket_bytes i)) (4096 div bucket_bytes i - 1) = (m1, cp)"
  defines "m' \<equiv> set_next d (bucket_chain (dir ! i)) (store32 m1 cp 0)"
    and "dir' \<equiv> dir[i := (dir ! i)\<lparr>bucket_chain := d\<rparr>]"
    and "H' \<equiv> H\<lparr>hv_chain := (hv_chain H)(i := d # hv_chain H i),
      hv_objs := (hv_objs H)(d := slots p (bucket_bytes i))\<rparr>"
  shows "heap_mem m' dir' fb (insert p own) H'" and "live m' H' = live m H"
    and "page_of y \<noteq> p \<Longrightarrow> block_of y \<noteq> d \<Longrightarrow> m' y = m y"
    and "slots p (bucket_bytes i) \<noteq> []" and "in_chain H' i d"
proof -
  note view = view_okD [OF heap_memD(1) [OF inv]]
  let ?m2 = "store32 m1 cp 0"
  have linked: "links (load32 ?m2) p (slots p (bucket_bytes i) @ [])" "page_of y \<noteq> p \<Longrightarrow> ?m2 y = m y" for y
    by (rule object_pages.link_page [OF p(1,2) i run refl, where rest = "[]"]; simp)+
  have dp: "page_of d \<noteq> p" and pd: "p \<notin> hv_dpages H"
    using d(2) heap_memD(8) [OF inv] p(3) by auto
  show out: "m' y = m y" if "page_of y \<noteq> p" "block_of y \<noteq> d" for y
    using linked(2) [OF that(1)] desc_updates_block(2) [OF d(1) that(2)] by (simp add: m'_def)
  have d0: "d \<noteq> 0"
  proof
    assume "d = 0"
    then have "0 \<in> own"
      using d(2) heap_memD(8) [OF inv] by (auto simp: page_of_def)
    then show False
      using heap_memD(10) [OF inv, of 0] by simp
  qed
  have fields': "d_page m' d = p" "d_freeptr m' d = p" "d_refcnt m' d = 0"
    "d_next m' d = bucket_chain (dir ! i)"
  proof -
    have "?m2 y = m y" if "block_of y = d" for y
      using linked(2) [of y] that dp page_of_block_of [of y] by metis
    then show "d_page m' d = p" "d_freeptr m' d = p" "d_refcnt m' d = 0"
      "d_next m' d = bucket_chain (dir ! i)"
      using desc_block [OF d(1), of ?m2 m] fields by (simp_all add: m'_def)
  qed
  have same: "m' y = m y" if "block_of y \<in> cells H" for y
  proof (rule out)
    have "page_of y \<in> own"
      using heap_mem_cells(2) [OF inv that] by simp
    then show "page_of y \<noteq> p"
      using p(3) by auto
    show "block_of y \<noteq> d"
      using that d(3) by auto
  qed
  have own: "\<forall>q \<in> insert p own. page_of q = q \<and> 0x100000 \<le> unat q"
    using p heap_memD(9,10) [OF inv] by auto
  note framed = heap_mem_same [OF inv same subset_insertI own]
  have chain: "in_chain H' j e \<longleftrightarrow> j = i \<and> e = d \<or> in_chain H j e" for j e
    using i by (auto simp: H'_def in_chain_def)
  then show "in_chain H' i d" by simp
  have not_d: "e \<noteq> d" if "in_chain H j e" for j e
    using cells_cases(2) [OF that] d(3) by auto
  have page: "d_page m' e = d_page m e" if "in_chain H j e" for j e
    using desc_block(1) [OF view(7) [OF that]] same cells_cases(2) [OF that] by blast
  have page_p: "d_page m e \<noteq> p" if "in_chain H j e" for j e
    using heap_memD(5) [OF inv that] p(3) by auto
  have dir: "map bucket_size dir' = [16, 32, 64, 128, 256, 512, 1024, 2048, 4096, 0]"
    using dir_update(1) [OF heap_memD(11) [OF inv] i] heap_memD(11) [OF inv] by (simp add: dir'_def)
  have view': "view_ok H'"
  proof -
    have "d \<notin> set (hv_free H)" and "\<not> in_chain H j d" for j
      using d(3) cells_cases by auto
    then show ?thesis
      using view d(1,2) i unfolding view_ok_def chain
      by (auto simp: H'_def in_chain_def)
  qed
  have slots_ok: "links (load32 m') p (slots p (bucket_bytes i))"
  proof (rule objects.links_frame)
    show "links (load32 ?m2) p (slots p (bucket_bytes i))"
      using linked(1) by simp
    show "block_of x = x" if "x \<in> set (slots p (bucket_bytes i))" for x
      using slots_props(2) [OF p(1) i that] .
    show "m' y = ?m2 y" if "block_of y \<in> set (slots p (bucket_bytes i))" for y
    proof -
      have "page_of (block_of y) = p"
        using slots_props(1) [OF p(1) i that] .
      then have "block_of y \<noteq> d"
        using dp by auto
      then show ?thesis
        using desc_updates_block(2) [OF d(1)] by (simp add: m'_def)
    qed
  qed
  show "heap_mem m' dir' fb (insert p own) H'"
  proof (rule heap_memI [OF view' dir])
    show "links (d_next m') fb (hv_free H')"
      using heap_memD(2) [OF framed(1)] by (simp add: H'_def)
    show "links (d_next m') (bucket_chain (dir' ! j)) (hv_chain H' j)" if "j < 9" for j
      using heap_memD(3) [OF framed(1) that] dir_update(2) [OF heap_memD(11) [OF inv] i that, of d] d0 fields'(4)
      by (auto simp: dir'_def H'_def)
    show "bucket_ok m' j e (hv_objs H' e)" if "in_chain H' j e" for j e
    proof (cases "e = d")
      case True
      then have "j = i"
        using that not_d [of j e] unfolding chain by auto
      then show ?thesis
        using True slots_ok distinct_slots [OF p(1) i] fields' by (simp add: H'_def bucket_ok_def)
    next
      case False
      then show ?thesis
        using that heap_memD(4) [OF framed(1), of j e] unfolding chain by (simp add: H'_def)
    qed
    show "d_page m' e \<in> insert p own - hv_dpages H'" if "in_chain H' j e" for j e
      using that fields'(1) pd page [of j e] heap_memD(5,6) [OF inv, of j e] unfolding chain
      by (auto simp: H'_def)
    show "e = f" if "in_chain H' j e" "in_chain H' k f" "d_page m' e = d_page m' f" for j k e f
      using that(1,2) unfolding chain
    proof (elim disjE conjE)
      assume e: "in_chain H j e" and f: "in_chain H k f"
      then show ?thesis
        using heap_memD(7) [OF inv e f] page that(3) by metis
    qed (use that(3) page page_p fields'(1) in metis)+
    show "hv_dpages H' \<subseteq> insert p own"
      using heap_memD(8) [OF inv] by (auto simp: H'_def)
    show "page_of q = q \<and> 0x100000 \<le> unat q" if "q \<in> insert p own" for q
      using own that by blast
  qed
  have "(x, n) \<in> live m' H' \<longleftrightarrow> (x, n) \<in> live m H" for x n
  proof
    assume "(x, n) \<in> live m' H'"
    then obtain j e where e: "in_chain H' j e" "n = bucket_bytes j"
      "x \<in> set (slots (d_page m' e) (bucket_bytes j))" "x \<notin> set (hv_objs H' e)"
      unfolding live_iff by blast
    have "e \<noteq> d"
      using e(1,3,4) fields'(1) not_d [of j e] unfolding chain by (auto simp: H'_def)
    then have "in_chain H j e"
      using e(1) unfolding chain by simp
    then show "(x, n) \<in> live m H"
      using e page [of j e] \<open>e \<noteq> d\<close> unfolding live_iff
      by (intro exI [of _ j] exI [of _ e]) (simp add: H'_def)
  next
    assume "(x, n) \<in> live m H"
    then obtain j e where e: "in_chain H j e" "n = bucket_bytes j"
      "x \<in> set (slots (d_page m e) (bucket_bytes j))" "x \<notin> set (hv_objs H e)"
      unfolding live_iff by blast
    then show "(x, n) \<in> live m' H'"
      using page [of j e] not_d [of j e] chain [of j e] unfolding live_iff
      by (intro exI [of _ j] exI [of _ e]) (simp add: H'_def)
  qed
  then show "live m' H' = live m H"
    by auto
  show "slots p (bucket_bytes i) \<noteq> []"
    using length_slots [of p "bucket_bytes i"] bucket_bytes_props(5) [OF i] by (metis less_irrefl list.size(3))
qed

section \<open>Giving an object back\<close>

lemma live_not_cell:
  assumes inv: "heap_mem m dir fb own H" and d: "in_chain H i d"
    and x: "x \<in> set (slots (d_page m d) (bucket_bytes i))" "x \<notin> set (hv_objs H d)"
  shows "x \<notin> cells H"
proof
  assume "x \<in> cells H"
  note view = view_okD [OF heap_memD(1) [OF inv]]
  have page: "page_of x \<notin> hv_dpages H"
    using heap_mem_obj(2,4) [OF inv d x(1)] by simp
  from \<open>x \<in> cells H\<close> consider "x \<in> set (hv_free H)" | j where "in_chain H j x"
    | j e where "in_chain H j e" "x \<in> set (hv_objs H e)"
    by (auto simp: cells_def)
  then show False
  proof cases
    case 1
    then show ?thesis
      using view(6) page by simp
  next
    case 2
    then show ?thesis
      using view(8) page by simp
  next
    case 3
    then have "x \<in> set (slots (d_page m e) (bucket_bytes j))"
      using heap_memD(4) [OF inv 3(1)] by (auto simp: bucket_ok_def)
    then show ?thesis
      using slot_owner [OF inv d 3(1) x(1)] 3(2) x(2) by simp
  qed
qed

lemma give_object_mem:
  assumes inv: "heap_mem m dir fb own H" and d: "in_chain H i d"
    and x: "x \<in> set (slots (d_page m d) (bucket_bytes i))" "x \<notin> set (hv_objs H d)"
  defines "m' \<equiv> set_refcnt d (d_refcnt m d - 1) (set_freeptr d x (store32 m x (d_freeptr m d)))"
    and "H' \<equiv> H\<lparr>hv_objs := (hv_objs H)(d := x # hv_objs H d)\<rparr>"
  shows "heap_mem m' dir fb own H'" and "live m' H' = live m H - {(x, bucket_bytes i)}"
    and "0 < unat (d_refcnt m d)" and "d_page m' d = d_page m d"
    and "block_of y \<noteq> d \<Longrightarrow> \<not> in_range x 4 y \<Longrightarrow> m' y = m y"
proof -
  note view = view_okD [OF heap_memD(1) [OF inv]]
  have i: "i < 9"
    using d by (simp add: in_chain_def)
  have ok: "bucket_ok m i d (hv_objs H d)"
    using heap_memD(4) [OF inv d] .
  have block: "block_of d = d" "block_of x = x"
    using view(7) [OF d] heap_mem_obj(1) [OF inv d x(1)] by simp_all
  have xd: "x \<noteq> d"
    using heap_mem_obj(2,4) [OF inv d x(1)] view(8) [OF d] by auto
  have not_d: "z \<noteq> d" if "z \<in> set (slots (d_page m d) (bucket_bytes i))" for z
    using heap_mem_obj(2,4) [OF inv d that] view(8) [OF d] by auto
  show "m' y = m y" if "block_of y \<noteq> d" "\<not> in_range x 4 y" for y
    using that desc_updates_block [OF block(1) that(1)] by (simp add: m'_def store32_other)
  have same: "m' y = m y" if "block_of y \<noteq> d" "block_of y \<noteq> x" for y
    using that desc_updates_block(6) [OF block(2) that(2)] desc_updates_block [OF block(1) that(1)]
    by (simp add: m'_def)
  have same_cells: "m' y = m y" if "block_of y \<in> cells H - {d}" for y
    using that live_not_cell [OF inv d x] by (intro same) auto
  have fields: "d_page m' d = d_page m d" "d_next m' d = d_next m d" "d_freeptr m' d = x"
    "d_refcnt m' d = d_refcnt m d - 1"
    using desc_block [OF block(1), of "store32 m x (d_freeptr m d)" m]
      desc_updates_block(6) [OF block(2)] xd
    by (auto simp: m'_def)
  show "d_page m' d = d_page m d"
    by (rule fields(1))
  have links: "links (load32 m') x (x # hv_objs H d)"
  proof -
    have "load32 m' x = load32 (store32 m x (d_freeptr m d)) x"
      using desc_updates_block [OF block(1)] xd
      by (intro objects.nxt_block [OF block(2)]) (auto simp: m'_def)
    moreover have "links (load32 m') (d_freeptr m d) (hv_objs H d)"
    proof (rule objects.links_frame)
      show "links (load32 m) (d_freeptr m d) (hv_objs H d)"
        using ok by (simp add: bucket_ok_def)
      show "block_of z = z" if "z \<in> set (hv_objs H d)" for z
        using heap_mem_obj(1) [OF inv d] ok that by (auto simp: bucket_ok_def)
      show "m' y = m y" if "block_of y \<in> set (hv_objs H d)" for y
        using not_d ok that x(2) by (intro same) (auto simp: bucket_ok_def)
    qed
    moreover have "x \<noteq> 0"
    proof
      assume "x = 0"
      then have "0 \<in> own"
        using heap_mem_obj(2,3) [OF inv d x(1)] by (simp add: page_of_def)
      then show False
        using heap_memD(10) [OF inv, of 0] by simp
    qed
    ultimately show ?thesis by simp
  qed
  have count: "unat (d_refcnt m d) + length (hv_objs H d) = 4096 div bucket_bytes i"
    and dist: "distinct (hv_objs H d)"
    and sub: "set (hv_objs H d) \<subseteq> set (slots (d_page m d) (bucket_bytes i))"
    using ok by (simp_all add: bucket_ok_def)
  have "length (x # hv_objs H d) \<le> 4096 div bucket_bytes i"
  proof -
    have "card (set (x # hv_objs H d)) \<le> card (set (slots (d_page m d) (bucket_bytes i)))"
      using sub x(1) by (intro card_mono) auto
    also have "\<dots> \<le> length (slots (d_page m d) (bucket_bytes i))"
      by (rule card_length)
    finally show ?thesis
      using distinct_card [of "x # hv_objs H d"] dist x(2) by simp
  qed
  with count show pos: "0 < unat (d_refcnt m d)"
    by simp
  then have "unat (d_refcnt m d - 1) = unat (d_refcnt m d) - 1"
    using unat_sub_small [of 1 "d_refcnt m d"] by simp
  then have ok': "bucket_ok m' i d (x # hv_objs H d)"
    using links count dist sub x pos fields by (simp add: bucket_ok_def)
  show "heap_mem m' dir fb own H'"
    unfolding H'_def by (rule heap_mem_objs(1) [OF inv d same_cells fields(1,2) ok'])
  have page: "d_page m' e = d_page m e" if "in_chain H j e" for j e
    using heap_mem_objs(2) [OF inv d _ fields(1,2) ok' that] same_cells by blast
  have chain: "in_chain H' j e = in_chain H j e" for j e
    by (simp add: H'_def in_chain_def)
  have "(y, n) \<in> live m' H' \<longleftrightarrow> (y, n) \<in> live m H - {(x, bucket_bytes i)}" for y n
  proof
    assume "(y, n) \<in> live m' H'"
    then obtain j e where e: "in_chain H j e" "n = bucket_bytes j"
      "y \<in> set (slots (d_page m e) (bucket_bytes j))" "y \<notin> set (hv_objs H' e)"
      unfolding live_iff chain using page by metis
    then have "(y, n) \<in> live m H"
      unfolding live_iff by (intro exI [of _ j] exI [of _ e]) (auto simp: H'_def split: if_splits)
    moreover have "y \<noteq> x"
    proof
      assume "y = x"
      then have "e = d"
        using slot_owner [OF inv d e(1) x(1)] e(3) by simp
      then show False
        using e(4) \<open>y = x\<close> by (simp add: H'_def)
    qed
    ultimately show "(y, n) \<in> live m H - {(x, bucket_bytes i)}"
      by simp
  next
    assume y: "(y, n) \<in> live m H - {(x, bucket_bytes i)}"
    then have "(y, n) \<in> live m H"
      by simp
    then obtain j e where e: "in_chain H j e" "n = bucket_bytes j"
      "y \<in> set (slots (d_page m e) (bucket_bytes j))" "y \<notin> set (hv_objs H e)"
      unfolding live_iff by blast
    have "y \<noteq> x \<or> e \<noteq> d"
      using e(1,2) y view(4) [OF d] by auto
    then show "(y, n) \<in> live m' H'"
      using e page [OF e(1)] unfolding live_iff chain
      by (intro exI [of _ j] exI [of _ e]) (auto simp: H'_def)
  qed
  then show "live m' H' = live m H - {(x, bucket_bytes i)}"
    by auto
qed

section \<open>Dropping an empty bucket\<close>

text \<open>The descriptor \<open>d\<close> leaves its chain; its page is then in no use.\<close>

lemma unlink_mem:
  assumes inv: "heap_mem m dir fb own H" and d: "in_chain H i d"
    and all: "set (hv_objs H d) = set (slots (d_page m d) (bucket_bytes i))"
    and same: "\<And>y. block_of y \<in> cells H \<Longrightarrow> block_of y \<notin> set (hv_chain H i) \<Longrightarrow> m' y = m y"
    and fields: "\<And>e. e \<in> set (hv_chain H i) \<Longrightarrow>
      d_page m' e = d_page m e \<and> d_freeptr m' e = d_freeptr m e \<and> d_refcnt m' e = d_refcnt m e"
    and dir': "map bucket_size dir' = map bucket_size dir"
      "\<And>j. j < 9 \<Longrightarrow> j \<noteq> i \<Longrightarrow> bucket_chain (dir' ! j) = bucket_chain (dir ! j)"
    and chain_i: "links (d_next m') (bucket_chain (dir' ! i)) (remove1 d (hv_chain H i))"
  defines "H' \<equiv> H\<lparr>hv_chain := (hv_chain H)(i := remove1 d (hv_chain H i))\<rparr>"
  shows "heap_mem m' dir' fb (own - {d_page m d}) H'" and "live m' H' = live m H" and "d \<notin> cells H'"
proof -
  note view = view_okD [OF heap_memD(1) [OF inv]]
  have i: "i < 9" and dist: "distinct (hv_chain H i)"
    using d view(2) by (simp_all add: in_chain_def)
  have chain: "in_chain H' j e \<longleftrightarrow> in_chain H j e \<and> e \<noteq> d" for j e
  proof -
    have "in_chain H j d \<longleftrightarrow> j = i"
      using view(4) [OF d] d by blast
    then show ?thesis
      using i set_remove1_eq [OF dist] by (auto simp: H'_def in_chain_def)
  qed
  have block_chain: "block_of y \<in> cells H" if "block_of y = e" "in_chain H j e" for y e j
    using that cells_cases(2) by simp
  have desc: "d_page m' e = d_page m e \<and> d_freeptr m' e = d_freeptr m e \<and> d_refcnt m' e = d_refcnt m e
      \<and> (j \<noteq> i \<longrightarrow> d_next m' e = d_next m e)" if e: "in_chain H j e" for j e
  proof (cases "e \<in> set (hv_chain H i)")
    case True
    then have "in_chain H i e"
      using i by (simp add: in_chain_def)
    then show ?thesis
      using fields [OF True] view(4) [OF e] by auto
  next
    case False
    then show ?thesis
      using desc_block [OF view(7) [OF e], of m' m] same block_chain [OF _ e] by simp
  qed
  have not_chain: "x \<notin> set (hv_chain H i)" if "page_of x \<notin> hv_dpages H" for x
    using that view(8) [of i x] i by (auto simp: in_chain_def)
  have objs: "links (load32 m') (d_freeptr m e) (hv_objs H e)" if e: "in_chain H j e" for j e
  proof (rule objects.links_frame)
    have ok: "links (load32 m) (d_freeptr m e) (hv_objs H e)"
      "set (hv_objs H e) \<subseteq> set (slots (d_page m e) (bucket_bytes j))"
      using heap_memD(4) [OF inv e] by (simp_all add: bucket_ok_def)
    then show "links (load32 m) (d_freeptr m e) (hv_objs H e)"
      by simp
    show "block_of x = x" if "x \<in> set (hv_objs H e)" for x
      using heap_mem_cells(1) [OF inv cells_cases(3) [OF e that]] .
    show "m' y = m y" if y: "block_of y \<in> set (hv_objs H e)" for y
    proof (rule same)
      show "block_of y \<in> cells H"
        using cells_cases(3) [OF e y] .
      show "block_of y \<notin> set (hv_chain H i)"
        using heap_mem_obj(2,4) [OF inv e, of "block_of y"] ok(2) y by (intro not_chain) auto
    qed
  qed
  have free: "links (d_next m') fb (hv_free H)"
  proof (rule descs.links_frame [OF heap_memD(2) [OF inv] view(5)])
    fix y
    assume y: "block_of y \<in> set (hv_free H)"
    have "block_of y \<notin> set (hv_chain H i)"
      using y view(3) [of i "block_of y"] i by (auto simp: in_chain_def)
    then show "m' y = m y"
      using same cells_cases(1) [OF y] by simp
  qed
  have view': "view_ok H'"
    unfolding view_ok_def chain
  proof (intro conjI allI impI)
    show "distinct (hv_chain H' j)" if "j < 9" for j
      using view(2) [OF that] dist by (auto simp: H'_def distinct_remove1)
  qed (use view in \<open>auto simp: H'_def\<close>)
  show "heap_mem m' dir' fb (own - {d_page m d}) H'"
  proof (rule heap_memI [OF view'])
    show "map bucket_size dir' = [16, 32, 64, 128, 256, 512, 1024, 2048, 4096, 0]"
      using dir'(1) heap_memD(11) [OF inv] by simp
    show "links (d_next m') fb (hv_free H')"
      using free by (simp add: H'_def)
    show "links (d_next m') (bucket_chain (dir' ! j)) (hv_chain H' j)" if "j < 9" for j
    proof (cases "j = i")
      case True
      then show ?thesis
        using chain_i by (simp add: H'_def)
    next
      case False
      have "links (d_next m') (bucket_chain (dir ! j)) (hv_chain H j)"
        using heap_memD(3) [OF inv that] links_cong [of "hv_chain H j" "d_next m'" "d_next m"] desc [of j]
          False that by (simp add: in_chain_def)
      then show ?thesis
        using False dir'(2) [OF that] by (simp add: H'_def)
    qed
    show "bucket_ok m' j e (hv_objs H' e)" if "in_chain H' j e" for j e
      using that heap_memD(4) [OF inv, of j e] objs [of j e] desc [of j e] unfolding chain
      by (simp add: bucket_ok_def H'_def)
    show "d_page m' e \<in> own - {d_page m d} - hv_dpages H'" if "in_chain H' j e" for j e
      using that heap_memD(5,6) [OF inv, of j e] heap_memD(7) [OF inv, of j e i d] desc [of j e] d
      unfolding chain by (auto simp: H'_def)
    show "e = f" if "in_chain H' j e" "in_chain H' k f" "d_page m' e = d_page m' f" for j k e f
      using that heap_memD(7) [OF inv, of j e k f] desc [of j e] desc [of k f] unfolding chain by metis
    show "hv_dpages H' \<subseteq> own - {d_page m d}"
      using heap_memD(8) [OF inv] heap_memD(6) [OF inv d] by (auto simp: H'_def)
    show "page_of p = p \<and> 0x100000 \<le> unat p" if "p \<in> own - {d_page m d}" for p
      using heap_memD(9,10) [OF inv] that by blast
  qed
  have "(x, n) \<in> live m' H' \<longleftrightarrow> (x, n) \<in> live m H" for x n
  proof
    assume "(x, n) \<in> live m' H'"
    then obtain j e where "in_chain H' j e" "n = bucket_bytes j"
      "x \<in> set (slots (d_page m' e) (bucket_bytes j))" "x \<notin> set (hv_objs H' e)"
      unfolding live_iff by blast
    then show "(x, n) \<in> live m H"
      using desc [of j e] unfolding live_iff chain
      by (intro exI [of _ j] exI [of _ e]) (simp add: H'_def)
  next
    assume "(x, n) \<in> live m H"
    then obtain j e where e: "in_chain H j e" "n = bucket_bytes j"
      "x \<in> set (slots (d_page m e) (bucket_bytes j))" "x \<notin> set (hv_objs H e)"
      unfolding live_iff by blast
    have "e \<noteq> d"
      using e(1,3,4) all view(4) [OF d] by auto
    then show "(x, n) \<in> live m' H'"
      using e desc [of j e] unfolding live_iff chain
      by (intro exI [of _ j] exI [of _ e]) (simp add: H'_def)
  qed
  then show "live m' H' = live m H"
    by auto
  have "d \<notin> set (hv_free H)"
    using view(3) [OF d] .
  moreover have "d \<notin> set (hv_objs H e)" if e: "in_chain H j e" for j e
  proof
    assume "d \<in> set (hv_objs H e)"
    then have "page_of d \<notin> hv_dpages H"
      using heap_memD(4) [OF inv e] heap_mem_obj(2,4) [OF inv e] by (auto simp: bucket_ok_def)
    then show False
      using view(8) [OF d] by simp
  qed
  ultimately show "d \<notin> cells H'"
    unfolding cells_def chain by (auto simp: H'_def)
qed

text \<open>A descriptor not in use goes to the head of the free list.\<close>

lemma push_desc_mem:
  assumes inv: "heap_mem m dir fb own H" and d: "block_of d = d" "page_of d \<in> hv_dpages H" "d \<notin> cells H"
  defines "H' \<equiv> H\<lparr>hv_free := d # hv_free H\<rparr>"
  shows "heap_mem (set_next d fb m) dir d own H'" and "live (set_next d fb m) H' = live m H"
proof -
  let ?m = "set_next d fb m"
  have same: "?m y = m y" if "block_of y \<in> cells H" for y
    using that d(3) by (intro desc_updates_block(2) [OF d(1)]) auto
  have own: "\<forall>p\<in>own. page_of p = p \<and> 0x100000 \<le> unat p"
    using heap_memD(9,10) [OF inv] by blast
  note framed = heap_mem_same [OF inv same subset_refl own]
  have "d \<noteq> 0"
  proof
    assume "d = 0"
    then have "0 \<in> own"
      using d(2) heap_memD(8) [OF inv] by (auto simp: page_of_def)
    then show False
      using heap_memD(10) [OF inv, of 0] by simp
  qed
  then have links: "links (d_next ?m) d (hv_free H')"
    using heap_memD(2) [OF framed(1)] by (simp add: H'_def)
  have view': "view_ok H'"
  proof -
    have "d \<notin> set (hv_free H)" and "\<not> in_chain H j d" for j
      using d(3) cells_cases by auto
    then show ?thesis
      using heap_memD(1) [OF inv] d(1,2) unfolding view_ok_def
      by (auto simp: H'_def in_chain_def)
  qed
  have same': "hv_chain H' = hv_chain H" "hv_objs H' = hv_objs H" "hv_dpages H' \<subseteq> own"
    using heap_memD(8) [OF inv] by (simp_all add: H'_def)
  have apart: "d_page ?m e \<notin> hv_dpages H'" if "in_chain H i e" for i e
    using heap_memD(6) [OF framed(1) that] by (simp add: H'_def)
  note moved = heap_mem_free [OF framed(1) view' links same' apart]
  show "heap_mem ?m dir d own H'"
    by (rule moved(1))
  show "live ?m H' = live m H"
    using moved(2) framed(2) by simp
qed

end
