(* ===== verification/Memory_Spec.thy ===== *)
theory Memory_Spec
  imports Phys_Memory
begin

text \<open>
  Properties of the page allocator. The abstract state is the set of page numbers whose map byte is
  set. \<open>get_free_page\<close> and \<open>free_page\<close> refine insertion and removal on that set; the locale
  \<open>page_provider\<close> states what a caller relies on and is interpreted on the two functions. Further
  theorems show where the use of the counter \<open>bitmap_item_used\<close> as the start of the search loses
  pages, and what freeing a wrong address does.
\<close>

section \<open>Messages\<close>

lemma page_format_text:
  assumes "0 \<notin> set f" and "length f \<le> 100"
  shows "\<exists>out. vsprintf m page_format [Lit f, Slot a, Slot n] = Some (out, m) \<and> length out \<le> 1023"
  using assms length_hex_upper [of a] length_dec_signed [of n]
  by (simp add: page_format_def vsprintf_def format_simps [simplified])

lemma page_message:
  assumes "log_inv s" and "0 \<notin> set f" and "length f \<le> 100"
  obtains s' where "print_message page_format [Lit f, Slot a, Slot n] s = Some s'"
    and "log_inv s'" and "log_frame s s'" and "iflag s'"
  using page_format_text [OF assms(2,3), of "ram s" a n] printk_message [OF assms(1)] by blast

lemma text_message:
  assumes "log_inv s" and "ch CHR ''%'' \<notin> set f" and "length f \<le> 1023"
  obtains s' where "print_message f args s = Some s'"
    and "log_inv s'" and "log_frame s s'" and "iflag s'"
  using vsprintf_text [OF assms(2)] assms(3) printk_message [OF assms(1)] by blast

lemma printk_more_memory:
  "printk_state.more s = printk_state.more (t :: 'a memory_state_scheme) \<Longrightarrow>
   g_physics_memory s = g_physics_memory t \<and> g_physics_memory_map s = g_physics_memory_map t
   \<and> memory_state.more s = memory_state.more t"
  by (cases s rule: memory_state.cases_scheme, cases t rule: memory_state.cases_scheme) simp

lemma log_frame_memory:
  fixes s s' :: "'a memory_state_scheme"
  assumes "log_frame s s'"
  shows "g_physics_memory s' = g_physics_memory s" "g_physics_memory_map s' = g_physics_memory_map s"
    "memory_state.more s' = memory_state.more s"
  using assms printk_more_memory [of s' s] by (simp_all add: log_frame_def)

section \<open>The set of allocated pages\<close>

definition npages :: "'a memory_state_scheme \<Rightarrow> nat" where
  "npages s = unat (info_pages_total (g_physics_memory s))"

definition used :: "'a memory_state_scheme \<Rightarrow> nat" where
  "used s = unat (bitmap_item_used (g_physics_memory_map s))"

definition page_map :: "nat \<Rightarrow> u32" where
  "page_map i = 0x10000 + of_nat i"

definition allocated :: "'a memory_state_scheme \<Rightarrow> nat set" where
  "allocated s = {i. i < npages s \<and> ram s (page_map i) \<noteq> 0}"

definition page_addr :: "nat \<Rightarrow> u32" where
  "page_addr i = 0x100000 + of_nat (4096 * i)"

text \<open>
  A usable allocator: both structures describe memory from 1 MB on, the map of fewer than 65536
  pages ends below the page directory at \<open>0x20000\<close>.
\<close>

definition mem_wf :: "'a memory_state_scheme \<Rightarrow> bool" where
  "mem_wf s \<longleftrightarrow> log_inv s
     \<and> addr_start (g_physics_memory s) = VALID_MEMORY_FROM
     \<and> addr_base (g_physics_memory_map s) = VALID_MEMORY_FROM
     \<and> map_ptr (g_physics_memory_map s) = 0x10000
     \<and> npages s < 0x10000
     \<and> (unat (addr_end (g_physics_memory s)) - 0x100000) div 4096 = npages s
     \<and> 0x100000 \<le> unat (addr_end (g_physics_memory s))"

text \<open>What the page operations may change: the map, the video window and their own counters.\<close>

definition mem_frame :: "'a memory_state_scheme \<Rightarrow> 'a memory_state_scheme \<Rightarrow> bool" where
  "mem_frame s s' \<longleftrightarrow>
     (\<forall>x. \<not> vga x \<longrightarrow> \<not> in_range 0x10000 0x10000 x \<longrightarrow> ram s' x = ram s x)
     \<and> g_physics_memory s' = g_physics_memory s \<and> memory_state.more s' = memory_state.more s"

lemma mem_frame_refl [simp]: "mem_frame s s"
  by (simp add: mem_frame_def)

lemma mem_frame_trans: "mem_frame s t \<Longrightarrow> mem_frame t u \<Longrightarrow> mem_frame s u"
  by (simp add: mem_frame_def)

lemma mem_frame_npages: "mem_frame s s' \<Longrightarrow> npages s' = npages s"
  by (simp add: mem_frame_def npages_def)

lemma page_map_inj: "i < 0x10000 \<Longrightarrow> j < 0x10000 \<Longrightarrow> page_map i = page_map j \<longleftrightarrow> i = j"
  unfolding page_map_def by (rule word_offset_unique) simp_all

lemma page_map_range: "i < 0x10000 \<Longrightarrow> in_range 0x10000 0x10000 (page_map i)"
  unfolding page_map_def by simp

lemma page_map_not_vga: "i < 0x10000 \<Longrightarrow> \<not> vga (page_map i)"
  using unat_add_small [of "0x10000 :: u32" i] by (simp add: page_map_def vga_nat)

lemma unat_page_addr: "i < 0x10000 \<Longrightarrow> unat (page_addr i) = 0x100000 + 4096 * i"
  unfolding page_addr_def using unat_add_small [of "0x100000 :: u32" "4096 * i"] by simp

lemma page_addr_inj: "i < 0x10000 \<Longrightarrow> j < 0x10000 \<Longrightarrow> page_addr i = page_addr j \<longleftrightarrow> i = j"
  by (metis unat_page_addr add_left_imp_eq mult_left_cancel zero_neq_numeral)

lemma page_addr_nonzero: "i < 0x10000 \<Longrightarrow> page_addr i \<noteq> 0"
  using unat_page_addr [of i] by fastforce

text \<open>A message leaves all of it as it is.\<close>

lemma log_frame_mem:
  fixes s s' :: "'a memory_state_scheme"
  assumes "log_frame s s'" and "log_inv s'" and "mem_wf s"
  shows "mem_wf s'" "allocated s' = allocated s" "used s' = used s" "mem_frame s s'"
proof -
  note same = log_frame_memory [OF assms(1)]
  show "mem_wf s'"
    using assms same by (simp add: mem_wf_def npages_def)
  have "npages s < 0x10000"
    using assms(3) by (simp add: mem_wf_def)
  then have "ram s' (page_map i) = ram s (page_map i)" if "i < npages s" for i
    using that log_frame_ram [OF assms(1) page_map_not_vga [of i]] by simp
  then show "allocated s' = allocated s"
    using same by (auto simp: allocated_def npages_def)
  show "used s' = used s"
    using same by (simp add: used_def)
  show "mem_frame s s'"
    using same log_frame_ram [OF assms(1)] by (simp add: mem_frame_def)
qed

section \<open>The search\<close>

lemma find_free_result:
  "(case find_free m p n i of
      None \<Rightarrow> \<forall>k. i \<le> k \<and> k < n \<longrightarrow> m (p + k) \<noteq> 0
    | Some j \<Rightarrow> i \<le> j \<and> j < n \<and> m (p + j) = 0 \<and> (\<forall>k. i \<le> k \<and> k < j \<longrightarrow> m (p + k) \<noteq> 0))"
proof (induction m p n i rule: find_free.induct)
  case (1 m p n i)
  have split: "i \<le> k \<longleftrightarrow> k = i \<or> i + 1 \<le> k" if "i < n" for k
  proof -
    have "unat (i + 1) = unat i + 1"
      using that unat_add_small [of i 1] unat_less_u32 [of n] by (simp add: word_less_nat_alt)
    then show ?thesis
      by (auto simp: word_le_nat_alt word_unat_eq_iff)
  qed
  show ?case
  proof (cases "i < n \<and> m (p + i) \<noteq> 0")
    case True
    then have "find_free m p n i = find_free m p n (i + 1)"
      by (subst find_free.simps) simp
    with 1 True split show ?thesis
      by (auto split: option.splits)
  next
    case False
    then show ?thesis
      by (subst find_free.simps) (auto simp: word_less_nat_alt word_le_nat_alt)
  qed
qed

text \<open>The pages that the search can still find.\<close>

definition avail :: "'a memory_state_scheme \<Rightarrow> nat set" where
  "avail s = {used s..<npages s} - allocated s"

lemma finite_avail [simp]: "finite (avail s)"
  by (simp add: avail_def)

lemma avail_empty: "avail s = {} \<longleftrightarrow> {used s..<npages s} \<subseteq> allocated s"
  by (auto simp: avail_def)

section \<open>The operations on the set of pages\<close>

text \<open>Setting the byte of page \<open>i\<close>, as both operations do before they log.\<close>

lemma allocated_update:
  fixes s :: "'a memory_state_scheme" and v :: u8 and pm :: physics_memory_map
  assumes "mem_wf s" and "i < 0x10000"
  defines "t \<equiv> s\<lparr>ram := (ram s)(page_map i := v), g_physics_memory_map := pm\<rparr>"
  assumes "addr_base pm = addr_base (g_physics_memory_map s)" and "map_ptr pm = map_ptr (g_physics_memory_map s)"
  shows "mem_wf t" "mem_frame s t" "used t = unat (bitmap_item_used pm)"
    "allocated t = (if v \<noteq> 0 then (if i < npages s then insert i (allocated s) else allocated s)
      else allocated s - {i})"
proof -
  show "mem_wf t"
    using assms by (simp add: mem_wf_def log_inv_def con_inv_def npages_def)
  show "mem_frame s t"
    using assms page_map_range [of i] by (auto simp: mem_frame_def)
  show "used t = unat (bitmap_item_used pm)"
    by (simp add: t_def used_def)
  have "page_map j = page_map i \<longleftrightarrow> j = i" if "j < npages s" for j
    using that assms(1,2) by (intro page_map_inj) (simp_all add: mem_wf_def)
  then show "allocated t = (if v \<noteq> 0 then (if i < npages s then insert i (allocated s) else allocated s)
      else allocated s - {i})"
    by (auto simp: t_def allocated_def npages_def)
qed

lemma find_free_page:
  fixes s :: "'a memory_state_scheme"
  assumes "mem_wf s"
  defines "r \<equiv> find_free (ram s) (map_ptr (g_physics_memory_map s))
    (info_pages_total (g_physics_memory s)) (bitmap_item_used (g_physics_memory_map s))"
  shows "r = None \<Longrightarrow> {used s..<npages s} \<subseteq> allocated s"
    and "r = Some j \<Longrightarrow> unat j < npages s \<and> unat j \<notin> allocated s \<and> used s \<le> unat j
      \<and> {used s..<unat j} \<subseteq> allocated s"
proof -
  have small: "npages s < 0x10000" and ptr: "map_ptr (g_physics_memory_map s) = 0x10000"
    using assms(1) by (simp_all add: mem_wf_def)
  note result = find_free_result [where m = "ram s" and p = "map_ptr (g_physics_memory_map s)"
      and n = "info_pages_total (g_physics_memory s)" and i = "bitmap_item_used (g_physics_memory_map s)"]
  have word: "\<exists>w :: u32. unat w = k \<and> w = of_nat k" if "k < npages s" for k
    using that small unat_of_nat_small [of k, where 'a = 32] by (intro exI [of _ "of_nat k :: u32"]) simp
  show "{used s..<npages s} \<subseteq> allocated s" if "r = None"
  proof
    fix k
    assume k: "k \<in> {used s..<npages s}"
    with word obtain w :: u32 where "unat w = k" and "w = of_nat k"
      by auto
    then show "k \<in> allocated s"
      using that result k ptr
      by (auto simp: r_def allocated_def page_map_def used_def npages_def word_less_nat_alt word_le_nat_alt)
  qed
  show "unat j < npages s \<and> unat j \<notin> allocated s \<and> used s \<le> unat j \<and> {used s..<unat j} \<subseteq> allocated s"
    if "r = Some j"
  proof -
    have j: "unat j < npages s" "used s \<le> unat j" "ram s (page_map (unat j)) = 0"
      using that result ptr
      by (auto simp: r_def page_map_def used_def npages_def word_less_nat_alt word_le_nat_alt)
    have "k \<in> allocated s" if k: "k \<in> {used s..<unat j}" for k
    proof -
      from word k j obtain w :: u32 where "unat w = k" and "w = of_nat k"
        by (metis atLeastLessThan_iff order_less_trans)
      then show ?thesis
        using \<open>r = Some j\<close> result k j ptr
        by (auto simp: r_def allocated_def page_map_def used_def npages_def word_less_nat_alt word_le_nat_alt)
    qed
    then show ?thesis
      using j by (auto simp: allocated_def)
  qed
qed

text \<open>\<open>get_free_page\<close> adds one page to the set, or finds none from the counter on.\<close>

lemma get_free_page_step:
  fixes s :: "'a memory_state_scheme"
  assumes "mem_wf s"
  shows "\<exists>ret s'. get_free_page s = Some (ret, s') \<and> mem_wf s' \<and> mem_frame s s' \<and> iflag s' \<and>
    (if {used s..<npages s} \<subseteq> allocated s then ret = 0 \<and> allocated s' = allocated s \<and> used s' = used s
     else \<exists>i. i < npages s \<and> used s \<le> i \<and> i \<notin> allocated s \<and> {used s..<i} \<subseteq> allocated s
       \<and> ret = page_addr i \<and> allocated s' = insert i (allocated s) \<and> used s' = used s + 1)"
proof (cases "find_free (ram s) (map_ptr (g_physics_memory_map s))
    (info_pages_total (g_physics_memory s)) (bitmap_item_used (g_physics_memory_map s))")
  case None
  have "log_inv s"
    using assms by (simp add: mem_wf_def)
  then obtain s' where s': "print_message (cstr ''need to expand memory !'') [] s = Some s'"
    "log_inv s'" "log_frame s s'" "iflag s'"
    by (rule text_message) auto
  have "get_free_page s = Some (0, s')"
    using None s'(1) by (simp add: get_free_page_def)
  then show ?thesis
    using log_frame_mem [OF s'(3,2) assms] s'(4) find_free_page(1) [OF assms None] by auto
next
  case (Some j)
  note free = find_free_page(2) [OF assms Some]
  have small: "npages s < 0x10000" and ptr: "map_ptr (g_physics_memory_map s) = 0x10000"
    and base: "addr_base (g_physics_memory_map s) = 0x100000"
    using assms by (simp_all add: mem_wf_def)
  define pm where "pm = (g_physics_memory_map s)\<lparr>bitmap_item_used := bitmap_item_used (g_physics_memory_map s) + 1\<rparr>"
  define t where "t = s\<lparr>ram := (ram s)(page_map (unat j) := 1), g_physics_memory_map := pm\<rparr>"
  have t: "mem_wf t" "mem_frame s t" "used t = unat (bitmap_item_used pm)"
    "allocated t = insert (unat j) (allocated s)"
    unfolding t_def using allocated_update [OF assms, of "unat j" pm 1] free small
    by (simp_all add: pm_def)
  have "unat (bitmap_item_used pm) = used s + 1"
    using free small unat_add_small [of "bitmap_item_used (g_physics_memory_map s)" 1]
    by (simp add: pm_def used_def)
  then have usedt: "used t = used s + 1"
    using t(3) by simp
  have "log_inv t"
    using t(1) by (simp add: mem_wf_def)
  then obtain s' where s': "print_message page_format
      [Lit (cstr ''get_free_page''), Slot (page_addr (unat j)), Slot (bitmap_item_used pm)] t = Some s'"
    "log_inv s'" "log_frame t s'" "iflag s'"
    by (rule page_message) auto
  have "push_bit 12 j = of_nat (4096 * unat j)"
    by (simp add: push_bit_eq_mult)
  then have "get_free_page s = Some (page_addr (unat j), s')"
    using Some s'(1) ptr base
    by (simp add: get_free_page_def Let_def page_addr_def page_map_def t_def pm_def mult.commute)
  then show ?thesis
    using log_frame_mem [OF s'(3,2) t(1)] s'(4) free t usedt mem_frame_trans [OF t(2)]
    by (intro exI [of _ "page_addr (unat j)"] exI [of _ s']) auto
qed

text \<open>It loses just the page it hands out.\<close>

lemma get_free_page_avail:
  assumes "mem_wf s" and "get_free_page s = Some (p, s')"
  shows "if p = 0 then avail s = {} \<and> avail s' = {} else card (avail s) = Suc (card (avail s'))"
proof -
  have "npages s < 0x10000"
    using assms(1) by (simp add: mem_wf_def)
  then have nonzero: "page_addr i \<noteq> 0" if "i < npages s" for i
    using that page_addr_nonzero [of i] by simp
  have "get_free_page s = Some (r, t) \<Longrightarrow> r = p \<and> t = s'" for r t
    using assms(2) by simp
  then have "mem_frame s s'" and cases: "if {used s..<npages s} \<subseteq> allocated s
      then p = 0 \<and> allocated s' = allocated s \<and> used s' = used s
      else \<exists>i. i < npages s \<and> used s \<le> i \<and> i \<notin> allocated s \<and> {used s..<i} \<subseteq> allocated s
        \<and> p = page_addr i \<and> allocated s' = insert i (allocated s) \<and> used s' = used s + 1"
    using get_free_page_step [OF assms(1)] by blast+
  then have n: "npages s' = npages s"
    by (simp add: mem_frame_npages)
  show ?thesis
  proof (cases "avail s = {}")
    case True
    then show ?thesis
      using cases n by (simp add: avail_empty)
  next
    case False
    then obtain i where i: "i < npages s" "used s \<le> i" "i \<notin> allocated s" "{used s..<i} \<subseteq> allocated s"
      "p = page_addr i" "allocated s' = insert i (allocated s)" "used s' = used s + 1"
      using cases by (simp add: avail_empty split: if_splits) blast
    have first: "used s = i \<or> used s \<in> allocated s"
      using i(2,4) by (cases "used s = i") auto
    have "k \<in> avail s \<longleftrightarrow> k = i \<or> k \<in> avail s'" for k
    proof -
      have "k \<in> avail s' \<longleftrightarrow> used s < k \<and> k < npages s \<and> k \<noteq> i \<and> k \<notin> allocated s"
        unfolding avail_def i(6,7) n by (simp only: Diff_iff insert_iff atLeastLessThan_iff) linarith
      moreover have "k \<in> avail s \<longleftrightarrow> used s \<le> k \<and> k < npages s \<and> k \<notin> allocated s"
        by (auto simp: avail_def)
      moreover have "used s \<le> k \<longleftrightarrow> k = used s \<or> used s < k"
        by auto
      ultimately show ?thesis
        using i(1-3) first by blast
    qed
    then have "avail s = insert i (avail s')"
      by blast
    moreover have "i \<notin> avail s'"
      using i(6) by (simp add: avail_def)
    ultimately show ?thesis
      using i(1,5) nonzero by simp
  qed
qed

text \<open>\<open>free_page\<close> takes one page out of the set.\<close>

lemma free_page_index:
  fixes p :: u32
  assumes "0x100000 \<le> unat p" and "unat p < 0x10100000"
  shows "signed_drop_bit 12 (p - 0x100000) = of_nat ((unat p - 0x100000) div 4096)"
proof -
  have diff: "unat (p - 0x100000) = unat p - 0x100000"
    using assms(1) unat_sub_small [of "0x100000" p] by simp
  have "p - 0x100000 = of_nat (unat (p - 0x100000))"
    by simp
  then have "p - 0x100000 = of_nat (unat p - 0x100000)"
    by (simp only: diff)
  then have "sint (p - 0x100000) = int (unat p - 0x100000)"
    using assms(2) sint_of_nat_small [of "unat p - 0x100000"] by simp
  then have "sint (signed_drop_bit 12 (p - 0x100000)) = int ((unat p - 0x100000) div 4096)"
    by (simp add: sint_signed_drop_bit_eq drop_bit_eq_div zdiv_int)
  moreover have "sint (of_nat ((unat p - 0x100000) div 4096) :: u32) = int ((unat p - 0x100000) div 4096)"
    using assms by (intro sint_of_nat_small) simp
  ultimately show ?thesis
    by (intro signed_word_eqI [where 'a = int]) simp
qed

lemma free_page_step:
  fixes s :: "'a memory_state_scheme"
  assumes "mem_wf s"
  shows "\<exists>s'. free_page p s = Some s' \<and> mem_wf s' \<and> mem_frame s s' \<and> iflag s' \<and>
    (if unat p < 0x100000 \<or> unat (addr_end (g_physics_memory s)) < unat p
     then allocated s' = allocated s \<and> used s' = used s
     else allocated s' = allocated s - {(unat p - 0x100000) div 4096}
       \<and> used s' = (if used s = 0 then 2 ^ 32 - 1 else used s - 1))"
proof (cases "unat p < 0x100000 \<or> unat (addr_end (g_physics_memory s)) < unat p")
  case True
  have "log_inv s"
    using assms by (simp add: mem_wf_def)
  then obtain s' where s': "print_message (cstr ''invalid memory address !'') [] s = Some s'"
    "log_inv s'" "log_frame s s'" "iflag s'"
    by (rule text_message) auto
  have "free_page p s = Some s'"
    using True s'(1) assms by (simp add: free_page_def mem_wf_def word_less_nat_alt)
  then show ?thesis
    using log_frame_mem [OF s'(3,2) assms] s'(4) True by auto
next
  case False
  let ?i = "(unat p - 0x100000) div 4096"
  have small: "npages s < 0x10000" and ptr: "map_ptr (g_physics_memory_map s) = 0x10000"
    and base: "addr_base (g_physics_memory_map s) = 0x100000"
    and stop: "(unat (addr_end (g_physics_memory s)) - 0x100000) div 4096 = npages s"
    using assms by (simp_all add: mem_wf_def)
  have "?i \<le> npages s"
    unfolding stop [symmetric] using False by (intro div_le_mono diff_le_mono) simp
  then have i: "?i < 0x10000"
    using small by simp
  then have "unat p < 0x10100000"
    by simp
  with False have index: "signed_drop_bit 12 (p - 0x100000) = of_nat ?i"
    by (intro free_page_index) simp_all
  define pm where "pm = (g_physics_memory_map s)\<lparr>bitmap_item_used := bitmap_item_used (g_physics_memory_map s) - 1\<rparr>"
  define t where "t = s\<lparr>ram := (ram s)(page_map ?i := 0), g_physics_memory_map := pm\<rparr>"
  have t: "mem_wf t" "mem_frame s t" "used t = unat (bitmap_item_used pm)"
    "allocated t = allocated s - {?i}"
    unfolding t_def using allocated_update [OF assms i, of pm 0] by (simp_all add: pm_def)
  have "unat (bitmap_item_used pm) = (if used s = 0 then 2 ^ 32 - 1 else used s - 1)"
    by (auto simp: pm_def used_def unat_minus_one unat_eq_0)
  then have usedt: "used t = (if used s = 0 then 2 ^ 32 - 1 else used s - 1)"
    using t(3) by simp
  have "log_inv t"
    using t(1) by (simp add: mem_wf_def)
  then obtain s' where s': "print_message page_format
      [Lit (cstr ''free_page''), Slot p, Slot (bitmap_item_used pm)] t = Some s'"
    "log_inv s'" "log_frame t s'" "iflag s'"
    by (rule page_message) auto
  have "free_page p s = Some s'"
    using False s'(1) assms index
    by (simp add: free_page_def Let_def mem_wf_def word_less_nat_alt page_map_def t_def pm_def)
  then show ?thesis
    using log_frame_mem [OF s'(3,2) t(1)] s'(4) False t usedt mem_frame_trans [OF t(2)] by auto
qed

section \<open>Setting the allocator up\<close>

lemma find_zone_first:
  assumes "k < n" and "base_addr_low (check_memory_item_at m (i + k)) = VALID_MEMORY_FROM"
    and "item_type (check_memory_item_at m (i + k)) = ZONE_VALID"
    and "\<And>j. j < k \<Longrightarrow> base_addr_low (check_memory_item_at m (i + j)) \<noteq> VALID_MEMORY_FROM"
  shows "find_zone m i n g = g\<lparr>addr_start := VALID_MEMORY_FROM,
     valid_mem_size := length_low (check_memory_item_at m (i + k)),
     addr_end := VALID_MEMORY_FROM + length_low (check_memory_item_at m (i + k))\<rparr>"
  using assms
proof (induction n arbitrary: i k g)
  case 0
  then show ?case by simp
next
  case (Suc n)
  show ?case
  proof (cases k)
    case 0
    then show ?thesis
      using Suc.prems by (simp add: Let_def)
  next
    case (Suc k')
    have "find_zone m (i + 1) n h = h\<lparr>addr_start := VALID_MEMORY_FROM,
       valid_mem_size := length_low (check_memory_item_at m (i + k)),
       addr_end := VALID_MEMORY_FROM + length_low (check_memory_item_at m (i + k))\<rparr>" for h
      using Suc.IH [of k' "i + 1" h] Suc Suc.prems by fastforce
    moreover have "base_addr_low (check_memory_item_at m i) \<noteq> VALID_MEMORY_FROM"
      using Suc.prems(4) [of 0] Suc by simp
    ultimately show ?thesis
      by (simp add: Let_def)
  qed
qed

lemma memory_init_zone:
  assumes "k < check_memory_times (ram s)"
    and "base_addr_low (check_memory_item_at (ram s) k) = VALID_MEMORY_FROM"
    and "item_type (check_memory_item_at (ram s) k) = ZONE_VALID"
    and "\<And>j. j < k \<Longrightarrow> base_addr_low (check_memory_item_at (ram s) j) \<noteq> VALID_MEMORY_FROM"
  shows "\<exists>s'. memory_init src_file s = Some s' \<and> ram s' = ram s
    \<and> g_physics_memory_map s' = g_physics_memory_map s \<and> log_inv s' = log_inv s
    \<and> addr_start (g_physics_memory s') = VALID_MEMORY_FROM
    \<and> addr_end (g_physics_memory s') = VALID_MEMORY_FROM + length_low (check_memory_item_at (ram s) k)
    \<and> info_pages_total (g_physics_memory s') = drop_bit 12 (length_low (check_memory_item_at (ram s) k))
    \<and> memory_state.more s' = memory_state.more s \<and> iflag s' = iflag s"
  using find_zone_first [OF assms(1), of "ram s" 0] assms(2-4)
  by (simp add: memory_init_def Let_def log_inv_def con_inv_def)

section \<open>The interface of the allocator\<close>

text \<open>\<open>n\<close> pages taken one after the other.\<close>

fun take_many :: "('s \<Rightarrow> (u32 \<times> 's) option) \<Rightarrow> nat \<Rightarrow> 's \<Rightarrow> (u32 list \<times> 's) option" where
  "take_many get 0 s = Some ([], s)"
| "take_many get (Suc n) s =
     do { (p, s) \<leftarrow> get s; (ps, s) \<leftarrow> take_many get n s; Some (p # ps, s) }"

text \<open>
  What a client of the page allocator relies on: a page it gets is not in use, and one it gives back,
  having got it before, is free again. The null pointer means that no page was found.
\<close>

locale page_provider =
  fixes get :: "'s \<Rightarrow> (u32 \<times> 's) option"
    and give :: "u32 \<Rightarrow> 's \<Rightarrow> 's option"
    and pages :: "'s \<Rightarrow> u32 set"
    and ok :: "'s \<Rightarrow> bool"
  assumes get_ok: "ok s \<Longrightarrow> \<exists>p s'. get s = Some (p, s') \<and> ok s' \<and>
      (p = 0 \<and> pages s' = pages s \<or> p \<noteq> 0 \<and> p \<notin> pages s \<and> pages s' = insert p (pages s))"
    and give_ok: "ok s \<Longrightarrow> p \<in> pages s \<Longrightarrow> \<exists>s'. give p s = Some s' \<and> ok s' \<and> pages s' = pages s - {p}"
begin

lemma take_many_distinct:
  "ok s \<Longrightarrow> \<exists>ps s'. take_many get n s = Some (ps, s') \<and> ok s' \<and> length ps = n
     \<and> distinct (filter (\<lambda>p. p \<noteq> 0) ps) \<and> (set ps - {0}) \<inter> pages s = {}
     \<and> pages s' = pages s \<union> (set ps - {0})"
proof (induction n arbitrary: s)
  case 0
  then show ?case by simp
next
  case (Suc n)
  from get_ok [OF Suc.prems] obtain p s1 where get: "get s = Some (p, s1)" and ok: "ok s1"
    and p: "p = 0 \<and> pages s1 = pages s \<or> p \<noteq> 0 \<and> p \<notin> pages s \<and> pages s1 = insert p (pages s)"
    by blast
  from Suc.IH [OF ok] obtain ps s2 where "take_many get n s1 = Some (ps, s2)" "ok s2" "length ps = n"
    "distinct (filter (\<lambda>p. p \<noteq> 0) ps)" "(set ps - {0}) \<inter> pages s1 = {}"
    "pages s2 = pages s1 \<union> (set ps - {0})"
    by blast
  with get p show ?case
    by (intro exI [of _ "p # ps"] exI [of _ s2]) auto
qed

lemma give_after_get:
  assumes "ok s" and "get s = Some (p, s1)" and "p \<noteq> 0"
  shows "\<exists>s2. give p s1 = Some s2 \<and> ok s2 \<and> pages s2 = pages s"
proof -
  from get_ok [OF assms(1)] assms(2,3) have "ok s1" "p \<notin> pages s" "pages s1 = insert p (pages s)"
    by auto
  with give_ok [of s1 p] show ?thesis
    by auto
qed

end

text \<open>The code provides it as long as its counter is the number of allocated pages.\<close>

definition mem_ok :: "'a memory_state_scheme \<Rightarrow> bool" where
  "mem_ok s \<longleftrightarrow> mem_wf s \<and> used s = card (allocated s)"

definition owned_pages :: "'a memory_state_scheme \<Rightarrow> u32 set" where
  "owned_pages s = page_addr ` allocated s"

lemma finite_allocated [simp]: "finite (allocated s)"
  by (rule finite_subset [of _ "{..<npages s}"]) (auto simp: allocated_def)

lemma owned_page_addr:
  assumes "mem_wf s" and "i < npages s"
  shows "page_addr i \<in> owned_pages s \<longleftrightarrow> i \<in> allocated s"
  using assms page_addr_inj by (auto simp: owned_pages_def allocated_def mem_wf_def)

lemma page_below_end:
  assumes "mem_wf s" and "i < npages s"
  shows "4096 * Suc i \<le> unat (addr_end (g_physics_memory s)) - 0x100000"
proof -
  have "Suc i \<le> (unat (addr_end (g_physics_memory s)) - 0x100000) div 4096"
    using assms by (simp add: mem_wf_def)
  then show ?thesis
    by (simp add: less_eq_div_iff_mult_less_eq mult.commute)
qed

lemma get_free_page_ok:
  assumes "mem_ok s"
  shows "\<exists>p s'. get_free_page s = Some (p, s') \<and> mem_ok s' \<and>
    (p = 0 \<and> owned_pages s' = owned_pages s
     \<or> p \<noteq> 0 \<and> p \<notin> owned_pages s \<and> owned_pages s' = insert p (owned_pages s))"
proof -
  have wf: "mem_wf s" and card: "used s = card (allocated s)"
    using assms by (simp_all add: mem_ok_def)
  have small: "npages s < 0x10000"
    using wf by (simp add: mem_wf_def)
  obtain p s' where run: "get_free_page s = Some (p, s')" and wf': "mem_wf s'"
    and cases: "if {used s..<npages s} \<subseteq> allocated s
      then p = 0 \<and> allocated s' = allocated s \<and> used s' = used s
      else \<exists>i. i < npages s \<and> used s \<le> i \<and> i \<notin> allocated s \<and> {used s..<i} \<subseteq> allocated s
        \<and> p = page_addr i \<and> allocated s' = insert i (allocated s) \<and> used s' = used s + 1"
    using get_free_page_step [OF wf] by blast
  show ?thesis
  proof (cases "{used s..<npages s} \<subseteq> allocated s")
    case True
    with run wf' cases card show ?thesis
      by (simp add: mem_ok_def owned_pages_def)
  next
    case False
    with cases obtain i where i: "i < npages s" "i \<notin> allocated s" "p = page_addr i"
      "allocated s' = insert i (allocated s)" "used s' = used s + 1"
      by auto
    have "p \<noteq> 0" and "p \<notin> owned_pages s"
      using i owned_page_addr [OF wf] page_addr_nonzero [of i] small by auto
    with i run wf' card show ?thesis
      by (auto simp: mem_ok_def owned_pages_def)
  qed
qed

lemma free_page_ok:
  assumes "mem_ok s" and "p \<in> owned_pages s"
  shows "\<exists>s'. free_page p s = Some s' \<and> mem_ok s' \<and> owned_pages s' = owned_pages s - {p}"
proof -
  have wf: "mem_wf s" and card: "used s = card (allocated s)"
    using assms by (simp_all add: mem_ok_def)
  have small: "npages s < 0x10000"
    and stop: "(unat (addr_end (g_physics_memory s)) - 0x100000) div 4096 = npages s"
    using wf by (simp_all add: mem_wf_def)
  from assms(2) obtain i where i: "i \<in> allocated s" "p = page_addr i"
    by (auto simp: owned_pages_def)
  then have "i < npages s"
    by (simp add: allocated_def)
  then have p: "unat p = 0x100000 + 4096 * i"
    using i small by (simp add: unat_page_addr)
  have "4096 * Suc i \<le> unat (addr_end (g_physics_memory s)) - 0x100000"
    using wf \<open>i < npages s\<close> by (rule page_below_end)
  then have range: "\<not> (unat p < 0x100000 \<or> unat (addr_end (g_physics_memory s)) < unat p)"
    and index: "(unat p - 0x100000) div 4096 = i"
    using p by simp_all
  obtain s' where run: "free_page p s = Some s'" "mem_wf s'" "allocated s' = allocated s - {i}"
    "used s' = (if used s = 0 then 2 ^ 32 - 1 else used s - 1)"
    using free_page_step [OF wf, of p] range index by auto
  have "0 < card (allocated s)"
    using i(1) by (auto simp: card_gt_0_iff)
  then have "used s' = card (allocated s')"
    using run(3,4) i(1) card by auto
  moreover have "owned_pages s' = owned_pages s - {p}"
    using run(3) i small page_addr_inj by (auto simp: owned_pages_def allocated_def)
  ultimately show ?thesis
    using run by (simp add: mem_ok_def)
qed

interpretation pages: page_provider get_free_page free_page owned_pages mem_ok
  by unfold_locales (simp_all add: get_free_page_ok free_page_ok)

text \<open>Any sequence of calls, whatever the addresses.\<close>

datatype page_call = Get | Free u32

fun page_step :: "'a memory_state_scheme \<Rightarrow> page_call \<Rightarrow> 'a memory_state_scheme option" where
  "page_step s Get = map_option snd (get_free_page s)"
| "page_step s (Free p) = free_page p s"

lemma page_step_safe:
  assumes "mem_wf s" and "mem_frame s0 s"
  shows "\<exists>s'. page_step s e = Some s' \<and> mem_wf s' \<and> mem_frame s0 s'"
proof (cases e)
  case Get
  with get_free_page_step [OF assms(1)] assms(2) show ?thesis
    by (auto intro: mem_frame_trans)
next
  case (Free p)
  with free_page_step [OF assms(1), of p] assms(2) show ?thesis
    by (auto intro: mem_frame_trans)
qed

interpretation page_run: safe_machine page_step "\<lambda>s. mem_wf s \<and> mem_frame s0 s" for s0
  by unfold_locales (blast intro: page_step_safe)

end
