(* ===== verification/Malloc_Spec.thy ===== *)
theory Malloc_Spec
  imports Heap_Steps Memory_Spec
begin

text \<open>
  \<open>kmalloc\<close> and \<open>kfree_s\<close> on the kernel state: the heap invariant together with that of the page
  allocator, the searches as list operations on the view, and the effect of the two functions on the
  set of objects in use.
\<close>

section \<open>The heap and the page allocator\<close>

definition heap_rep :: "'a malloc_state_scheme \<Rightarrow> heap_view \<Rightarrow> bool" where
  "heap_rep s H \<longleftrightarrow>
     mem_ok s \<and> heap_mem (ram s) (bucket_dir s) (free_bucket_desc s) (owned_pages s) H"

definition objects :: "'a malloc_state_scheme \<Rightarrow> heap_view \<Rightarrow> (u32 \<times> nat) set" where
  "objects s H = live (ram s) H"

text \<open>
  What neither function writes, except for the object given back: the pages of objects, and the
  memory below 1 MB, where the kernel is, apart from the page map and the video window.
\<close>

definition low_memory :: "u32 \<Rightarrow> bool" where
  "low_memory y \<longleftrightarrow> unat y < 0x100000 \<and> \<not> vga y \<and> \<not> in_range 0x10000 0x10000 y"

definition untouched :: "'a malloc_state_scheme \<Rightarrow> heap_view \<Rightarrow> u32 \<Rightarrow> bool" where
  "untouched s H y \<longleftrightarrow> page_of y \<in> owned_pages s - hv_dpages H \<or> low_memory y"

definition keeps_objects :: "'a malloc_state_scheme \<Rightarrow> heap_view \<Rightarrow> 'a malloc_state_scheme \<Rightarrow> bool" where
  "keeps_objects s H s' \<longleftrightarrow>
     (\<forall>y. untouched s H y \<longrightarrow> ram s' y = ram s y)"

lemma low_memory_page: "low_memory y \<Longrightarrow> unat (page_of y) < 0x100000"
  unfolding low_memory_def unat_page_of by (elim conjE) linarith

lemma memory_more_malloc:
  "memory_state.more s = memory_state.more (t :: 'a malloc_state_scheme) \<Longrightarrow>
   bucket_dir s = bucket_dir t \<and> free_bucket_desc s = free_bucket_desc t
   \<and> malloc_state.more s = malloc_state.more t"
  by (cases s rule: malloc_state.cases_scheme, cases t rule: malloc_state.cases_scheme) simp

lemma mem_ok_update:
  fixes s t :: "'a memory_state_scheme"
  assumes "mem_ok s" and "\<And>i. i < 0x10000 \<Longrightarrow> ram t (page_map i) = ram s (page_map i)"
    and "con_screen t = con_screen s" "con_pos t = con_pos s" "con_x t = con_x s" "con_y t = con_y s"
    and "printk_buf t = printk_buf s" and "g_physics_memory t = g_physics_memory s"
    and "g_physics_memory_map t = g_physics_memory_map s"
  shows "mem_ok t" and "owned_pages t = owned_pages s" and "avail t = avail s"
proof -
  have small: "npages s < 0x10000"
    using assms(1) by (simp add: mem_ok_def mem_wf_def)
  have n: "npages t = npages s" "used t = used s"
    using assms by (simp_all add: npages_def used_def)
  have alloc: "allocated t = allocated s"
    using small assms(2) n by (auto simp: allocated_def)
  have "log_inv t"
    using assms by (simp add: mem_ok_def mem_wf_def log_inv_def con_inv_def)
  then show "mem_ok t"
    using assms n alloc by (simp add: mem_ok_def mem_wf_def)
  show "owned_pages t = owned_pages s"
    by (simp add: owned_pages_def alloc)
  show "avail t = avail s"
    using n alloc by (simp add: avail_def)
qed

lemma owned_page:
  assumes "mem_wf s" and "p \<in> owned_pages s"
  shows "page_of p = p" and "0x100000 \<le> unat p" and "p \<noteq> 0"
proof -
  have small: "npages s < 0x10000"
    using assms(1) by (simp add: mem_wf_def)
  obtain i where "i < npages s" "p = page_addr i"
    using assms(2) by (auto simp: owned_pages_def allocated_def)
  with small have i: "i < 0x10000" "p = page_addr i"
    by simp_all
  then have u: "unat p = 4096 * (256 + i)"
    by (simp add: unat_page_addr)
  then show "page_of p = p"
    by (simp add: word_unat_eq_iff unat_page_of)
  show "0x100000 \<le> unat p"
    using u by simp
  then show "p \<noteq> 0"
    by auto
qed

text \<open>Addresses of owned pages are neither video memory nor page map.\<close>

lemma owned_outside:
  assumes "mem_wf s" and "page_of y \<in> owned_pages s"
  shows "\<not> vga y" and "\<not> in_range 0x10000 0x10000 y"
proof -
  have "0x100000 \<le> unat (page_of y)"
    using owned_page(2) [OF assms] .
  then have "0x100000 \<le> unat y"
    unfolding unat_page_of by linarith
  then show "\<not> vga y" and "\<not> in_range 0x10000 0x10000 y"
    by (simp_all add: vga_nat in_range_nat)
qed

lemma page_map_not_owned:
  assumes "mem_wf s" and "i < 0x10000"
  shows "page_of (page_map i) \<notin> owned_pages s"
  using owned_outside(2) [OF assms(1), of "page_map i"] page_map_range [OF assms(2)] by auto

lemma low_not_owned:
  assumes "mem_wf s" and "low_memory y"
  shows "page_of y \<notin> owned_pages s"
  using owned_page(2) [OF assms(1), of "page_of y"] low_memory_page [OF assms(2)] by auto

text \<open>Updates of the heap's memory keep the page allocator.\<close>

lemma mem_ok_heap_write:
  fixes s :: "'a malloc_state_scheme"
  assumes "mem_ok s" and "\<And>y. page_of y \<notin> owned_pages s \<Longrightarrow> m' y = ram s y"
  shows "mem_ok (s\<lparr>ram := m', bucket_dir := dir, free_bucket_desc := fb, iflag := f\<rparr>)"
    and "owned_pages (s\<lparr>ram := m', bucket_dir := dir, free_bucket_desc := fb, iflag := f\<rparr>) = owned_pages s"
    and "avail (s\<lparr>ram := m', bucket_dir := dir, free_bucket_desc := fb, iflag := f\<rparr>) = avail s"
proof -
  have wf: "mem_wf s"
    using assms(1) by (simp add: mem_ok_def)
  have "m' (page_map i) = ram s (page_map i)" if "i < 0x10000" for i
    using page_map_not_owned [OF wf that] by (rule assms(2))
  then show "mem_ok (s\<lparr>ram := m', bucket_dir := dir, free_bucket_desc := fb, iflag := f\<rparr>)"
    and "owned_pages (s\<lparr>ram := m', bucket_dir := dir, free_bucket_desc := fb, iflag := f\<rparr>) = owned_pages s"
    and "avail (s\<lparr>ram := m', bucket_dir := dir, free_bucket_desc := fb, iflag := f\<rparr>) = avail s"
    using mem_ok_update [OF assms(1), of "s\<lparr>ram := m', bucket_dir := dir, free_bucket_desc := fb, iflag := f\<rparr>"]
    by simp_all
qed

lemma get_free_page_heap:
  fixes s :: "'a malloc_state_scheme"
  assumes "heap_rep s H"
  shows "\<exists>p s'. get_free_page s = Some (p, s') \<and> heap_rep s' H \<and> objects s' H = objects s H
    \<and> bucket_dir s' = bucket_dir s \<and> free_bucket_desc s' = free_bucket_desc s \<and> iflag s'
    \<and> malloc_state.more s' = malloc_state.more s
    \<and> (\<forall>y. page_of y \<in> owned_pages s \<or> low_memory y \<longrightarrow> ram s' y = ram s y)
    \<and> heap_mem (ram s') (bucket_dir s) (free_bucket_desc s) (owned_pages s) H
    \<and> (p = 0 \<and> owned_pages s' = owned_pages s \<and> {used s..<npages s} \<subseteq> allocated s
       \<or> p \<noteq> 0 \<and> page_of p = p \<and> 0x100000 \<le> unat p \<and> p \<notin> owned_pages s
         \<and> owned_pages s' = insert p (owned_pages s) \<and> card (avail s) = Suc (card (avail s')))"
proof -
  have ok: "mem_ok s" and wf: "mem_wf s"
    and inv: "heap_mem (ram s) (bucket_dir s) (free_bucket_desc s) (owned_pages s) H"
    using assms by (simp_all add: heap_rep_def mem_ok_def)
  obtain p s' where run: "get_free_page s = Some (p, s')" and ok': "mem_ok s'"
    and pages: "p = 0 \<and> owned_pages s' = owned_pages s
      \<or> p \<noteq> 0 \<and> p \<notin> owned_pages s \<and> owned_pages s' = insert p (owned_pages s)"
    using get_free_page_ok [OF ok] by blast
  note lost = get_free_page_avail [OF wf run]
  have "get_free_page s = Some (r, t) \<Longrightarrow> r = p \<and> t = s'" for r t
    using run by simp
  then have frame: "mem_frame s s'" "iflag s'"
    using get_free_page_step [OF wf] by blast+
  have same: "ram s' y = ram s y" if "page_of y \<in> owned_pages s \<or> low_memory y" for y
    using frame(1) owned_outside [OF wf, of y] that by (auto simp: mem_frame_def low_memory_def)
  have more: "bucket_dir s' = bucket_dir s" "free_bucket_desc s' = free_bucket_desc s"
    "malloc_state.more s' = malloc_state.more s"
    using frame(1) memory_more_malloc [of s' s] by (simp_all add: mem_frame_def)
  have wf': "mem_wf s'"
    using ok' by (simp add: mem_ok_def)
  have same_cells: "ram s' y = ram s y" if "block_of y \<in> cells H" for y
    using heap_mem_cells(2) [OF inv that] by (intro same) simp
  have own: "owned_pages s \<subseteq> owned_pages s'"
    using pages by auto
  have pages': "\<forall>q \<in> owned_pages s'. page_of q = q \<and> 0x100000 \<le> unat q"
    using owned_page [OF wf'] by simp
  note moved = heap_mem_same [OF inv same_cells own pages']
  have "\<forall>q\<in>owned_pages s. page_of q = q \<and> 0x100000 \<le> unat q"
    using owned_page [OF wf] by simp
  then have "heap_mem (ram s') (bucket_dir s) (free_bucket_desc s) (owned_pages s) H"
    using heap_mem_same(1) [OF inv same_cells subset_refl] by simp
  moreover have "heap_rep s' H" "objects s' H = objects s H"
    using moved ok' more by (simp_all add: heap_rep_def objects_def)
  moreover have "page_of p = p \<and> 0x100000 \<le> unat p" if "p \<noteq> 0"
    using pages that owned_page [OF wf', of p] by auto
  ultimately show ?thesis
    using run pages frame more same lost by (cases "p = 0") (auto simp: avail_empty)
qed

section \<open>The searches\<close>

lemma find_bucket_links:
  "links (d_next m) p xs \<Longrightarrow> find_bucket m p =
     Some (case dropWhile (\<lambda>d. d_freeptr m d = 0) xs of [] \<Rightarrow> 0 | d # _ \<Rightarrow> d)"
proof (induction xs arbitrary: p)
  case Nil
  then show ?case by (simp add: find_bucket.simps)
next
  case (Cons x xs)
  then show ?case by (subst find_bucket.simps) simp
qed

lemma find_bucket_chain:
  assumes inv: "heap_mem m dir fb own H" and i: "i < 9"
  shows "\<exists>d. find_bucket m (bucket_chain (dir ! i)) = Some d
    \<and> (d = 0 \<or> (\<exists>x xs. in_chain H i d \<and> hv_objs H d = x # xs \<and> d_freeptr m d = x \<and> x \<noteq> 0 \<and> d \<noteq> 0))"
proof (cases "dropWhile (\<lambda>d. d_freeptr m d = 0) (hv_chain H i)")
  case Nil
  show ?thesis
    unfolding find_bucket_links [OF heap_memD(3) [OF inv i]] Nil by simp
next
  case (Cons d rest)
  then have d: "in_chain H i d" and free: "d_freeptr m d \<noteq> 0"
    using i set_dropWhileD [of d "\<lambda>d. d_freeptr m d = 0" "hv_chain H i"]
      hd_dropWhile [of "\<lambda>d. d_freeptr m d = 0" "hv_chain H i"]
    by (auto simp: in_chain_def)
  have links: "links (load32 m) (d_freeptr m d) (hv_objs H d)"
    using heap_memD(4) [OF inv d] by (simp add: bucket_ok_def)
  then obtain x xs where "hv_objs H d = x # xs" "d_freeptr m d = x"
    using free by (cases "hv_objs H d") auto
  moreover have "d \<noteq> 0"
  proof
    assume "d = 0"
    then have "0 \<in> own"
      using view_okD(8) [OF heap_memD(1) [OF inv] d] heap_memD(8) [OF inv] by (auto simp: page_of_def)
    then show False
      using heap_memD(10) [OF inv, of 0] by simp
  qed
  ultimately show ?thesis
    unfolding find_bucket_links [OF heap_memD(3) [OF inv i]] Cons using d free by auto
qed

text \<open>The bucket size chosen for a request.\<close>

definition size_class :: "u32 \<Rightarrow> nat" where
  "size_class len = (LEAST i. i = 9 \<or> unat len \<le> bucket_bytes i)"

lemma size_class_props:
  shows "size_class len \<le> 9" and "size_class len < 9 \<Longrightarrow> unat len \<le> bucket_bytes (size_class len)"
    and "j < size_class len \<Longrightarrow> bucket_bytes j < unat len"
    and "len \<le> 4096 \<Longrightarrow> size_class len < 9"
proof -
  let ?P = "\<lambda>i. i = 9 \<or> unat len \<le> bucket_bytes i"
  have P: "?P (size_class len)"
    unfolding size_class_def by (rule LeastI [of ?P 9]) simp
  show le: "size_class len \<le> 9"
    unfolding size_class_def by (rule Least_le) simp
  show "unat len \<le> bucket_bytes (size_class len)" if "size_class len < 9"
    using P that by simp
  show "bucket_bytes j < unat len" if "j < size_class len" for j
    using not_less_Least [of j ?P] that unfolding size_class_def by simp
  show "size_class len < 9" if "len \<le> 4096"
  proof -
    have "size_class len \<le> 8"
      unfolding size_class_def using that
      by (intro Least_le) (simp add: bucket_bytes_def word_le_nat_alt)
    then show ?thesis by simp
  qed
qed

lemma find_dir_index:
  assumes "\<And>k. k < length bs - 1 \<Longrightarrow> bucket_size (bs ! k) \<noteq> 0" and "bs \<noteq> []"
    and "bucket_size (last bs) = 0"
  shows "\<exists>i < length bs. find_dir bs len = Some i \<and> (\<forall>j<i. bucket_size (bs ! j) < len)
    \<and> (i < length bs - 1 \<longrightarrow> len \<le> bucket_size (bs ! i))"
  using assms
proof (induction bs)
  case Nil
  then show ?case by simp
next
  case (Cons b bs)
  show ?case
  proof (cases "bs = []")
    case True
    then show ?thesis
      using Cons.prems by (intro exI [of _ 0]) simp
  next
    case False
    then have b: "bucket_size b \<noteq> 0"
      using Cons.prems(1) [of 0] by simp
    show ?thesis
    proof (cases "len \<le> bucket_size b")
      case True
      then show ?thesis
        using b by (intro exI [of _ 0]) simp
    next
      case large: False
      have "\<And>k. k < length bs - 1 \<Longrightarrow> bucket_size (bs ! k) \<noteq> 0"
        using Cons.prems(1) [of "Suc k" for k] by auto
      then obtain i where i: "i < length bs" "find_dir bs len = Some i"
        "\<forall>j<i. bucket_size (bs ! j) < len" "i < length bs - 1 \<longrightarrow> len \<le> bucket_size (bs ! i)"
        using Cons.IH Cons.prems(3) False by auto
      show ?thesis
      proof (intro exI [of _ "Suc i"] conjI allI impI)
        show "find_dir (b # bs) len = Some (Suc i)"
          using i(2) b large by simp
        show "bucket_size ((b # bs) ! j) < len" if "j < Suc i" for j
          using that i(3) large by (cases j) auto
      qed (use i in auto)
    qed
  qed
qed

lemma find_dir_class:
  assumes "map bucket_size dir = [16, 32, 64, 128, 256, 512, 1024, 2048, 4096, 0]"
  shows "find_dir dir len = Some (size_class len)"
    and "bucket_size (dir ! size_class len) = 0 \<longleftrightarrow> size_class len = 9"
proof -
  have len10: "length dir = 10"
    using arg_cong [OF assms, of length] by simp
  have sizes: "bucket_size (dir ! k) = map bucket_size dir ! k" if "k < 10" for k
    using that len10 by simp
  have nine: "bucket_size (dir ! 9) = 0"
    unfolding sizes [of 9, simplified] assms by simp
  have small: "unat (bucket_size (dir ! k)) = bucket_bytes k" "bucket_size (dir ! k) \<noteq> 0" if "k < 9" for k
  proof -
    have size: "bucket_size (dir ! k) = of_nat (bucket_bytes k)"
      using dir_update(3) [OF assms that] .
    then show u: "unat (bucket_size (dir ! k)) = bucket_bytes k"
      using bucket_bytes_props(4) [OF that] by (simp add: unat_of_nat_small)
    then show "bucket_size (dir ! k) \<noteq> 0"
      using bucket_bytes_props(3) [OF that] by auto
  qed
  have nonempty: "dir \<noteq> []"
    using len10 by auto
  then have end_marker: "bucket_size (last dir) = 0"
    using nine len10 by (simp add: last_conv_nth)
  have "bucket_size (dir ! k) \<noteq> 0" if "k < length dir - 1" for k
    using small(2) that len10 by simp
  then obtain i where i: "i < 10" "find_dir dir len = Some i"
    "\<forall>j<i. bucket_size (dir ! j) < len" "i < 9 \<longrightarrow> len \<le> bucket_size (dir ! i)"
    using find_dir_index [of dir len] end_marker nonempty len10 by auto
  have "size_class len = i"
    unfolding size_class_def
  proof (rule Least_equality)
    show "i = 9 \<or> unat len \<le> bucket_bytes i"
      using i(1,4) small(1) [of i] by (auto simp: word_le_nat_alt)
    fix j
    assume j: "j = 9 \<or> unat len \<le> bucket_bytes j"
    show "i \<le> j"
    proof (rule ccontr)
      assume "\<not> i \<le> j"
      then have "j < i" "j < 9"
        using i(1) by simp_all
      then show False
        using i(3) small(1) [of j] j by (auto simp: word_less_nat_alt)
    qed
  qed
  with i(2) show "find_dir dir len = Some (size_class len)"
    by simp
  show "bucket_size (dir ! size_class len) = 0 \<longleftrightarrow> size_class len = 9"
    using nine small(2) size_class_props(1) [of len] by (metis le_neq_implies_less)
qed

section \<open>kmalloc\<close>

lemma untouchedD:
  assumes "heap_rep s H" and "untouched s H y"
  shows "page_of y \<in> owned_pages s \<or> low_memory y" and "page_of y \<notin> hv_dpages H"
    and "0x100000 \<le> unat p \<Longrightarrow> p \<notin> owned_pages s \<Longrightarrow> page_of y \<noteq> p"
proof -
  have wf: "mem_wf s" and inv: "heap_mem (ram s) (bucket_dir s) (free_bucket_desc s) (owned_pages s) H"
    using assms(1) by (simp_all add: heap_rep_def mem_ok_def)
  show "page_of y \<in> owned_pages s \<or> low_memory y"
    using assms(2) by (auto simp: untouched_def)
  show "page_of y \<notin> hv_dpages H"
    using assms(2) low_not_owned [OF wf, of y] heap_memD(8) [OF inv] by (auto simp: untouched_def)
  show "page_of y \<noteq> p" if "0x100000 \<le> unat p" "p \<notin> owned_pages s"
    using assms(2) low_memory_page [of y] that by (auto simp: untouched_def)
qed

lemma untouched_mono:
  "owned_pages s - hv_dpages H \<subseteq> owned_pages s' - hv_dpages H' \<Longrightarrow> untouched s H y \<Longrightarrow> untouched s' H' y"
  by (auto simp: untouched_def)

lemma keeps_objects_refl [simp]: "keeps_objects s H s"
  by (simp add: keeps_objects_def)

lemma heap_rep_iflag [simp]: "heap_rep (s\<lparr>iflag := f\<rparr>) H = heap_rep s H"
  "objects (s\<lparr>iflag := f\<rparr>) H = objects s H"
  by (simp_all add: heap_rep_def objects_def mem_ok_def mem_wf_def log_inv_def con_inv_def
      owned_pages_def allocated_def npages_def used_def)

lemma heap_rep_write:
  fixes s :: "'a malloc_state_scheme"
  assumes "mem_ok s" and "heap_mem m' dir fb (owned_pages s) H"
    and "\<And>y. page_of y \<notin> owned_pages s \<Longrightarrow> m' y = ram s y"
  shows "heap_rep (s\<lparr>ram := m', bucket_dir := dir, free_bucket_desc := fb, iflag := f\<rparr>) H"
  using mem_ok_heap_write [OF assms(1,3), where dir = dir and fb = fb and f = f] assms(2) by (simp add: heap_rep_def)

text \<open>The object at the head of the free list of \<open>d\<close>.\<close>

lemma take_object_heap:
  assumes rep: "heap_rep s H" and d: "in_chain H i d" and fs: "hv_objs H d = x # xs"
  defines "H' \<equiv> H\<lparr>hv_objs := (hv_objs H)(d := xs)\<rparr>"
  shows "\<exists>s'. take_object d s = (x, s') \<and> heap_rep s' H' \<and> iflag s'
    \<and> (x, bucket_bytes i) \<notin> objects s H \<and> objects s' H' = insert (x, bucket_bytes i) (objects s H)
    \<and> (\<forall>y. page_of y \<notin> hv_dpages H \<longrightarrow> ram s' y = ram s y) \<and> x \<noteq> 0
    \<and> malloc_state.more s' = malloc_state.more s \<and> avail s' = avail s"
proof -
  have ok: "mem_ok s" and inv: "heap_mem (ram s) (bucket_dir s) (free_bucket_desc s) (owned_pages s) H"
    using rep by (simp_all add: heap_rep_def)
  have links: "links (load32 (ram s)) (d_freeptr (ram s) d) (x # xs)"
    using heap_memD(4) [OF inv d] fs by (simp add: bucket_ok_def)
  then have x: "d_freeptr (ram s) d = x" "x \<noteq> 0"
    by simp_all
  define m' where "m' = set_refcnt d (d_refcnt (ram s) d + 1) (set_freeptr d (load32 (ram s) x) (ram s))"
  define s' where "s' = s\<lparr>ram := m', bucket_dir := bucket_dir s, free_bucket_desc := free_bucket_desc s, iflag := True\<rparr>"
  have run: "take_object d s = (x, s')"
    by (simp add: take_object_def Let_def upd_ram_def STI_def x m'_def s'_def)
  note taken = take_object_mem [OF inv d fs]
  have block: "block_of d = d" "page_of d \<in> hv_dpages H"
    using view_okD(7,8) [OF heap_memD(1) [OF inv] d] .
  have same: "m' y = ram s y" if "page_of y \<notin> hv_dpages H" for y
  proof -
    have "block_of y \<noteq> d"
      using that block(2) page_of_block_of [of y] by metis
    then show ?thesis
      using desc_updates_block [OF block(1)] by (simp add: m'_def)
  qed
  have outside: "m' y = ram s y" if "page_of y \<notin> owned_pages s" for y
    using heap_memD(8) [OF inv] that by (intro same) auto
  have "heap_rep s' H'"
    unfolding s'_def H'_def m'_def
    by (rule heap_rep_write [OF ok taken(1)]) (use outside in \<open>simp add: m'_def\<close>)
  moreover have "objects s' H' = insert (x, bucket_bytes i) (objects s H)"
    using taken(3) by (simp add: objects_def s'_def m'_def H'_def)
  moreover have "avail s' = avail s"
    unfolding s'_def by (rule mem_ok_heap_write(3) [OF ok outside])
  ultimately show ?thesis
    using run taken(2) same x(2) by (simp add: objects_def s'_def)
qed

text \<open>A fresh page of descriptors.\<close>

lemma init_bucket_desc_heap:
  assumes rep: "heap_rep s H"
  shows "\<exists>s' H'. init_bucket_desc s = Some s' \<and> heap_rep s' H' \<and> objects s' H' = objects s H
    \<and> keeps_objects s H s' \<and> hv_dpages H \<subseteq> hv_dpages H' \<and> owned_pages s - hv_dpages H \<subseteq> owned_pages s' - hv_dpages H'
    \<and> bucket_dir s' = bucket_dir s \<and> malloc_state.more s' = malloc_state.more s
    \<and> card (avail s) \<le> Suc (card (avail s'))
    \<and> (free_bucket_desc s' \<noteq> 0
       \<or> free_bucket_desc s' = free_bucket_desc s \<and> {used s..<npages s} \<subseteq> allocated s)"
proof -
  obtain p s1 where get: "get_free_page s = Some (p, s1)" and rep1: "heap_rep s1 H"
    and s1: "objects s1 H = objects s H" "bucket_dir s1 = bucket_dir s"
      "free_bucket_desc s1 = free_bucket_desc s" "malloc_state.more s1 = malloc_state.more s"
      "\<And>y. page_of y \<in> owned_pages s \<or> low_memory y \<Longrightarrow> ram s1 y = ram s y"
    and inv0: "heap_mem (ram s1) (bucket_dir s) (free_bucket_desc s) (owned_pages s) H"
    and pages: "p = 0 \<and> owned_pages s1 = owned_pages s \<and> {used s..<npages s} \<subseteq> allocated s
       \<or> p \<noteq> 0 \<and> page_of p = p \<and> 0x100000 \<le> unat p \<and> p \<notin> owned_pages s
         \<and> owned_pages s1 = insert p (owned_pages s) \<and> card (avail s) = Suc (card (avail s1))"
    using get_free_page_heap [OF rep] by blast
  show ?thesis
  proof (cases "p = 0")
    case True
    then have "init_bucket_desc s = Some s1"
      using get by (simp add: init_bucket_desc_def)
    moreover have "card (avail s) = 0" "{used s..<npages s} \<subseteq> allocated s"
      using pages True by (simp_all add: avail_empty)
    ultimately show ?thesis
      using rep1 s1 pages True untouchedD(1) [OF rep]
      by (intro exI [of _ s1] exI [of _ H]) (simp add: keeps_objects_def)
  next
    case False
    with pages have p: "page_of p = p" "0x100000 \<le> unat p" "p \<notin> owned_pages s"
      and own: "owned_pages s1 = insert p (owned_pages s)"
      and lost: "card (avail s) = Suc (card (avail s1))" by auto
    have ok: "mem_ok s1" and inv1: "heap_mem (ram s1) (bucket_dir s1) (free_bucket_desc s1) (owned_pages s1) H"
      using rep1 by (simp_all add: heap_rep_def)
    have inv: "heap_mem (ram s1) (bucket_dir s1) (free_bucket_desc s1) (owned_pages s) H"
      using inv0 s1(2,3) by simp
    obtain m1 d where link: "link_descs (ram s1) p (unat (PAGE_SIZE div 16) - 1) = (m1, d)"
      by fastforce
    define m' where "m' = set_next d (free_bucket_desc s1) m1"
    define H' where "H' = H\<lparr>hv_free := slots p 16 @ hv_free H, hv_dpages := insert p (hv_dpages H)\<rparr>"
    define s' where "s' = s1\<lparr>ram := m', bucket_dir := bucket_dir s1, free_bucket_desc := p, iflag := iflag s1\<rparr>"
    have run: "init_bucket_desc s = Some s'"
      using get False link by (simp add: init_bucket_desc_def m'_def s'_def)
    note new = new_dpage_mem [OF inv p link]
    have "heap_rep s' H'"
      unfolding s'_def
    proof (rule heap_rep_write [OF ok])
      show "heap_mem m' (bucket_dir s1) p (owned_pages s1) H'"
        using new(1) own by (simp add: m'_def H'_def)
      show "m' y = ram s1 y" if "page_of y \<notin> owned_pages s1" for y
        using new(3) [of y] that own by (simp add: m'_def)
    qed
    moreover have "objects s' H' = objects s H"
      using new(2) s1(1) by (simp add: objects_def s'_def m'_def H'_def)
    moreover have "keeps_objects s H s'"
      unfolding keeps_objects_def
    proof (intro allI impI)
      fix y
      assume y: "untouched s H y"
      then have "m' y = ram s1 y"
        using new(3) [of y] untouchedD(3) [OF rep y p(2,3)] by (simp add: m'_def)
      then show "ram s' y = ram s y"
        using s1(5) untouchedD(1) [OF rep y] by (simp add: s'_def)
    qed
    moreover have "hv_dpages H \<subseteq> hv_dpages H'" "owned_pages s - hv_dpages H \<subseteq> owned_pages s' - hv_dpages H'"
    proof -
      show "hv_dpages H \<subseteq> hv_dpages H'"
        by (auto simp: H'_def)
      have "owned_pages s' = owned_pages s1"
        unfolding s'_def by (rule mem_ok_heap_write(2) [OF ok]) (use new(3) own in \<open>auto simp: m'_def\<close>)
      then show "owned_pages s - hv_dpages H \<subseteq> owned_pages s' - hv_dpages H'"
        using own p(3) by (auto simp: H'_def)
    qed
    moreover have "avail s' = avail s1"
      unfolding s'_def by (rule mem_ok_heap_write(3) [OF ok]) (use new(3) own in \<open>auto simp: m'_def\<close>)
    then have "card (avail s) \<le> Suc (card (avail s'))"
      using lost by simp
    moreover have "free_bucket_desc s' \<noteq> 0" "bucket_dir s' = bucket_dir s"
      "malloc_state.more s' = malloc_state.more s"
      using False s1 by (simp_all add: s'_def)
    ultimately show ?thesis
      using run by blast
  qed
qed

text \<open>A block of a descriptor that is in no list may be written.\<close>

lemma heap_rep_block:
  fixes s :: "'a malloc_state_scheme"
  assumes rep: "heap_rep s H" and d: "page_of d \<in> owned_pages s" "d \<notin> cells H"
    and same: "\<And>y. block_of y \<noteq> d \<Longrightarrow> m' y = ram s y"
  shows "heap_rep (s\<lparr>ram := m'\<rparr>) H" and "objects (s\<lparr>ram := m'\<rparr>) H = objects s H"
    and "owned_pages (s\<lparr>ram := m'\<rparr>) = owned_pages s" and "avail (s\<lparr>ram := m'\<rparr>) = avail s"
proof -
  have ok: "mem_ok s" and inv: "heap_mem (ram s) (bucket_dir s) (free_bucket_desc s) (owned_pages s) H"
    using rep by (simp_all add: heap_rep_def)
  have own: "\<forall>p\<in>owned_pages s. page_of p = p \<and> 0x100000 \<le> unat p"
    using heap_memD(9,10) [OF inv] by blast
  have same_cells: "m' y = ram s y" if "block_of y \<in> cells H" for y
    using that d(2) by (intro same) auto
  have outside: "m' y = ram s y" if "page_of y \<notin> owned_pages s" for y
    using that d(1) page_of_block_of [of y] by (intro same) metis
  have eta: "s\<lparr>ram := m'\<rparr> = s\<lparr>ram := m', bucket_dir := bucket_dir s, free_bucket_desc := free_bucket_desc s, iflag := iflag s\<rparr>"
    by simp
  note framed = heap_mem_same [OF inv same_cells subset_refl own]
  show "heap_rep (s\<lparr>ram := m'\<rparr>) H"
    by (subst eta, rule heap_rep_write [OF ok framed(1) outside])
  show "objects (s\<lparr>ram := m'\<rparr>) H = objects s H"
    using framed(2) by (simp add: objects_def)
  show "owned_pages (s\<lparr>ram := m'\<rparr>) = owned_pages s"
    by (subst eta, rule mem_ok_heap_write(2) [OF ok outside])
  show "avail (s\<lparr>ram := m'\<rparr>) = avail s"
    by (subst eta, rule mem_ok_heap_write(3) [OF ok outside])
qed

text \<open>A descriptor taken from the free list, before it is filled.\<close>

lemma take_desc_heap:
  assumes rep: "heap_rep s H" and fb: "free_bucket_desc s \<noteq> 0"
  defines "d \<equiv> free_bucket_desc s"
  shows "\<exists>H'. heap_rep (s\<lparr>free_bucket_desc := d_next (ram s) d\<rparr>) H' \<and> objects (s\<lparr>free_bucket_desc := d_next (ram s) d\<rparr>) H' = objects s H
    \<and> hv_dpages H' = hv_dpages H \<and> block_of d = d \<and> page_of d \<in> hv_dpages H \<and> d \<notin> cells H'"
proof -
  have ok: "mem_ok s" and inv: "heap_mem (ram s) (bucket_dir s) (free_bucket_desc s) (owned_pages s) H"
    using rep by (simp_all add: heap_rep_def)
  obtain rest where free: "hv_free H = d # rest"
    using heap_memD(2) [OF inv] fb by (cases "hv_free H") (auto simp: d_def)
  note pop = pop_desc_mem [OF inv free]
  have eta: "s\<lparr>free_bucket_desc := d_next (ram s) d\<rparr> =
      s\<lparr>ram := ram s, bucket_dir := bucket_dir s, free_bucket_desc := d_next (ram s) d, iflag := iflag s\<rparr>"
    by simp
  have "heap_rep (s\<lparr>free_bucket_desc := d_next (ram s) d\<rparr>) (H\<lparr>hv_free := rest\<rparr>)"
    by (subst eta, rule heap_rep_write [OF ok pop(2)]) simp
  then show ?thesis
    using pop(3-6) by (intro exI [of _ "H\<lparr>hv_free := rest\<rparr>"]) (simp add: objects_def)
qed

text \<open>The descriptor gets its page: the rest of \<open>new_bucket\<close> after the free list.\<close>

lemma fill_desc_heap:
  fixes s :: "'a malloc_state_scheme"
  assumes rep: "heap_rep s H" and d: "block_of d = d" "page_of d \<in> hv_dpages H" "d \<notin> cells H" and i: "i < 9"
    and count: "d_refcnt (ram s) d = 0"
  shows "\<exists>cp s1. get_free_page s = Some (cp, s1) \<and> iflag s1 \<and>
    (let s2 = upd_ram (set_page d cp) (upd_ram (set_freeptr d cp) s1);
         (m1, l) = link_objects (ram s2) cp (bucket_size (bucket_dir s ! i))
           (unat (PAGE_SIZE div bucket_size (bucket_dir s ! i)) - 1);
         m2 = set_next d (bucket_chain (bucket_dir s2 ! i)) (store32 m1 l 0);
         s3 = set_chain i d (s2\<lparr>ram := m2\<rparr>)
     in if cp = 0 then heap_rep s2 H \<and> objects s2 H = objects s H \<and> keeps_objects s H s2
            \<and> {used s..<npages s} \<subseteq> allocated s \<and> malloc_state.more s2 = malloc_state.more s \<and> iflag s2
        else \<exists>H'. heap_rep s3 H' \<and> objects s3 H' = objects s H \<and> keeps_objects s H s3 \<and> iflag s3
            \<and> hv_dpages H' = hv_dpages H \<and> owned_pages s \<subseteq> owned_pages s3
            \<and> in_chain H' i d \<and> hv_objs H' d \<noteq> [] \<and> malloc_state.more s3 = malloc_state.more s
            \<and> card (avail s) = Suc (card (avail s3)))"
proof -
  obtain cp s1 where get: "get_free_page s = Some (cp, s1)" and rep1: "heap_rep s1 H"
    and s1: "objects s1 H = objects s H" "bucket_dir s1 = bucket_dir s"
      "free_bucket_desc s1 = free_bucket_desc s" "malloc_state.more s1 = malloc_state.more s" "iflag s1"
      "\<And>y. page_of y \<in> owned_pages s \<or> low_memory y \<Longrightarrow> ram s1 y = ram s y"
    and inv1: "heap_mem (ram s1) (bucket_dir s) (free_bucket_desc s) (owned_pages s) H"
    and pages: "cp = 0 \<and> owned_pages s1 = owned_pages s \<and> {used s..<npages s} \<subseteq> allocated s
       \<or> cp \<noteq> 0 \<and> page_of cp = cp \<and> 0x100000 \<le> unat cp \<and> cp \<notin> owned_pages s
         \<and> owned_pages s1 = insert cp (owned_pages s) \<and> card (avail s) = Suc (card (avail s1))"
    using get_free_page_heap [OF rep] by blast
  have dpages: "hv_dpages H \<subseteq> owned_pages s"
    using heap_memD(8) [OF inv1] .
  define m2 where "m2 = set_page d cp (set_freeptr d cp (ram s1))"
  define s2 where "s2 = s1\<lparr>ram := m2\<rparr>"
  have s2_eq: "upd_ram (set_page d cp) (upd_ram (set_freeptr d cp) s1) = s2"
    by (simp add: s2_def m2_def upd_ram_def)
  have same2: "m2 y = ram s1 y" if "block_of y \<noteq> d" for y
    using that desc_updates_block [OF d(1)] by (simp add: m2_def)
  have own1: "page_of d \<in> owned_pages s1"
    using d(2) dpages pages by auto
  note rep2 = heap_rep_block [OF rep1 own1 d(3) same2, folded s2_def]
  have obj2: "objects s2 H = objects s H" and keep2: "keeps_objects s H s2"
  proof -
    show "objects s2 H = objects s H"
      using rep2(2) s1(1) by simp
    show "keeps_objects s H s2"
      unfolding keeps_objects_def
    proof (intro allI impI)
      fix y
      assume y: "untouched s H y"
      then have "block_of y \<noteq> d"
        using d(2) page_of_block_of [of y] untouchedD(2) [OF rep y] by auto
      then show "ram s2 y = ram s y"
        using same2 s1(6) untouchedD(1) [OF rep y] by (simp add: s2_def)
    qed
  qed
  have fields: "d_page m2 d = cp" "d_freeptr m2 d = cp" "d_refcnt m2 d = 0"
  proof -
    have "ram s1 y = ram s y" if "block_of y = d" for y
      using that d(2) dpages page_of_block_of [of y] by (intro s1(6)) auto
    then have "d_refcnt (ram s1) d = d_refcnt (ram s) d"
      using desc_block(4) [OF d(1)] by blast
    then show "d_page m2 d = cp" "d_freeptr m2 d = cp" "d_refcnt m2 d = 0"
      using count by (simp_all add: m2_def)
  qed
  show ?thesis
  proof (cases "cp = 0")
    case True
    have "{used s..<npages s} \<subseteq> allocated s" "malloc_state.more s2 = malloc_state.more s" "iflag s2"
      using True pages s1(4,5) by (simp_all add: s2_def)
    then show ?thesis
      using get s1(5) rep2(1) obj2 keep2
      by (intro exI [of _ cp] exI [of _ s1]) (simp only: Let_def s2_eq split_beta if_P [OF True] simp_thms)
  next
    case False
    then have cp: "page_of cp = cp" "0x100000 \<le> unat cp" "cp \<notin> owned_pages s"
      and own: "owned_pages s1 = insert cp (owned_pages s)"
      and lost: "card (avail s) = Suc (card (avail s1))"
      using pages by auto
    have ok2: "mem_ok s2"
      using rep2(1) by (simp add: heap_rep_def)
    have own2: "owned_pages s2 = insert cp (owned_pages s)"
      using rep2(3) own by simp
    have ownp: "\<forall>p\<in>owned_pages s. page_of p = p \<and> 0x100000 \<le> unat p"
      using heap_memD(9,10) [OF inv1] by blast
    have same_cells: "m2 y = ram s1 y" if "block_of y \<in> cells H" for y
      using that d(3) by (intro same2) auto
    have inv2: "heap_mem m2 (bucket_dir s) (free_bucket_desc s) (owned_pages s) H"
      by (rule heap_mem_same(1) [OF inv1 same_cells subset_refl ownp])
    have size: "bucket_size (bucket_dir s ! i) = of_nat (bucket_bytes i)"
      using dir_update(3) [OF heap_memD(11) [OF inv1] i] .
    have "unat (bucket_size (bucket_dir s ! i)) = bucket_bytes i"
      unfolding size using bucket_bytes_props(4) [OF i] by (simp add: unat_of_nat_small)
    then have n: "unat (PAGE_SIZE div bucket_size (bucket_dir s ! i)) = 4096 div bucket_bytes i"
      by (simp add: unat_div)
    obtain m3 l where link: "link_objects m2 cp (of_nat (bucket_bytes i)) (4096 div bucket_bytes i - 1) = (m3, l)"
      by fastforce
    note new = new_bucket_mem [OF inv2 d cp i fields link]
    define m4 where "m4 = set_next d (bucket_chain (bucket_dir s ! i)) (store32 m3 l 0)"
    define H' where "H' = H\<lparr>hv_chain := (hv_chain H)(i := d # hv_chain H i),
      hv_objs := (hv_objs H)(d := slots cp (bucket_bytes i))\<rparr>"
    define s3 where "s3 = set_chain i d (s2\<lparr>ram := m4\<rparr>)"
    have s3_eq: "s3 = s2\<lparr>ram := m4, bucket_dir := (bucket_dir s)[i := (bucket_dir s ! i)\<lparr>bucket_chain := d\<rparr>],
        free_bucket_desc := free_bucket_desc s, iflag := True\<rparr>"
      using s1(2,3,5) by (simp add: s3_def set_chain_def s2_def)
    have same4: "m4 y = m2 y" if "page_of y \<noteq> cp" "block_of y \<noteq> d" for y
      using new(3) [OF that] by (simp add: m4_def)
    have outside: "m4 y = ram s2 y" if "page_of y \<notin> owned_pages s2" for y
    proof -
      have "page_of d \<in> owned_pages s"
        using d(2) dpages by auto
      then have "page_of y \<noteq> page_of d" and cpy: "page_of y \<noteq> cp"
        using that unfolding own2 by auto
      then have "block_of y \<noteq> d"
        using page_of_block_of [of y] by metis
      then show ?thesis
        using same4 [OF cpy] by (simp add: s2_def)
    qed
    have rep3: "heap_rep s3 H'"
      unfolding s3_eq
      by (rule heap_rep_write [OF ok2 _ outside]) (use new(1) own2 in \<open>simp add: m4_def H'_def\<close>)
    have "objects s3 H' = objects s H"
      using new(2) obj2 by (simp add: objects_def s3_eq m4_def H'_def s2_def)
    moreover have "keeps_objects s H s3"
      unfolding keeps_objects_def
    proof (intro allI impI)
      fix y
      assume y: "untouched s H y"
      then have "page_of y \<noteq> cp" and "block_of y \<noteq> d"
        using untouchedD(2,3) [OF rep y] cp(2,3) d(2) page_of_block_of [of y] by auto
      then show "ram s3 y = ram s y"
        using same4 same2 s1(6) untouchedD(1) [OF rep y] by (simp add: s3_eq)
    qed
    moreover have "owned_pages s3 = owned_pages s2"
      unfolding s3_eq by (rule mem_ok_heap_write(2) [OF ok2 outside])
    moreover have "avail s3 = avail s2"
      unfolding s3_eq by (rule mem_ok_heap_write(3) [OF ok2 outside])
    then have "card (avail s) = Suc (card (avail s3))"
      using lost rep2(4) by simp
    moreover have "in_chain H' i d" "hv_objs H' d \<noteq> []" "hv_dpages H' = hv_dpages H"
      using new(4,5) by (simp_all add: H'_def)
    moreover have "iflag s3" "malloc_state.more s3 = malloc_state.more s"
      using s1(4) by (simp_all add: s3_eq s2_def)
    moreover have "owned_pages s \<subseteq> owned_pages s3"
      using \<open>owned_pages s3 = owned_pages s2\<close> own2 by auto
    ultimately have goal: "\<exists>H'. heap_rep s3 H' \<and> objects s3 H' = objects s H \<and> keeps_objects s H s3 \<and> iflag s3
        \<and> hv_dpages H' = hv_dpages H \<and> owned_pages s \<subseteq> owned_pages s3
        \<and> in_chain H' i d \<and> hv_objs H' d \<noteq> [] \<and> malloc_state.more s3 = malloc_state.more s
        \<and> card (avail s) = Suc (card (avail s3))"
      using rep3 by (intro exI [of _ H'] conjI)
    have link': "link_objects (ram s2) cp (bucket_size (bucket_dir s ! i))
        (unat (PAGE_SIZE div bucket_size (bucket_dir s ! i)) - 1) = (m3, l)"
    proof -
      have "ram s2 = m2"
        by (simp add: s2_def)
      then show ?thesis
        unfolding n unfolding size by (simp only: link)
    qed
    have dir2: "bucket_dir s2 = bucket_dir s"
      using s1(2) by (simp add: s2_def)
    show ?thesis
      by (rule exI [of _ cp], rule exI [of _ s1])
        (simp only: Let_def s2_eq link' prod.case if_not_P [OF False] dir2 get s1(5) simp_thms
          m4_def [symmetric] s3_def [symmetric] goal)
  qed
qed

text \<open>\<open>new_bucket\<close> as a whole.\<close>

lemma new_bucket_heap:
  assumes rep: "heap_rep s H" and i: "i < 9"
  shows "case new_bucket i s of
      None \<Rightarrow> free_bucket_desc s = 0 \<and> {used s..<npages s} \<subseteq> allocated s
    | Some (d, s') \<Rightarrow> iflag s' \<and> malloc_state.more s' = malloc_state.more s \<and>
        (\<exists>H'. heap_rep s' H' \<and> objects s' H' = objects s H \<and> keeps_objects s H s'
          \<and> (d = 0 \<and> card (avail s) \<le> 1
             \<or> d \<noteq> 0 \<and> hv_dpages H \<subseteq> hv_dpages H' \<and> owned_pages s - hv_dpages H \<subseteq> owned_pages s' - hv_dpages H'
               \<and> in_chain H' i d \<and> hv_objs H' d \<noteq> [] \<and> card (avail s) \<le> card (avail s') + 2))"
proof -
  obtain s1 H1 where init: "(if free_bucket_desc s = 0 then init_bucket_desc s else Some s) = Some s1"
    and rep1: "heap_rep s1 H1" and obj1: "objects s1 H1 = objects s H" and keep1: "keeps_objects s H s1"
    and grow: "hv_dpages H \<subseteq> hv_dpages H1" "owned_pages s - hv_dpages H \<subseteq> owned_pages s1 - hv_dpages H1"
    and s1: "bucket_dir s1 = bucket_dir s" "malloc_state.more s1 = malloc_state.more s"
    and lost1: "card (avail s) \<le> Suc (card (avail s1))"
    and fail: "free_bucket_desc s1 = 0 \<Longrightarrow> free_bucket_desc s = 0 \<and> {used s..<npages s} \<subseteq> allocated s"
  proof (cases "free_bucket_desc s = 0")
    case True
    then show ?thesis
      using init_bucket_desc_heap [OF rep] that by auto
  next
    case False
    then show ?thesis
      using that [of s H] rep by simp
  qed
  show ?thesis
  proof (cases "free_bucket_desc s1 = 0")
    case True
    then have "new_bucket i s = None"
      unfolding new_bucket_def Let_def init by simp
    then show ?thesis
      using fail [OF True] by simp
  next
    case False
    define d where "d = free_bucket_desc s1"
    then have "d \<noteq> 0"
      using False by simp
    define s2 where "s2 = s1\<lparr>free_bucket_desc := d_next (ram s1) d\<rparr>"
    obtain H2 where rep2: "heap_rep s2 H2" and obj2: "objects s2 H2 = objects s H"
      and dp: "hv_dpages H2 = hv_dpages H1" and d: "block_of d = d" "page_of d \<in> hv_dpages H2" "d \<notin> cells H2"
      using take_desc_heap [OF rep1 False] obj1 unfolding s2_def d_def by metis
    let ?size = "bucket_size (bucket_dir s ! i)"
    define m3 where "m3 = set_bucket_size d (ucast ?size) (set_refcnt d 0 (ram s2))"
    define s3 where "s3 = s2\<lparr>ram := m3\<rparr>"
    have "hv_dpages H2 \<subseteq> owned_pages s2"
      using rep2 heap_memD(8) unfolding heap_rep_def by blast
    then have own: "page_of d \<in> owned_pages s2"
      using d(2) by auto
    have same3: "m3 y = ram s2 y" if "block_of y \<noteq> d" for y
      using desc_updates_block [OF d(1) that] by (simp add: m3_def)
    note rep3 = heap_rep_block [OF rep2 own d(3) same3, folded s3_def]
    have dir3: "bucket_dir s3 = bucket_dir s" "malloc_state.more s3 = malloc_state.more s"
      using s1 by (simp_all add: s3_def s2_def)
    have count: "d_refcnt (ram s3) d = 0"
      by (simp add: s3_def m3_def)
    have keep3: "ram s3 y = ram s y" if "untouched s H y" for y
    proof -
      have "page_of y \<notin> hv_dpages H1"
        by (rule untouchedD(2) [OF rep1 untouched_mono [OF grow(2) that]])
      then have "block_of y \<noteq> d"
        using d(2) dp page_of_block_of [of y] by metis
      then show ?thesis
        using same3 keep1 that by (simp add: s3_def s2_def keeps_objects_def)
    qed
    have own3: "owned_pages s - hv_dpages H \<subseteq> owned_pages s3 - hv_dpages H2"
    proof -
      have "owned_pages s2 = owned_pages s1"
        by (simp add: s2_def owned_pages_def allocated_def npages_def)
      then show ?thesis
        using grow(2) rep3(3) dp by simp
    qed
    have keep: "keeps_objects s H t" if "keeps_objects s3 H2 t" for t
      using that keep3 untouched_mono [OF own3] by (auto simp: keeps_objects_def)
    obtain cp s4 where get: "get_free_page s3 = Some (cp, s4)" and
      fill: "let s2 = upd_ram (set_page d cp) (upd_ram (set_freeptr d cp) s4);
         (m1, l) = link_objects (ram s2) cp (bucket_size (bucket_dir s3 ! i))
           (unat (PAGE_SIZE div bucket_size (bucket_dir s3 ! i)) - 1);
         m2 = set_next d (bucket_chain (bucket_dir s2 ! i)) (store32 m1 l 0);
         s5 = set_chain i d (s2\<lparr>ram := m2\<rparr>)
     in if cp = 0 then heap_rep s2 H2 \<and> objects s2 H2 = objects s3 H2 \<and> keeps_objects s3 H2 s2
            \<and> {used s3..<npages s3} \<subseteq> allocated s3 \<and> malloc_state.more s2 = malloc_state.more s3 \<and> iflag s2
        else \<exists>H'. heap_rep s5 H' \<and> objects s5 H' = objects s3 H2 \<and> keeps_objects s3 H2 s5 \<and> iflag s5
            \<and> hv_dpages H' = hv_dpages H2 \<and> owned_pages s3 \<subseteq> owned_pages s5
            \<and> in_chain H' i d \<and> hv_objs H' d \<noteq> [] \<and> malloc_state.more s5 = malloc_state.more s3
            \<and> card (avail s3) = Suc (card (avail s5))"
      using fill_desc_heap [OF rep3(1) d i count] by blast
    define s5 where "s5 = upd_ram (set_page d cp) (upd_ram (set_freeptr d cp) s4)"
    obtain m1 l where link: "link_objects (ram s5) cp ?size (unat (PAGE_SIZE div ?size) - 1) = (m1, l)"
      by fastforce
    define s6 where "s6 = set_chain i d (s5\<lparr>ram := set_next d (bucket_chain (bucket_dir s5 ! i)) (store32 m1 l 0)\<rparr>)"
    have eq3: "upd_ram (set_bucket_size d (ucast ?size)) (upd_ram (set_refcnt d 0) s2) = s3"
      by (simp add: s3_def m3_def upd_ram_def)
    have run: "new_bucket i s = (if cp = 0 then Some (0, s5) else Some (d, s6))"
      unfolding new_bucket_def Let_def init bind.bind_lunit d_def [symmetric] if_not_P [OF False [folded d_def]]
        s2_def [symmetric] eq3 get prod.case s5_def [symmetric] link s6_def [symmetric] ..
    have fill': "if cp = 0 then heap_rep s5 H2 \<and> objects s5 H2 = objects s3 H2 \<and> keeps_objects s3 H2 s5
            \<and> {used s3..<npages s3} \<subseteq> allocated s3 \<and> malloc_state.more s5 = malloc_state.more s3 \<and> iflag s5
        else \<exists>H'. heap_rep s6 H' \<and> objects s6 H' = objects s3 H2 \<and> keeps_objects s3 H2 s6 \<and> iflag s6
            \<and> hv_dpages H' = hv_dpages H2 \<and> owned_pages s3 \<subseteq> owned_pages s6
            \<and> in_chain H' i d \<and> hv_objs H' d \<noteq> [] \<and> malloc_state.more s6 = malloc_state.more s3
            \<and> card (avail s3) = Suc (card (avail s6))"
      using fill unfolding Let_def dir3(1) s5_def [symmetric] link prod.case s6_def [symmetric] .
    have obj3: "objects s3 H2 = objects s H"
      using rep3(2) obj2 by simp
    have "avail s2 = avail s1"
      by (simp add: s2_def avail_def used_def npages_def allocated_def)
    then have lost: "card (avail s) \<le> Suc (card (avail s3))"
      using lost1 rep3(4) by simp
    show ?thesis
    proof (cases "cp = 0")
      case True
      then have "avail s3 = {}"
        using fill' by (simp add: avail_empty)
      then have "card (avail s) \<le> 1"
        using lost by simp
      then show ?thesis
        using True run fill' obj3 keep [of s5] dir3(2) by auto
    next
      case False
      then obtain H' where H': "heap_rep s6 H'" "objects s6 H' = objects s3 H2" "keeps_objects s3 H2 s6" "iflag s6"
        "hv_dpages H' = hv_dpages H2" "owned_pages s3 \<subseteq> owned_pages s6" "in_chain H' i d" "hv_objs H' d \<noteq> []"
        "malloc_state.more s6 = malloc_state.more s3" "card (avail s3) = Suc (card (avail s6))"
        using fill' by auto
      have "hv_dpages H \<subseteq> hv_dpages H'" "owned_pages s - hv_dpages H \<subseteq> owned_pages s6 - hv_dpages H'"
        using H'(5,6) grow(1) dp own3 by auto
      with H' obj3 keep [OF H'(3)] dir3(2) lost \<open>d \<noteq> 0\<close> show ?thesis
        unfolding run if_not_P [OF False] option.case prod.case
        by (intro conjI exI [of _ H'] disjI2) simp_all
    qed
  qed
qed

text \<open>The whole of \<open>kmalloc\<close> for a request that some bucket size fits.\<close>

lemma kmalloc_heap:
  assumes rep: "heap_rep s H" and len: "size_class len < 9"
  defines "n \<equiv> bucket_bytes (size_class len)"
  shows "case kmalloc len s of
      None \<Rightarrow> free_bucket_desc s = 0 \<and> {used s..<npages s} \<subseteq> allocated s
    | Some (x, s') \<Rightarrow> iflag s' \<and> malloc_state.more s' = malloc_state.more s \<and> keeps_objects s H s' \<and>
        (\<exists>H'. heap_rep s' H' \<and>
          (x = 0 \<and> objects s' H' = objects s H \<and> card (avail s) \<le> 1
           \<or> x \<noteq> 0 \<and> (x, n) \<notin> objects s H \<and> objects s' H' = insert (x, n) (objects s H)
             \<and> card (avail s) \<le> card (avail s') + 2))"
proof -
  let ?i = "size_class len" and ?s = "CLI s"
  have cli: "?s = s\<lparr>iflag := False\<rparr>"
    by (simp add: CLI_def)
  have rep1: "heap_rep ?s H" and obj1: "objects ?s H = objects s H"
    using rep by (simp_all add: cli)
  have ok: "mem_ok ?s" and inv: "heap_mem (ram ?s) (bucket_dir ?s) (free_bucket_desc ?s) (owned_pages ?s) H"
    using rep1 by (simp_all add: heap_rep_def)
  have same: "bucket_dir ?s = bucket_dir s" "free_bucket_desc ?s = free_bucket_desc s"
    "owned_pages ?s = owned_pages s" "used ?s = used s" "npages ?s = npages s" "allocated ?s = allocated s"
    "malloc_state.more ?s = malloc_state.more s" "ram ?s = ram s" "avail ?s = avail s"
    by (simp_all add: cli owned_pages_def allocated_def npages_def used_def avail_def)
  have sizes: "map bucket_size (bucket_dir s) = [16, 32, 64, 128, 256, 512, 1024, 2048, 4096, 0]"
    using heap_memD(11) [OF inv] same by simp
  note dir = find_dir_class [OF sizes, of len]
  have nonzero: "bucket_size (bucket_dir s ! ?i) \<noteq> 0"
    using dir(2) len by simp
  obtain d where find: "find_bucket (ram s) (bucket_chain (bucket_dir s ! ?i)) = Some d"
    and d: "d = 0 \<or> (\<exists>x xs. in_chain H ?i d \<and> hv_objs H d = x # xs \<and> d_freeptr (ram s) d = x \<and> x \<noteq> 0 \<and> d \<noteq> 0)"
    using find_bucket_chain [OF inv len] same by auto
  have keep: "keeps_objects s H s'" if "\<forall>y. page_of y \<notin> hv_dpages H \<longrightarrow> ram s' y = ram s y" for s'
    using that untouchedD(2) [OF rep] by (auto simp: keeps_objects_def)
  have body: "kmalloc len s = (if d \<noteq> 0 then Some (take_object d ?s)
    else do { (d, t) \<leftarrow> new_bucket ?i ?s; if d = 0 then Some (0, t) else Some (take_object d t) })"
    unfolding kmalloc_def dir(1) bind.bind_lunit if_not_P [OF nonzero] Let_def same find ..
  show ?thesis
  proof (cases "d = 0")
    case False
    then obtain x xs where x: "in_chain H ?i d" "hv_objs H d = x # xs"
      using d by auto
    obtain s' where "take_object d ?s = (x, s')" "heap_rep s' (H\<lparr>hv_objs := (hv_objs H)(d := xs)\<rparr>)" "iflag s'"
      "(x, n) \<notin> objects ?s H" "objects s' (H\<lparr>hv_objs := (hv_objs H)(d := xs)\<rparr>) = insert (x, n) (objects ?s H)"
      "\<forall>y. page_of y \<notin> hv_dpages H \<longrightarrow> ram s' y = ram ?s y" "x \<noteq> 0"
      "malloc_state.more s' = malloc_state.more ?s" "avail s' = avail ?s"
      using take_object_heap [OF rep1 x] unfolding n_def by blast
    then show ?thesis
      using False body obj1 same keep [of s'] by auto
  next
    case True
    show ?thesis
    proof (cases "new_bucket ?i ?s")
      case None
      then show ?thesis
        using new_bucket_heap [OF rep1 len] True body same by simp
    next
      case (Some dt)
      then obtain b t where bt: "new_bucket ?i ?s = Some (b, t)"
        by (cases dt) auto
      then obtain H1 where t: "iflag t" "malloc_state.more t = malloc_state.more s"
        and rept: "heap_rep t H1" and objt: "objects t H1 = objects s H" and keept: "keeps_objects s H t"
        and b: "b = 0 \<and> card (avail s) \<le> 1
          \<or> b \<noteq> 0 \<and> hv_dpages H \<subseteq> hv_dpages H1 \<and> owned_pages s - hv_dpages H \<subseteq> owned_pages t - hv_dpages H1
            \<and> in_chain H1 ?i b \<and> hv_objs H1 b \<noteq> [] \<and> card (avail s) \<le> card (avail t) + 2"
        using new_bucket_heap [OF rep1 len] same obj1 by (auto simp: keeps_objects_def untouched_def)
      show ?thesis
      proof (cases "b = 0")
        case True
        then show ?thesis
          using \<open>d = 0\<close> body bt t rept objt keept b by auto
      next
        case False
        with b have grow: "owned_pages s - hv_dpages H \<subseteq> owned_pages t - hv_dpages H1"
          and bc: "in_chain H1 ?i b" and "hv_objs H1 b \<noteq> []"
          by auto
        then obtain x xs where x: "hv_objs H1 b = x # xs"
          by (cases "hv_objs H1 b") auto
        obtain s' where s': "take_object b t = (x, s')" "heap_rep s' (H1\<lparr>hv_objs := (hv_objs H1)(b := xs)\<rparr>)" "iflag s'"
          "(x, n) \<notin> objects t H1" "objects s' (H1\<lparr>hv_objs := (hv_objs H1)(b := xs)\<rparr>) = insert (x, n) (objects t H1)"
          "\<forall>y. page_of y \<notin> hv_dpages H1 \<longrightarrow> ram s' y = ram t y" "x \<noteq> 0"
          "malloc_state.more s' = malloc_state.more t" "avail s' = avail t"
          using take_object_heap [OF rept bc x] unfolding n_def by blast
        moreover have "keeps_objects s H s'"
          unfolding keeps_objects_def
        proof (intro allI impI)
          fix y
          assume y: "untouched s H y"
          then have "ram s' y = ram t y"
            using untouchedD(2) [OF rept untouched_mono [OF grow y]] s'(6) by simp
          then show "ram s' y = ram s y"
            using keept y by (simp add: keeps_objects_def)
        qed
        ultimately show ?thesis
          using \<open>d = 0\<close> False body bt t objt b by auto
      qed
    qed
  qed
qed

end
