(* ===== verification/Kfree_Spec.thy ===== *)
theory Kfree_Spec
  imports Malloc_Spec
begin

text \<open>
  \<open>kfree_s\<close>: the search for the bucket of an object, and the effect on the objects in use, with the
  removal of an empty bucket from its chain.
\<close>

section \<open>The search\<close>

definition chain_prev :: "u32 list \<Rightarrow> u32 \<Rightarrow> u32" where
  "chain_prev pre prev = (if pre = [] then prev else last pre)"

lemma find_page_found:
  "links (d_next m) p (pre @ d # post) \<Longrightarrow> \<forall>e \<in> set pre. d_page m e \<noteq> pg \<Longrightarrow> d_page m d = pg \<Longrightarrow>
   find_page m pg p prev = Some (d, chain_prev pre prev)"
proof (induction pre arbitrary: p prev)
  case Nil
  then show ?case by (subst find_page.simps) (simp add: chain_prev_def)
next
  case (Cons x pre)
  then have "find_page m pg (d_next m x) x = Some (d, chain_prev pre x)"
    by simp
  with Cons show ?case
    by (subst find_page.simps) (simp add: chain_prev_def)
qed

lemma find_page_none:
  "links (d_next m) p xs \<Longrightarrow> \<forall>e \<in> set xs. d_page m e \<noteq> pg \<Longrightarrow> \<exists>pv. find_page m pg p prev = Some (0, pv)"
proof (induction xs arbitrary: p prev)
  case Nil
  then show ?case by (subst find_page.simps) simp
next
  case (Cons x xs)
  then show ?case by (subst find_page.simps) simp
qed

lemma find_owner_chain:
  assumes inv: "heap_mem m dir fb own H" and d: "in_chain H i d"
    and split: "hv_chain H i = pre @ d # post"
    and size: "sint sz \<le> int (bucket_bytes i)" and k: "k \<le> i"
  shows "find_owner m (d_page m d) sz k (drop k dir) = Some (Some (i, d, chain_prev pre 0))"
  using k
proof (induction "i - k" arbitrary: k)
  case 0
  have i: "i < 9"
    using d by (simp add: in_chain_def)
  have "length dir = 10"
    using arg_cong [OF heap_memD(11) [OF inv], of length] by simp
  then have drop: "drop i dir = dir ! i # drop (Suc i) dir"
    using i by (simp add: Cons_nth_drop_Suc)
  have bsize: "bucket_size (dir ! i) = of_nat (bucket_bytes i)"
    using dir_update(3) [OF heap_memD(11) [OF inv] i] .
  have "sint (bucket_size (dir ! i)) = int (bucket_bytes i)"
    unfolding bsize using bucket_bytes_props(4) [OF i] by (intro sint_of_nat_small) simp
  then have fits: "\<not> bucket_size (dir ! i) <s sz" and nonzero: "bucket_size (dir ! i) \<noteq> 0"
    using size bucket_bytes_props(3) [OF i] by (auto simp: word_sless_alt)
  have other: "d_page m e \<noteq> d_page m d" if "e \<in> set pre" for e
  proof
    assume "d_page m e = d_page m d"
    moreover have "in_chain H i e"
      using that i split by (simp add: in_chain_def)
    ultimately have "e = d"
      using heap_memD(7) [OF inv _ d] by blast
    then show False
      using view_okD(2) [OF heap_memD(1) [OF inv] i] that split by simp
  qed
  have "find_page m (d_page m d) (bucket_chain (dir ! i)) 0 = Some (d, chain_prev pre 0)"
    using find_page_found [of m "bucket_chain (dir ! i)" pre d post] heap_memD(3) [OF inv i] split other by simp
  moreover have "d \<noteq> 0"
  proof
    assume "d = 0"
    then have "0 \<in> own"
      using view_okD(8) [OF heap_memD(1) [OF inv] d] heap_memD(8) [OF inv] by (auto simp: page_of_def)
    then show False
      using heap_memD(10) [OF inv, of 0] by simp
  qed
  moreover have "k = i"
    using 0 by simp
  ultimately show ?case
    using fits nonzero drop by simp
next
  case (Suc n)
  then have ki: "k < i" and k9: "k < 9"
    using d by (auto simp: in_chain_def)
  have "length dir = 10"
    using arg_cong [OF heap_memD(11) [OF inv], of length] by simp
  then have drop: "drop k dir = dir ! k # drop (Suc k) dir"
    using k9 by (simp add: Cons_nth_drop_Suc)
  have rest: "find_owner m (d_page m d) sz (Suc k) (drop (Suc k) dir) = Some (Some (i, d, chain_prev pre 0))"
    using Suc ki by (intro Suc.hyps) simp_all
  have bsize: "bucket_size (dir ! k) = of_nat (bucket_bytes k)"
    using dir_update(3) [OF heap_memD(11) [OF inv] k9] .
  have nonzero: "bucket_size (dir ! k) \<noteq> 0"
  proof -
    have "unat (bucket_size (dir ! k)) = bucket_bytes k"
      unfolding bsize using bucket_bytes_props(4) [OF k9] by (intro unat_of_nat_small) simp
    then show ?thesis
      using bucket_bytes_props(3) [OF k9] by auto
  qed
  have "d_page m e \<noteq> d_page m d" if "e \<in> set (hv_chain H k)" for e
  proof
    assume "d_page m e = d_page m d"
    moreover have e: "in_chain H k e"
      using that k9 by (simp add: in_chain_def)
    ultimately have "e = d"
      using heap_memD(7) [OF inv e d] by simp
    then show False
      using view_okD(4) [OF heap_memD(1) [OF inv] d, of k] e ki by simp
  qed
  then obtain prev where "find_page m (d_page m d) (bucket_chain (dir ! k)) 0 = Some (0, prev)"
    using find_page_none [OF heap_memD(3) [OF inv k9], of "d_page m d" 0] by blast
  then show ?case
    using rest nonzero drop by simp
qed

section \<open>Giving the page back\<close>

lemma free_page_heap:
  fixes s :: "'a malloc_state_scheme"
  assumes ok: "mem_ok s" and p: "p \<in> owned_pages s"
  shows "\<exists>s'. free_page p s = Some s' \<and> mem_ok s' \<and> owned_pages s' = owned_pages s - {p}
    \<and> bucket_dir s' = bucket_dir s \<and> free_bucket_desc s' = free_bucket_desc s \<and> iflag s'
    \<and> malloc_state.more s' = malloc_state.more s
    \<and> (\<forall>y. page_of y \<in> owned_pages s \<or> low_memory y \<longrightarrow> ram s' y = ram s y)"
proof -
  have wf: "mem_wf s"
    using ok by (simp add: mem_ok_def)
  obtain s' where run: "free_page p s = Some s'" and ok': "mem_ok s'" "owned_pages s' = owned_pages s - {p}"
    using free_page_ok [OF ok p] by blast
  have frame: "mem_frame s s'" "iflag s'"
    using free_page_step [OF wf, of p] run by auto
  have "ram s' y = ram s y" if "page_of y \<in> owned_pages s \<or> low_memory y" for y
    using frame(1) owned_outside [OF wf, of y] that by (auto simp: mem_frame_def low_memory_def)
  then show ?thesis
    using run ok' frame memory_more_malloc [of s' s] by (simp add: mem_frame_def)
qed

section \<open>Taking a descriptor out of its chain\<close>

lemma unlink_heap:
  assumes inv: "heap_mem m dir fb own H" and d: "in_chain H i d"
    and split: "hv_chain H i = pre @ d # post"
    and all: "set (hv_objs H d) = set (slots (d_page m d) (bucket_bytes i))"
  defines "m' \<equiv> (if chain_prev pre 0 \<noteq> 0 then set_next (chain_prev pre 0) (d_next m d) m else m)"
    and "dir' \<equiv> (if chain_prev pre 0 \<noteq> 0 then dir else dir[i := (dir ! i)\<lparr>bucket_chain := d_next m d\<rparr>])"
  shows "\<exists>H'. heap_mem m' dir' fb (own - {d_page m d}) H' \<and> live m' H' = live m H \<and> d \<notin> cells H'
      \<and> hv_dpages H' = hv_dpages H"
    and "\<not> ((chain_prev pre 0 \<noteq> 0 \<and> d_next m (chain_prev pre 0) \<noteq> d)
      \<or> (chain_prev pre 0 = 0 \<and> bucket_chain (dir ! i) \<noteq> d))"
    and "page_of y \<notin> hv_dpages H \<Longrightarrow> m' y = m y" and "d_page m' d = d_page m d"
proof -
  note view = view_okD [OF heap_memD(1) [OF inv]]
  have i: "i < 9" and dist: "distinct (pre @ d # post)"
    using d view(2) [of i] split by (simp_all add: in_chain_def)
  have links: "links (d_next m) (bucket_chain (dir ! i)) (pre @ d # post)"
    using heap_memD(3) [OF inv i] split by simp
  have removed: "remove1 d (hv_chain H i) = pre @ post"
    using dist split by (simp add: remove1_append)
  let ?H = "H\<lparr>hv_chain := (hv_chain H)(i := remove1 d (hv_chain H i))\<rparr>"
  have goal: "(\<exists>H'. heap_mem m' dir' fb (own - {d_page m d}) H' \<and> live m' H' = live m H \<and> d \<notin> cells H'
      \<and> hv_dpages H' = hv_dpages H)
    \<and> \<not> ((chain_prev pre 0 \<noteq> 0 \<and> d_next m (chain_prev pre 0) \<noteq> d)
      \<or> (chain_prev pre 0 = 0 \<and> bucket_chain (dir ! i) \<noteq> d))
    \<and> (\<forall>y. page_of y \<notin> hv_dpages H \<longrightarrow> m' y = m y) \<and> d_page m' d = d_page m d"
  proof (cases pre rule: rev_cases)
    case Nil
    then have prev: "chain_prev pre 0 = 0"
      by (simp add: chain_prev_def)
    have m': "m' = m" and dir': "dir' = dir[i := (dir ! i)\<lparr>bucket_chain := d_next m d\<rparr>]"
      using prev by (simp_all add: m'_def dir'_def)
    note upd = dir_update(1,2) [OF heap_memD(11) [OF inv] i, where d = "d_next m d"]
    have chain_i: "links (d_next m') (bucket_chain (dir' ! i)) (remove1 d (hv_chain H i))"
      using links Nil upd(2) [OF i] removed by (simp add: m' dir')
    have same: "m' y = m y" for y
      by (simp add: m')
    have "heap_mem m' dir' fb (own - {d_page m d}) ?H" "live m' ?H = live m H" "d \<notin> cells ?H"
      using unlink_mem [OF inv d all, of m' dir'] chain_i upd(1,2) same m' dir' by simp_all
    moreover have "bucket_chain (dir ! i) = d"
      using links Nil by simp
    ultimately show ?thesis
      using prev m' by (auto intro!: exI [of _ ?H])
  next
    case (snoc pre' a)
    then have a: "a \<in> set (hv_chain H i)" and chain_a: "in_chain H i a"
      using split i by (simp_all add: in_chain_def)
    have "a \<noteq> 0"
      using links_nonzero [OF links] snoc by auto
    then have prev: "chain_prev pre 0 = a" "chain_prev pre 0 \<noteq> 0"
      using snoc by (simp_all add: chain_prev_def)
    have m': "m' = set_next a (d_next m d) m" and dir': "dir' = dir"
      using prev by (simp_all add: m'_def dir'_def)
    have ad: "a \<noteq> d"
      using dist snoc by simp
    have block: "block_of a = a" "page_of a \<in> hv_dpages H"
      using view(7,8) [OF chain_a] .
    have same: "m' y = m y" if "block_of y \<noteq> a" for y
      using desc_updates_block(2) [OF block(1) that] by (simp add: m')
    have desc: "d_page m' e = d_page m e \<and> d_freeptr m' e = d_freeptr m e \<and> d_refcnt m' e = d_refcnt m e
        \<and> (e \<noteq> a \<longrightarrow> d_next m' e = d_next m e)" if "in_chain H i e" for e
      using desc_block [OF view(7) [OF that], of m' m] same by (cases "e = a") (auto simp: m')
    have next_a: "d_next m a = d"
    proof -
      have "links (d_next m) p (pre' @ [a] @ d # post) \<Longrightarrow> d_next m a = d" for p
        by (induction pre' arbitrary: p) auto
      then show ?thesis
        using links snoc by simp
    qed
    have "links (d_next m') (bucket_chain (dir ! i)) (pre' @ [a] @ post)"
    proof (rule links_remove)
      show "links (d_next m) (bucket_chain (dir ! i)) (pre' @ [a, d] @ post)"
        using links snoc by simp
      show "distinct (pre' @ [a, d] @ post)"
        using dist snoc by simp
      show "d_next m' a = d_next m d"
        by (simp add: m')
      show "d_next m' x = d_next m x" if "x \<in> set pre' \<union> set post" for x
        using desc [of x] that dist snoc split i by (auto simp: in_chain_def)
    qed
    then have chain_i: "links (d_next m') (bucket_chain (dir' ! i)) (remove1 d (hv_chain H i))"
      using removed snoc by (simp add: dir')
    have same': "m' y = m y" if "block_of y \<in> cells H" "block_of y \<notin> set (hv_chain H i)" for y
      using that a by (intro same) auto
    have fields: "d_page m' e = d_page m e \<and> d_freeptr m' e = d_freeptr m e \<and> d_refcnt m' e = d_refcnt m e"
      if "e \<in> set (hv_chain H i)" for e
      using desc [of e] that i by (simp add: in_chain_def)
    note unlinked = unlink_mem [OF inv d all same' fields _ _ chain_i]
    have "heap_mem m' dir' fb (own - {d_page m d}) ?H" "live m' ?H = live m H" "d \<notin> cells ?H"
      by (rule unlinked; simp add: dir')+
    moreover have "m' y = m y" if "page_of y \<notin> hv_dpages H" for y
      using that block(2) page_of_block_of [of y] by (intro same) auto
    ultimately show ?thesis
      using prev next_a desc [OF d] by (auto intro!: exI [of _ ?H])
  qed
  show "\<exists>H'. heap_mem m' dir' fb (own - {d_page m d}) H' \<and> live m' H' = live m H \<and> d \<notin> cells H'
      \<and> hv_dpages H' = hv_dpages H"
    and "\<not> ((chain_prev pre 0 \<noteq> 0 \<and> d_next m (chain_prev pre 0) \<noteq> d)
      \<or> (chain_prev pre 0 = 0 \<and> bucket_chain (dir ! i) \<noteq> d))"
    and "page_of y \<notin> hv_dpages H \<Longrightarrow> m' y = m y" and "d_page m' d = d_page m d"
    using goal by blast+
qed

section \<open>kfree_s\<close>

text \<open>The bucket whose last object has come back leaves its chain, its page the set of pages.\<close>

lemma drop_bucket_heap:
  fixes s :: "'a malloc_state_scheme"
  assumes rep: "heap_rep s H" and d: "in_chain H i d" and split: "hv_chain H i = pre @ d # post"
    and all: "set (hv_objs H d) = set (slots (d_page (ram s) d) (bucket_bytes i))"
  shows "\<exists>s' H'. drop_bucket i d (chain_prev pre 0) s = Some (False, s') \<and> heap_rep s' H'
    \<and> objects s' H' = objects s H \<and> keeps_objects s H s' \<and> owned_pages s' = owned_pages s - {d_page (ram s) d}
    \<and> malloc_state.more s' = malloc_state.more s"
proof -
  let ?prev = "chain_prev pre 0" and ?p = "d_page (ram s) d"
  have ok: "mem_ok s" and inv: "heap_mem (ram s) (bucket_dir s) (free_bucket_desc s) (owned_pages s) H"
    using rep by (simp_all add: heap_rep_def)
  note view = view_okD [OF heap_memD(1) [OF inv]]
  define m1 where "m1 = (if ?prev \<noteq> 0 then set_next ?prev (d_next (ram s) d) (ram s) else ram s)"
  define dir1 where "dir1 = (if ?prev \<noteq> 0 then bucket_dir s
    else (bucket_dir s)[i := (bucket_dir s ! i)\<lparr>bucket_chain := d_next (ram s) d\<rparr>])"
  note unlinked = unlink_heap [OF inv d split all, folded m1_def dir1_def]
  obtain H1 where inv1: "heap_mem m1 dir1 (free_bucket_desc s) (owned_pages s - {?p}) H1"
    and live1: "live m1 H1 = live (ram s) H" and d1: "d \<notin> cells H1" and dp1: "hv_dpages H1 = hv_dpages H"
    using unlinked(1) by blast
  have page: "?p \<in> owned_pages s" "?p \<notin> hv_dpages H"
    using heap_memD(5,6) [OF inv d] .
  have outside: "m1 y = ram s y" if "page_of y \<notin> owned_pages s" for y
    using unlinked(3) [of y] heap_memD(8) [OF inv] that by blast
  define s1 where "s1 = s\<lparr>ram := m1, bucket_dir := dir1, free_bucket_desc := free_bucket_desc s, iflag := iflag s\<rparr>"
  have ok1: "mem_ok s1" and own1: "owned_pages s1 = owned_pages s"
    unfolding s1_def by (rule mem_ok_heap_write [OF ok outside], assumption)+
  obtain s2 where free: "free_page ?p s1 = Some s2" and ok2: "mem_ok s2"
    and own2: "owned_pages s2 = owned_pages s - {?p}" and s2: "bucket_dir s2 = dir1"
      "free_bucket_desc s2 = free_bucket_desc s" "malloc_state.more s2 = malloc_state.more s"
      "\<forall>y. page_of y \<in> owned_pages s \<or> low_memory y \<longrightarrow> ram s2 y = m1 y"
    using free_page_heap [OF ok1, of ?p] page(1) own1 by (auto simp: s1_def)
  have same2: "ram s2 y = m1 y" if "block_of y \<in> cells H1" for y
    using heap_mem_cells(2) [OF inv1 that] s2(4) by simp
  have ownp: "\<forall>q\<in>owned_pages s - {?p}. page_of q = q \<and> 0x100000 \<le> unat q"
    using heap_memD(9,10) [OF inv1] by blast
  have inv2: "heap_mem (ram s2) dir1 (free_bucket_desc s) (owned_pages s - {?p}) H1"
    by (rule heap_mem_same(1) [OF inv1 same2 subset_refl ownp])
  have live2: "live (ram s2) H1 = live m1 H1"
    by (rule heap_mem_same(2) [OF inv1 same2 subset_refl ownp])
  have block: "block_of d = d" "page_of d \<in> hv_dpages H1"
    using view(7,8) [OF d] dp1 by simp_all
  define m3 where "m3 = set_next d (free_bucket_desc s) (ram s2)"
  define H3 where "H3 = H1\<lparr>hv_free := d # hv_free H1\<rparr>"
  note pushed = push_desc_mem [OF inv2 block d1, folded m3_def H3_def]
  define s3 where "s3 = s2\<lparr>ram := m3, bucket_dir := dir1, free_bucket_desc := d, iflag := iflag s2\<rparr>"
  have dsub: "hv_dpages H \<subseteq> owned_pages s - {?p}"
    using heap_memD(8) [OF inv1] dp1 by simp
  have same3: "m3 y = ram s2 y" if "block_of y \<noteq> d" for y
    using desc_updates_block(2) [OF block(1) that] by (simp add: m3_def)
  have outside3: "m3 y = ram s2 y" if "page_of y \<notin> owned_pages s2" for y
  proof (rule same3)
    have "page_of d \<in> owned_pages s2"
      using block(2) dp1 dsub own2 by auto
    then show "block_of y \<noteq> d"
      using that page_of_block_of [of y] by metis
  qed
  have rep3: "heap_rep s3 H3"
    unfolding s3_def by (rule heap_rep_write [OF ok2 _ outside3]) (use pushed(1) own2 in simp)
  have own3: "owned_pages s3 = owned_pages s2"
    unfolding s3_def by (rule mem_ok_heap_write(2) [OF ok2 outside3])
  have "objects s3 H3 = objects s H"
    using pushed(2) live2 live1 by (simp add: objects_def s3_def)
  moreover have "keeps_objects s H s3"
    unfolding keeps_objects_def
  proof (intro allI impI)
    fix y
    assume y: "untouched s H y"
    then have "block_of y \<noteq> d"
      using block(2) dp1 page_of_block_of [of y] untouchedD(2) [OF rep y] by auto
    then show "ram s3 y = ram s y"
      using same3 s2(4) unlinked(3) [of y] untouchedD(1,2) [OF rep y] by (auto simp: s3_def)
  qed
  moreover have "malloc_state.more s3 = malloc_state.more s"
    using s2(3) by (simp add: s3_def)
  moreover have "drop_bucket i d ?prev s = Some (False, s3)"
  proof -
    have s1_eq: "(if ?prev \<noteq> 0 then upd_ram (set_next ?prev (d_next (ram s) d)) s
        else set_chain i (d_next (ram s) d) s) = s1"
      by (simp add: s1_def m1_def dir1_def upd_ram_def set_chain_def)
    have dpage1: "d_page (ram s1) d = ?p"
      using unlinked(4) by (simp add: s1_def)
    have last: "upd_ram (set_next d (free_bucket_desc s2)) s2\<lparr>free_bucket_desc := d\<rparr> = s3"
      using s2(1,2) by (simp add: s3_def m3_def upd_ram_def)
    have stay: "\<not> (?prev = 0 \<and> bucket_chain (bucket_dir s ! i) \<noteq> d)"
      using unlinked(2) by blast
    show ?thesis
      unfolding drop_bucket_def if_not_P [OF unlinked(2)] bind.bind_lunit if_not_P [OF stay] Let_def s1_eq
        dpage1 free last ..
  qed
  ultimately show ?thesis
    using rep3 own3 own2 by blast
qed

lemma kfree_s_heap:
  fixes s :: "'a malloc_state_scheme"
  assumes rep: "heap_rep s H" and d: "in_chain H i d"
    and x: "x \<in> set (slots (d_page (ram s) d) (bucket_bytes i))" "x \<notin> set (hv_objs H d)"
    and size: "sint sz \<le> int (bucket_bytes i)"
  shows "\<exists>s' H'. kfree_s x sz s = Some s' \<and> heap_rep s' H' \<and> objects s' H' = objects s H - {(x, bucket_bytes i)}
    \<and> iflag s' \<and> malloc_state.more s' = malloc_state.more s
    \<and> (\<forall>y. untouched s H y \<longrightarrow> \<not> in_range x 4 y \<longrightarrow> ram s' y = ram s y)"
proof -
  have ok: "mem_ok s" and inv: "heap_mem (ram s) (bucket_dir s) (free_bucket_desc s) (owned_pages s) H"
    using rep by (simp_all add: heap_rep_def)
  note view = view_okD [OF heap_memD(1) [OF inv]]
  have i: "i < 9"
    using d by (simp add: in_chain_def)
  obtain pre post where split: "hv_chain H i = pre @ d # post"
    using d split_list [of d "hv_chain H i"] by (auto simp: in_chain_def)
  let ?p = "d_page (ram s) d"
  have page: "page_of x = ?p" "?p \<in> owned_pages s" "?p \<notin> hv_dpages H"
    using heap_mem_obj(2-4) [OF inv d x(1)] .
  have owner: "find_owner (ram s) ?p sz 0 (bucket_dir s) = Some (Some (i, d, chain_prev pre 0))"
    using find_owner_chain [OF inv d split size, of 0] by simp
  define m1 where "m1 = set_refcnt d (d_refcnt (ram s) d - 1) (set_freeptr d x (store32 (ram s) x (d_freeptr (ram s) d)))"
  define H1 where "H1 = H\<lparr>hv_objs := (hv_objs H)(d := x # hv_objs H d)\<rparr>"
  note given = give_object_mem [OF inv d x, folded m1_def H1_def]
  have block: "block_of d = d" "page_of d \<in> hv_dpages H" "block_of x = x"
    using view(7,8) [OF d] heap_mem_obj(1) [OF inv d x(1)] .
  have xd: "x \<noteq> d"
    using page block(2) by auto
  define s1 where "s1 = s\<lparr>ram := m1, bucket_dir := bucket_dir s, free_bucket_desc := free_bucket_desc s, iflag := False\<rparr>"
  have outside: "m1 y = ram s y" if "page_of y \<notin> owned_pages s" for y
  proof (rule given(5))
    have "page_of d \<in> owned_pages s"
      using block(2) heap_memD(8) [OF inv] by blast
    then show "block_of y \<noteq> d"
      using that page_of_block_of [of y] by metis
    show "\<not> in_range x 4 y"
    proof
      assume "in_range x 4 y"
      then have "block_of y = x"
        by (intro in_block [OF block(3), of 4]) simp_all
      then show False
        using page that page_of_block_of [of y] by metis
    qed
  qed
  have rep1: "heap_rep s1 H1"
    unfolding s1_def by (rule heap_rep_write [OF ok given(1) outside])
  have own1: "owned_pages s1 = owned_pages s"
    unfolding s1_def by (rule mem_ok_heap_write(2) [OF ok outside])
  have obj1: "objects s1 H1 = objects s H - {(x, bucket_bytes i)}"
    using given(2) by (simp add: objects_def s1_def)
  have keep1: "ram s1 y = ram s y" if "untouched s H y" "\<not> in_range x 4 y" for y
  proof -
    have "block_of y \<noteq> d"
      using untouchedD(2) [OF rep that(1)] block(2) page_of_block_of [of y] by auto
    then show ?thesis
      using given(5) that(2) by (simp add: s1_def)
  qed
  have count: "d_refcnt (ram s1) d = d_refcnt (ram s) d - 1"
    by (simp add: s1_def m1_def)
  have refcnt: "d_refcnt (store32 (ram s) x v) d = d_refcnt (ram s) d" for v
    using desc_block(4) [OF block(1), of "store32 (ram s) x v" "ram s"] desc_updates_block(6) [OF block(3)] xd
    by auto
  have freeptr: "d_freeptr (ram s) d = d_freeptr (ram s) d" ..
  have s1_eq: "upd_ram (\<lambda>m. set_refcnt d (d_refcnt m d - 1) m)
      (upd_ram (set_freeptr d x) (upd_ram (\<lambda>m. store32 m x (d_freeptr m d)) (CLI s))) = s1"
    by (simp add: s1_def m1_def upd_ram_def CLI_def refcnt)
  have run: "kfree_s x sz s = (if d_refcnt (ram s1) d = 0
      then do { (returned, t) \<leftarrow> drop_bucket i d (chain_prev pre 0) s1; Some (if returned then t else STI t) }
      else Some (STI s1))"
    unfolding kfree_s_def Let_def page_of_mask page(1) owner bind.bind_lunit option.case prod.case s1_eq ..
  have sti: "STI t = t\<lparr>iflag := True\<rparr>" "malloc_state.more (STI t) = malloc_state.more t"
    for t :: "'a malloc_state_scheme"
    by (simp_all add: STI_def)
  show ?thesis
  proof (cases "d_refcnt (ram s1) d = 0")
    case False
    then have "kfree_s x sz s = Some (STI s1)"
      by (simp add: run)
    moreover have "heap_rep (STI s1) H1" "objects (STI s1) H1 = objects s1 H1"
      using rep1 by (simp_all add: sti(1))
    ultimately show ?thesis
      using obj1 keep1 sti(2) by (intro exI [of _ "STI s1"] exI [of _ H1]) (simp add: s1_def)
  next
    case True
    have d1: "in_chain H1 i d" and split1: "hv_chain H1 i = pre @ d # post" and dp1: "hv_dpages H1 = hv_dpages H"
      using d split by (simp_all add: H1_def in_chain_def)
    have bok: "bucket_ok (ram s1) i d (hv_objs H1 d)"
      using heap_memD(4) [of "ram s1" _ _ _ H1 i d] rep1 d1 by (auto simp: heap_rep_def)
    have all: "set (hv_objs H1 d) = set (slots (d_page (ram s1) d) (bucket_bytes i))"
    proof (rule card_subset_eq)
      have page1: "page_of (d_page (ram s1) d) = d_page (ram s1) d"
        using given(4) heap_mem_obj(5) [OF inv d x(1)] by (simp add: s1_def)
      show "set (hv_objs H1 d) \<subseteq> set (slots (d_page (ram s1) d) (bucket_bytes i))"
        using bok by (simp add: bucket_ok_def)
      have "length (hv_objs H1 d) = 4096 div bucket_bytes i"
        using bok True by (simp add: bucket_ok_def)
      then show "card (set (hv_objs H1 d)) = card (set (slots (d_page (ram s1) d) (bucket_bytes i)))"
        using bok distinct_card [OF distinct_slots [OF page1 i]] distinct_card [of "hv_objs H1 d"]
        by (simp add: bucket_ok_def)
    qed simp
    obtain s2 H2 where drop: "drop_bucket i d (chain_prev pre 0) s1 = Some (False, s2)" and rep2: "heap_rep s2 H2"
      and obj2: "objects s2 H2 = objects s1 H1" and keep2: "keeps_objects s1 H1 s2"
      and more2: "malloc_state.more s2 = malloc_state.more s1"
      using drop_bucket_heap [OF rep1 d1 split1 all] by blast
    have "kfree_s x sz s = Some (STI s2)"
      using True drop by (simp add: run)
    moreover have "heap_rep (STI s2) H2" "objects (STI s2) H2 = objects s2 H2"
      using rep2 by (simp_all add: sti(1))
    moreover have "ram s2 y = ram s y" if "untouched s H y" "\<not> in_range x 4 y" for y
      using keep1 [OF that] keep2 that(1) own1 dp1 by (auto simp: keeps_objects_def untouched_def)
    ultimately show ?thesis
      using obj1 obj2 sti(2) more2
      by (intro exI [of _ "STI s2"] exI [of _ H2]) (simp add: s1_def)
  qed
qed

end
