(* ===== verification/Memory_Props.thy ===== *)
theory Memory_Props
  imports Memory_Spec
begin

text \<open>
  The properties of the page allocator, with a machine of two pages for their witnesses.
\<close>

section \<open>A machine of two pages\<close>

definition sample_memory :: "mem \<Rightarrow> u32 \<Rightarrow> memory_state" where
  "sample_memory m u =
     \<lparr>ram = m, out_log = [], iflag = False, con_screen = 0xB8000, con_pos = 0xB8000, con_x = 0, con_y = 0,
      printk_buf = replicate 1024 0,
      g_physics_memory = \<lparr>addr_start = 0x100000, addr_end = 0x102000, valid_mem_size = 0x2000,
        info_pages_total = 2, pages_free = 2, pages_used = 0\<rparr>,
      g_physics_memory_map = \<lparr>addr_base = 0x100000, map_pages_total = 2, bitmap_item_used = u,
        map_ptr = 0x10000\<rparr>\<rparr>"

lemma sample_memory_wf [simp]: "mem_wf (sample_memory m u)"
  by (simp add: sample_memory_def mem_wf_def log_inv_def con_inv_def npages_def del: replicate_numeral)

lemma sample_memory_simps [simp]:
  "npages (sample_memory m u) = 2" "used (sample_memory m u) = unat u"
  "ram (sample_memory m u) = m" "addr_end (g_physics_memory (sample_memory m u)) = 0x102000"
  by (simp_all add: sample_memory_def npages_def used_def)

lemma sample_memory_free [simp]: "allocated (sample_memory (\<lambda>_. 0) u) = {}"
  by (simp add: allocated_def)

lemma sample_memory_full [simp]: "allocated (sample_memory (\<lambda>_. 1) u) = {0..<2}"
  by (auto simp: allocated_def)

lemma sample_memory_ok [simp]: "mem_ok (sample_memory (\<lambda>_. 0) 0)" "mem_ok (sample_memory (\<lambda>_. 1) 2)"
  by (simp_all add: mem_ok_def)

section \<open>Set-up\<close>

text \<open>
  When the BIOS reports usable memory at 1 MB, \<open>memory_init\<close> and \<open>memory_map_int\<close> leave an allocator
  over exactly the whole pages of that zone, none of them allocated.
\<close>

lemma memory_ready:
  assumes "log_inv s" and "k < check_memory_times (ram s)"
    and "base_addr_low (check_memory_item_at (ram s) k) = VALID_MEMORY_FROM"
    and "item_type (check_memory_item_at (ram s) k) = ZONE_VALID"
    and "\<And>j. j < k \<Longrightarrow> base_addr_low (check_memory_item_at (ram s) j) \<noteq> VALID_MEMORY_FROM"
    and "length_low (check_memory_item_at (ram s) k) < 0x10000000"
  shows "\<exists>s1 s2. memory_init src_file s = Some s1 \<and> memory_map_int src_file s1 = Some s2 \<and> mem_wf s2
    \<and> npages s2 = unat (length_low (check_memory_item_at (ram s) k)) div 4096
    \<and> allocated s2 = {} \<and> used s2 = used s
    \<and> (\<forall>x. \<not> in_range 0x10000 0x10000 x \<longrightarrow> ram s2 x = ram s x)
    \<and> memory_state.more s2 = memory_state.more s \<and> iflag s2 = iflag s"
proof -
  let ?len = "length_low (check_memory_item_at (ram s) k)"
  obtain s1 where init: "memory_init src_file s = Some s1" and s1: "ram s1 = ram s"
    "g_physics_memory_map s1 = g_physics_memory_map s" "log_inv s1"
    "addr_start (g_physics_memory s1) = VALID_MEMORY_FROM"
    "addr_end (g_physics_memory s1) = VALID_MEMORY_FROM + ?len"
    "info_pages_total (g_physics_memory s1) = drop_bit 12 ?len"
    "memory_state.more s1 = memory_state.more s" "iflag s1 = iflag s"
    using memory_init_zone [where src_file = src_file, OF assms(2-5)] assms(1) by auto
  have len: "unat ?len < 0x10000000"
    using assms(6) by (simp add: word_less_nat_alt)
  have n: "npages s1 = unat ?len div 4096"
    using s1(6) unat_less_u32 [of ?len] by (simp add: npages_def unsigned_drop_bit_eq take_bit_nat_eq_self)
      (simp add: drop_bit_eq_div)
  have stop: "unat (VALID_MEMORY_FROM + ?len) = 0x100000 + unat ?len"
    using len unat_add_small [of "0x100000 :: u32" "unat ?len"] by simp
  have small: "npages s1 < 0x10000"
    using n len by simp
  define pm where "pm = (g_physics_memory_map s)\<lparr>addr_base := VALID_MEMORY_FROM, map_ptr := 0x10000,
    map_pages_total := info_pages_total (g_physics_memory s1)\<rparr>"
  define s2 where "s2 = s1\<lparr>g_physics_memory_map := pm, ram := mem_write (ram s1) 0x10000 (replicate (npages s1) 0)\<rparr>"
  have "memory_map_int src_file s1 = Some s2"
    using s1(2,4) by (simp add: memory_map_int_def memset_write Let_def s2_def pm_def npages_def)
  moreover have "mem_wf s2"
    using s1 n stop small
    by (simp add: mem_wf_def s2_def pm_def npages_def log_inv_def con_inv_def)
  moreover have "npages s2 = npages s1" "used s2 = used s"
    by (simp_all add: npages_def s2_def used_def pm_def)
  moreover have "allocated s2 = {}"
    using small by (auto simp: allocated_def s2_def npages_def page_map_def mem_write_nth)
  moreover have "ram s2 x = ram s x" if "\<not> in_range 0x10000 0x10000 x" for x
  proof -
    have "\<not> in_range 0x10000 (npages s1) x"
      using that small in_range_weaken [of "0x10000" "npages s1" x "0x10000"] by auto
    then show ?thesis
      by (simp add: s2_def mem_write_def s1(1))
  qed
  moreover have "memory_state.more s2 = memory_state.more s" "iflag s2 = iflag s"
    using s1(7,8) by (simp_all add: s2_def)
  ultimately show ?thesis
    using init n by auto
qed

text \<open>A map that reports two pages.\<close>

definition ards_memory :: mem where
  "ards_memory = mem_write (\<lambda>_. 0) ARDS_ADDR
     [1, 0,  0, 0, 0x10, 0,  0, 0, 0, 0,  0, 0x20, 0, 0,  0, 0, 0, 0,  1, 0, 0, 0]"

section \<open>Properties\<close>

text \<open>
  C24: \<open>get_free_page\<close> refines "add a free page": it returns and either hands out the address of
  a page that was free and is now allocated, or, when every page from the counter on is taken,
  answers NULL and changes nothing (the page is the lowest free one from the counter on); besides the map and the video window no memory changes.
\<close>

theorem get_free_page_refines:
  assumes "mem_wf s"
  shows "\<exists>ret s'. get_free_page s = Some (ret, s') \<and> mem_wf s' \<and> mem_frame s s' \<and>
    (if {used s..<npages s} \<subseteq> allocated s then ret = 0 \<and> allocated s' = allocated s \<and> used s' = used s
     else \<exists>i. i < npages s \<and> used s \<le> i \<and> i \<notin> allocated s \<and> {used s..<i} \<subseteq> allocated s
       \<and> ret = page_addr i \<and> allocated s' = insert i (allocated s) \<and> used s' = used s + 1)"
  using get_free_page_step [OF assms] by (cases "{used s..<npages s} \<subseteq> allocated s") auto

theorem get_free_page_refines_witness:
  "\<exists>ret s'. get_free_page (sample_memory (\<lambda>_. 0) 1) = Some (ret, s') \<and> ret = page_addr 1
     \<and> allocated s' = {1} \<and> used s' = 2"
  using get_free_page_refines [of "sample_memory (\<lambda>_. 0) 1"] by (auto simp: not_less_eq less_Suc_eq numeral_2_eq_2)

text \<open>
  Giving back a page right after it was handed out restores the set of allocated pages, and
  the counter stays their number.
\<close>

theorem free_page_undoes_get:
  assumes "mem_ok s" and "get_free_page s = Some (p, s1)" and "p \<noteq> 0"
  shows "\<exists>s2. free_page p s1 = Some s2 \<and> mem_ok s2 \<and> owned_pages s2 = owned_pages s"
  using assms by (rule pages.give_after_get)

theorem free_page_undoes_get_witness:
  "\<exists>p s1 s2. get_free_page (sample_memory (\<lambda>_. 0) 0) = Some (p, s1) \<and> free_page p s1 = Some s2
     \<and> owned_pages s2 = {}"
proof -
  obtain p s1 where get: "get_free_page (sample_memory (\<lambda>_. 0) 0) = Some (p, s1)" and "p \<noteq> 0"
    using get_free_page_step [of "sample_memory (\<lambda>_. 0) 0"] page_addr_nonzero by force
  from free_page_undoes_get [OF sample_memory_ok(1) this] get show ?thesis
    by (auto simp: owned_pages_def)
qed

text \<open>
  C25: pages handed out one after the other are pairwise different and different from all pages in
  use; afterwards exactly these are in use in addition.
\<close>

theorem get_free_page_distinct:
  assumes "mem_ok s"
  shows "\<exists>ps s'. take_many get_free_page n s = Some (ps, s') \<and> mem_ok s' \<and> length ps = n
     \<and> distinct (filter (\<lambda>p. p \<noteq> 0) ps) \<and> (set ps - {0}) \<inter> owned_pages s = {}
     \<and> owned_pages s' = owned_pages s \<union> (set ps - {0})"
  using assms by (rule pages.take_many_distinct)

theorem get_free_page_distinct_witness:
  "\<exists>ps s'. take_many get_free_page 5 (sample_memory (\<lambda>_. 0) 0) = Some (ps, s') \<and> mem_ok s'
     \<and> length ps = 5 \<and> distinct (filter (\<lambda>p. p \<noteq> 0) ps) \<and> owned_pages s' = set ps - {0}"
  using get_free_page_distinct [OF sample_memory_ok(1), of 5] by (auto simp: owned_pages_def)

text \<open>
  Any sequence of calls of \<open>get_free_page\<close> and \<open>free_page\<close>, with any addresses, returns, keeps
  both structures usable, and writes nothing but the page map and the video window.
\<close>

theorem page_calls_safe:
  assumes "mem_wf s"
  shows "\<exists>s'. run_events page_step s es = Some s' \<and> mem_wf s' \<and> mem_frame s s'"
  using page_run.run_safe [of s s es] assms by simp

theorem page_calls_safe_witness:
  "\<exists>s'. run_events page_step (sample_memory (\<lambda>_. 0) 0) [Get, Free 0x100000, Free 0xdead, Get] = Some s'
     \<and> mem_wf s'"
  using page_calls_safe [of "sample_memory (\<lambda>_. 0) 0" "[Get, Free 0x100000, Free 0xdead, Get]"] by auto

text \<open>
  A page freed below the counter is lost: with all pages taken, freeing any but the last
  page makes that page free, yet the next \<open>get_free_page\<close> answers NULL.
\<close>

theorem freed_page_is_lost:
  assumes "mem_wf s" and "allocated s = {0..<npages s}" and "used s = npages s" and "i + 1 < npages s"
  shows "\<exists>s1 s2. free_page (page_addr i) s = Some s1 \<and> allocated s1 = {0..<npages s} - {i}
    \<and> get_free_page s1 = Some (0, s2)"
proof -
  have small: "npages s < 0x10000"
    and stop: "(unat (addr_end (g_physics_memory s)) - 0x100000) div 4096 = npages s"
    using assms(1) by (simp_all add: mem_wf_def)
  have p: "unat (page_addr i) = 0x100000 + 4096 * i"
    using assms(4) small by (simp add: unat_page_addr)
  have "4096 * Suc i \<le> unat (addr_end (g_physics_memory s)) - 0x100000"
    using assms(1,4) by (intro page_below_end) simp_all
  then have range: "\<not> (unat (page_addr i) < 0x100000 \<or> unat (addr_end (g_physics_memory s)) < unat (page_addr i))"
    and index: "(unat (page_addr i) - 0x100000) div 4096 = i"
    using p assms(1) by (simp_all add: mem_wf_def)
  obtain s1 where s1: "free_page (page_addr i) s = Some s1" "mem_wf s1" "mem_frame s s1"
    and "allocated s1 = allocated s - {i}" "used s1 = (if used s = 0 then 2 ^ 32 - 1 else used s - 1)"
    using free_page_step [OF assms(1), of "page_addr i"] range unfolding index by auto
  then have set: "allocated s1 = {0..<npages s} - {i}" and count: "used s1 = npages s - 1"
    using assms(2-4) by simp_all
  have "npages s1 = npages s"
    using s1(3) by (rule mem_frame_npages)
  then have "{used s1..<npages s1} \<subseteq> allocated s1"
    unfolding set count using assms(4) by auto
  then obtain s2 where "get_free_page s1 = Some (0, s2)"
    using get_free_page_step [OF s1(2)] by auto
  with s1(1) set show ?thesis by blast
qed

theorem freed_page_is_lost_witness:
  "\<exists>s1 s2. free_page (page_addr 0) (sample_memory (\<lambda>_. 1) 2) = Some s1 \<and> allocated s1 = {1}
    \<and> get_free_page s1 = Some (0, s2)"
proof -
  have "{0..<2} - {0} = {1 :: nat}"
    by auto
  with freed_page_is_lost [of "sample_memory (\<lambda>_. 1) 2" 0] show ?thesis
    by simp
qed

text \<open>
  \<open>free_page\<close> checks neither whether the page is allocated nor the counter: one call on an
  unused allocator turns the counter into \<open>2\<^sup>3\<^sup>2 - 1\<close>, and from then on every request is
  answered NULL although every page is free.
\<close>

theorem stray_free_disables_allocator:
  assumes "mem_wf s" and "allocated s = {}" and "used s = 0"
    and "0x100000 \<le> unat p" and "unat p \<le> unat (addr_end (g_physics_memory s))"
  shows "\<exists>s1 s2. free_page p s = Some s1 \<and> allocated s1 = {} \<and> used s1 = 2 ^ 32 - 1
    \<and> get_free_page s1 = Some (0, s2) \<and> used s2 = 2 ^ 32 - 1"
proof -
  obtain s1 where s1: "free_page p s = Some s1" "mem_wf s1" "allocated s1 = {}" "used s1 = 2 ^ 32 - 1"
    using free_page_step [OF assms(1), of p] assms(2-5) by auto
  have "{used s1..<npages s1} \<subseteq> allocated s1"
    using s1(2,4) by (simp add: mem_wf_def)
  then obtain s2 where "get_free_page s1 = Some (0, s2)" "used s2 = used s1"
    using get_free_page_step [OF s1(2)] by auto
  with s1 show ?thesis by simp
qed

theorem stray_free_disables_allocator_witness:
  "\<exists>s1 s2. free_page 0x101000 (sample_memory (\<lambda>_. 0) 0) = Some s1 \<and> allocated s1 = {}
    \<and> get_free_page s1 = Some (0, s2)"
  using stray_free_disables_allocator [where s = "sample_memory (\<lambda>_. 0) 0" and p = "0x101000"] by auto

text \<open>
  The range check of \<open>free_page\<close> lets the end address pass, which is the first byte behind the
  memory: no page is freed, but the counter is decremented and no longer counts the allocated pages.
\<close>

theorem free_page_accepts_end:
  assumes "mem_ok s" and "allocated s \<noteq> {}"
  shows "\<exists>s'. free_page (addr_end (g_physics_memory s)) s = Some s' \<and> allocated s' = allocated s
    \<and> used s' + 1 = card (allocated s')"
proof -
  have wf: "mem_wf s" and card: "used s = card (allocated s)" "0 < card (allocated s)"
    using assms by (simp_all add: mem_ok_def card_gt_0_iff)
  let ?e = "unat (addr_end (g_physics_memory s))"
  have "0x100000 \<le> ?e" and "(?e - 0x100000) div 4096 \<notin> allocated s"
    using wf by (simp_all add: mem_wf_def allocated_def)
  then obtain s' where "free_page (addr_end (g_physics_memory s)) s = Some s'"
    "allocated s' = allocated s" "used s' = used s - 1"
    using free_page_step [OF wf, of "addr_end (g_physics_memory s)"] card assms(2) by auto
  with card show ?thesis by auto
qed

theorem free_page_accepts_end_witness:
  "\<exists>s'. free_page 0x102000 (sample_memory (\<lambda>_. 1) 2) = Some s' \<and> allocated s' = {0..<2} \<and> used s' = 1"
  using free_page_accepts_end [OF sample_memory_ok(2)] by auto

end
