(* ===== verification/Malloc_Props.thy ===== *)
theory Malloc_Props
  imports Kfree_Spec Memory_Props
begin

text \<open>
  The properties of the bucket allocator: \<open>kmalloc\<close> adds one object
  and \<open>kfree_s\<close> removes it without touching the others, a request that is too large changes
  nothing, and the two places where the code does not do what it means to (a null pointer is
  followed when no page is left for descriptors; interrupts come back on inside the critical section).
\<close>

section \<open>Objects in use\<close>

lemma objects_owner:
  assumes "heap_rep s H" and "(x, n) \<in> objects s H"
  obtains i d where "in_chain H i d" and "n = bucket_bytes i"
    and "x \<in> set (slots (d_page (ram s) d) (bucket_bytes i))" and "x \<notin> set (hv_objs H d)"
  using assms(2) unfolding objects_def live_iff by blast

lemma objects_apart:
  assumes rep: "heap_rep s H" and x: "(x, n) \<in> objects s H" and y: "(y, k) \<in> objects s H" and ne: "x \<noteq> y"
  shows "disjoint_ranges x n y k"
proof -
  have inv: "heap_mem (ram s) (bucket_dir s) (free_bucket_desc s) (owned_pages s) H"
    using rep by (simp add: heap_rep_def)
  obtain i d where d: "in_chain H i d" "n = bucket_bytes i"
    "x \<in> set (slots (d_page (ram s) d) (bucket_bytes i))"
    using objects_owner [OF rep x] by blast
  obtain j e where e: "in_chain H j e" "k = bucket_bytes j"
    "y \<in> set (slots (d_page (ram s) e) (bucket_bytes j))"
    using objects_owner [OF rep y] by blast
  note px = heap_mem_obj [OF inv d(1,3)] and py = heap_mem_obj [OF inv e(1,3)]
  have i: "i < 9" "j < 9"
    using d(1) e(1) by (simp_all add: in_chain_def)
  show ?thesis
  proof (cases "d_page (ram s) d = d_page (ram s) e")
    case True
    then have "d = e"
      using heap_memD(7) [OF inv d(1) e(1)] by simp
    moreover from this have "i = j"
      using view_okD(4) [OF heap_memD(1) [OF inv] d(1)] e(1) by blast
    ultimately show ?thesis
      using slots_disjoint [OF px(5) i(1) d(3) _ ne] d(2) e(2,3) by simp
  next
    case False
    have in_x: "page_of z = d_page (ram s) d" if "in_range x n z" for z
    proof -
      have "in_range (d_page (ram s) d) 4096 z"
      proof -
        obtain l where "l < 4096 div bucket_bytes i" "x = d_page (ram s) d + of_nat (bucket_bytes i * l)"
          using d(3) by (rule slotsE)
        with slot_offset(4) [OF px(5) i(1)] that d(2) show ?thesis
          using in_range_sub [of "d_page (ram s) d" "bucket_bytes i * l" n z 4096] by simp
      qed
      then show ?thesis
        by (rule in_page [OF px(5)])
    qed
    have in_y: "page_of z = d_page (ram s) e" if "in_range y k z" for z
    proof -
      have "in_range (d_page (ram s) e) 4096 z"
      proof -
        obtain l where "l < 4096 div bucket_bytes j" "y = d_page (ram s) e + of_nat (bucket_bytes j * l)"
          using e(3) by (rule slotsE)
        with slot_offset(4) [OF py(5) i(2)] that e(2) show ?thesis
          using in_range_sub [of "d_page (ram s) e" "bucket_bytes j * l" k z 4096] by simp
      qed
      then show ?thesis
        by (rule in_page [OF py(5)])
    qed
    show ?thesis
      unfolding disjoint_ranges_def using in_x in_y False by metis
  qed
qed

lemma kfree_s_object:
  fixes s :: "'a malloc_state_scheme"
  assumes "heap_rep s H" and "(x, n) \<in> objects s H" and "sint sz \<le> int n"
  shows "\<exists>s' H'. kfree_s x sz s = Some s' \<and> heap_rep s' H' \<and> objects s' H' = objects s H - {(x, n)} \<and> iflag s'
    \<and> malloc_state.more s' = malloc_state.more s
    \<and> (\<forall>y. untouched s H y \<longrightarrow> \<not> in_range x 4 y \<longrightarrow> ram s' y = ram s y)"
proof -
  obtain i d where "in_chain H i d" "n = bucket_bytes i"
    "x \<in> set (slots (d_page (ram s) d) (bucket_bytes i))" "x \<notin> set (hv_objs H d)"
    using objects_owner [OF assms(1,2)] by blast
  then show ?thesis
    using kfree_s_heap [OF assms(1), of i d x sz] assms(3) by blast
qed

section \<open>A machine with an empty heap\<close>

definition sample_heap :: "mem \<Rightarrow> u32 \<Rightarrow> malloc_state" where
  "sample_heap m u = memory_state.extend
     ((sample_memory m u)\<lparr>g_physics_memory := \<lparr>addr_start = 0x100000, addr_end = 0x105000,
        valid_mem_size = 0x5000, info_pages_total = 5, pages_free = 5, pages_used = 0\<rparr>\<rparr>)
     (malloc_state.fields initial_bucket_dir 0)"

definition empty_view :: heap_view where
  "empty_view = \<lparr>hv_free = [], hv_chain = (\<lambda>_. []), hv_objs = (\<lambda>_. []), hv_dpages = {}\<rparr>"

lemma sample_heap_simps [simp]:
  "used (sample_heap m u) = unat u" "npages (sample_heap m u) = 5" "ram (sample_heap m u) = m"
  "bucket_dir (sample_heap m u) = initial_bucket_dir" "free_bucket_desc (sample_heap m u) = 0"
  "allocated (sample_heap (\<lambda>_. 0) u) = {}" "allocated (sample_heap (\<lambda>_. 1) u) = {0..<5}"
  by (auto simp: sample_heap_def memory_state.extend_def malloc_state.fields_def sample_memory_def
      used_def npages_def allocated_def)

lemma sample_heap_ok [simp]:
  "mem_ok (sample_heap (\<lambda>_. 0) 0)" "mem_ok (sample_heap (\<lambda>_. 1) 5)"
  by (simp_all add: mem_ok_def mem_wf_def log_inv_def con_inv_def)
    (simp_all add: sample_heap_def memory_state.extend_def malloc_state.fields_def sample_memory_def
      del: replicate_numeral)

lemma empty_view_heap:
  assumes "\<forall>p\<in>own. page_of p = p \<and> 0x100000 \<le> unat p"
  shows "heap_mem m initial_bucket_dir 0 own empty_view"
proof (rule heap_memI)
  have nth: "bucket_chain (initial_bucket_dir ! i) = 0" if "i < 9" for i
    unfolding initial_bucket_dir_def by (subst nth_map) (use that in \<open>simp_all add: nth_Cons'\<close>)
  show "links (d_next m) (bucket_chain (initial_bucket_dir ! i)) (hv_chain empty_view i)" if "i < 9" for i
    using nth [OF that] by (simp add: empty_view_def)
qed (use assms in \<open>auto simp: empty_view_def view_ok_def in_chain_def initial_bucket_dir_def\<close>)

lemma sample_heap_rep [simp]:
  "heap_rep (sample_heap (\<lambda>_. 0) 0) empty_view" "heap_rep (sample_heap (\<lambda>_. 1) 5) empty_view"
  "objects (sample_heap m u) empty_view = {}"
proof -
  have "mem_wf (sample_heap (\<lambda>_. 0) 0)" "mem_wf (sample_heap (\<lambda>_. 1) 5)"
    using sample_heap_ok by (simp_all only: mem_ok_def)
  then show "heap_rep (sample_heap (\<lambda>_. 0) 0) empty_view" "heap_rep (sample_heap (\<lambda>_. 1) 5) empty_view"
    using owned_page by (auto simp: heap_rep_def intro!: empty_view_heap)
  show "objects (sample_heap m u) empty_view = {}"
    by (simp add: objects_def live_def empty_view_def in_chain_def)
qed

section \<open>Several requests\<close>

text \<open>\<open>kmalloc\<close> called once for each length, in order.\<close>

fun kmalloc_all :: "u32 list \<Rightarrow> 'a malloc_state_scheme \<Rightarrow> (u32 list \<times> 'a malloc_state_scheme) option" where
  "kmalloc_all [] s = Some ([], s)"
| "kmalloc_all (l # ls) s = do { (p, s) \<leftarrow> kmalloc l s; (ps, s) \<leftarrow> kmalloc_all ls s; Some (p # ps, s) }"

lemma kmalloc_small:
  assumes rep: "heap_rep s H" and len: "len \<le> 4096" and pages: "2 \<le> card (avail s)"
  obtains x s' H' where "kmalloc len s = Some (x, s')" and "heap_rep s' H'" and "x \<noteq> 0"
    and "(x, bucket_bytes (size_class len)) \<notin> objects s H"
    and "objects s' H' = insert (x, bucket_bytes (size_class len)) (objects s H)"
    and "card (avail s) \<le> card (avail s') + 2"
proof -
  have "\<not> {used s..<npages s} \<subseteq> allocated s"
    using pages by (auto simp: avail_empty [symmetric])
  then show thesis
    using kmalloc_heap [OF rep size_class_props(4) [OF len]] pages that
    by (cases "kmalloc len s") auto
qed

lemma kmalloc_all_heap:
  assumes "heap_rep s H" and "\<forall>l\<in>set ls. l \<le> 4096" and "2 * length ls \<le> card (avail s)"
  shows "\<exists>ps s' H'. kmalloc_all ls s = Some (ps, s') \<and> heap_rep s' H' \<and> length ps = length ls \<and> 0 \<notin> set ps
    \<and> (let new = zip ps (map (\<lambda>l. bucket_bytes (size_class l)) ls)
       in distinct new \<and> set new \<inter> objects s H = {} \<and> objects s' H' = objects s H \<union> set new)"
  using assms
proof (induction ls arbitrary: s H)
  case Nil
  then show ?case
    by (intro exI [of _ "[]"] exI [of _ s] exI [of _ H]) simp
next
  case (Cons l ls)
  obtain x t H1 where t: "kmalloc l s = Some (x, t)" "heap_rep t H1" "x \<noteq> 0"
    "(x, bucket_bytes (size_class l)) \<notin> objects s H"
    "objects t H1 = insert (x, bucket_bytes (size_class l)) (objects s H)" "card (avail s) \<le> card (avail t) + 2"
    using kmalloc_small [OF Cons.prems(1), of l] Cons.prems(2,3) by auto
  obtain ps s' H' where "kmalloc_all ls t = Some (ps, s')" "heap_rep s' H'" "length ps = length ls" "0 \<notin> set ps"
    "let new = zip ps (map (\<lambda>l. bucket_bytes (size_class l)) ls)
     in distinct new \<and> set new \<inter> objects t H1 = {} \<and> objects s' H' = objects t H1 \<union> set new"
    using Cons.IH [OF t(2)] Cons.prems(2,3) t(6) by auto
  then show ?case
    using t by (intro exI [of _ "x # ps"] exI [of _ s'] exI [of _ H']) (auto simp: Let_def)
qed

lemma sample_heap_avail [simp]: "card (avail (sample_heap (\<lambda>_. 0) 0)) = 5"
  by (simp add: avail_def)

lemma size_class_100 [simp]: "size_class 100 = 3"
proof -
  have "find_dir initial_bucket_dir 100 = Some (size_class 100)"
    by (rule find_dir_class(1)) (simp add: initial_bucket_dir_def)
  then show ?thesis
    by (simp add: initial_bucket_dir_def)
qed

lemma sample_kmalloc:
  obtains x s H where "kmalloc 100 (sample_heap (\<lambda>_. 0) 0) = Some (x, s)" and "x \<noteq> 0" and "heap_rep s H"
    and "objects s H = {(x, 128)}"
proof -
  obtain x s H where "kmalloc 100 (sample_heap (\<lambda>_. 0) 0) = Some (x, s)" "heap_rep s H" "x \<noteq> 0"
    "objects s H = insert (x, bucket_bytes (size_class 100)) (objects (sample_heap (\<lambda>_. 0) 0) empty_view)"
    by (rule kmalloc_small [OF sample_heap_rep(1), of 100]) simp_all
  then show thesis
    using that by (simp add: bucket_bytes_def)
qed

section \<open>Properties\<close>

text \<open>
  C20: \<open>kmalloc\<close> of at most 4096 bytes adds one object that is large enough, was not in use, and leaves
  the contents of all objects in use alone; or, when fewer than two pages are available, it may answer
  NULL and the objects are what they were.
  It has no result (a null pointer is followed) only when the descriptor list is empty and no page
  is left. On return interrupts are enabled.
\<close>

theorem kmalloc_adds_object:
  assumes "heap_rep s H" and "len \<le> 4096"
  shows "case kmalloc len s of
      None \<Rightarrow> free_bucket_desc s = 0 \<and> {used s..<npages s} \<subseteq> allocated s
    | Some (x, s') \<Rightarrow> iflag s' \<and> keeps_objects s H s' \<and>
        (\<exists>H' n. heap_rep s' H' \<and> unat len \<le> n \<and>
          (x = 0 \<and> objects s' H' = objects s H \<and> card (avail s) \<le> 1
           \<or> x \<noteq> 0 \<and> (x, n) \<notin> objects s H \<and> objects s' H' = insert (x, n) (objects s H)))"
proof -
  have "size_class len < 9" and fits: "unat len \<le> bucket_bytes (size_class len)"
    using size_class_props(2,4) [of len] assms(2) by simp_all
  from kmalloc_heap [OF assms(1) this(1)] show ?thesis
    using fits by (auto split: option.splits)
qed

theorem kmalloc_adds_object_witness:
  "\<exists>x s' H' n. kmalloc 100 (sample_heap (\<lambda>_. 0) 0) = Some (x, s') \<and> heap_rep s' H' \<and> 100 \<le> n \<and> x \<noteq> 0
     \<and> objects s' H' = {(x, n)}"
  using kmalloc_adds_object [OF sample_heap_rep(1), of 100]
  by (cases "kmalloc 100 (sample_heap (\<lambda>_. 0) 0)") auto

text \<open>
  C22: with two pages available per request, any sequence of requests of at most 4096 bytes is
  served: no answer is NULL, the objects are new, pairwise different and large enough.
\<close>

theorem kmalloc_all_served:
  assumes "heap_rep s H" and "\<forall>l\<in>set ls. l \<le> 4096" and "2 * length ls \<le> card (avail s)"
  shows "\<exists>ps s' H' ns. kmalloc_all ls s = Some (ps, s') \<and> heap_rep s' H' \<and> 0 \<notin> set ps
    \<and> length ps = length ls \<and> list_all2 (\<lambda>l n. unat l \<le> n) ls ns
    \<and> distinct (zip ps ns) \<and> set (zip ps ns) \<inter> objects s H = {} \<and> objects s' H' = objects s H \<union> set (zip ps ns)"
proof -
  have "list_all2 (\<lambda>l n. unat l \<le> n) ls (map (\<lambda>l. bucket_bytes (size_class l)) ls)"
    using assms(2) size_class_props(2,4) by (simp add: list_all2_conv_all_nth)
  then show ?thesis
    using kmalloc_all_heap [OF assms] unfolding Let_def by blast
qed

theorem kmalloc_all_served_witness:
  "\<exists>x y s. kmalloc_all [16, 4096] (sample_heap (\<lambda>_. 0) 0) = Some ([x, y], s) \<and> x \<noteq> 0 \<and> y \<noteq> 0"
proof -
  obtain ps s where "kmalloc_all [16, 4096] (sample_heap (\<lambda>_. 0) 0) = Some (ps, s)" "0 \<notin> set ps" "length ps = 2"
    using kmalloc_all_served [OF sample_heap_rep(1), of "[16, 4096]"] by auto
  then show ?thesis
    by (auto simp: numeral_2_eq_2 length_Suc_conv)
qed

text \<open>
  C21: \<open>kfree_s\<close> of an object in use, with a size hint not above the object's, takes exactly that
  object out of use; of all object pages and the kernel's own memory it writes only the first four
  bytes of that object.
\<close>

theorem kfree_s_removes_object:
  assumes "heap_rep s H" and "(x, n) \<in> objects s H" and "sint sz \<le> int n"
  shows "\<exists>s' H'. kfree_s x sz s = Some s' \<and> heap_rep s' H' \<and> objects s' H' = objects s H - {(x, n)} \<and> iflag s'
    \<and> (\<forall>y. untouched s H y \<longrightarrow> \<not> in_range x 4 y \<longrightarrow> ram s' y = ram s y)"
  using kfree_s_object [OF assms] by blast

theorem kfree_s_removes_object_witness:
  "\<exists>x s s'. kmalloc 100 (sample_heap (\<lambda>_. 0) 0) = Some (x, s) \<and> x \<noteq> 0 \<and> kfree_s x 0 s = Some s'
     \<and> (\<exists>H'. heap_rep s' H' \<and> objects s' H' = {})"
proof -
  obtain x s H where s: "kmalloc 100 (sample_heap (\<lambda>_. 0) 0) = Some (x, s)" "x \<noteq> 0" "heap_rep s H"
    "objects s H = {(x, 128)}"
    by (rule sample_kmalloc)
  then show ?thesis
    using kfree_s_removes_object [OF s(3), of x 128 0] by auto
qed

text \<open>
  C23: what \<open>kmalloc\<close> handed out, \<open>kfree_s\<close> takes back: afterwards the same objects are in use.
\<close>

theorem kfree_s_undoes_kmalloc:
  assumes "heap_rep s H" and "len \<le> 4096" and "kmalloc len s = Some (x, s1)" and "x \<noteq> 0"
  shows "\<exists>s2 H2. kfree_s x len s1 = Some s2 \<and> heap_rep s2 H2 \<and> objects s2 H2 = objects s H"
proof -
  have len: "size_class len < 9" "unat len \<le> bucket_bytes (size_class len)"
    using size_class_props(2,4) [of len] assms(2) by simp_all
  obtain H1 where H1: "heap_rep s1 H1" "(x, bucket_bytes (size_class len)) \<notin> objects s H"
    "objects s1 H1 = insert (x, bucket_bytes (size_class len)) (objects s H)"
    using kmalloc_heap [OF assms(1) len(1)] assms(3,4) by auto
  obtain i d where d: "in_chain H1 i d" "bucket_bytes (size_class len) = bucket_bytes i"
    "x \<in> set (slots (d_page (ram s1) d) (bucket_bytes i))" "x \<notin> set (hv_objs H1 d)"
    using objects_owner [OF H1(1), of x "bucket_bytes (size_class len)"] H1(3) by auto
  have "sint len = int (unat len)"
    using assms(2) sint_of_nat_small [of "unat len"] by (simp add: word_le_nat_alt)
  also have "\<dots> \<le> int (bucket_bytes i)"
    using len(2) d(2) by linarith
  finally have "sint len \<le> int (bucket_bytes i)" .
  then show ?thesis
    using kfree_s_heap [OF H1(1) d(1,3,4), of len] H1(2,3) d(2) by auto
qed

theorem kfree_s_undoes_kmalloc_witness:
  "\<exists>x s s'. kmalloc 100 (sample_heap (\<lambda>_. 0) 0) = Some (x, s) \<and> x \<noteq> 0 \<and> kfree_s x 100 s = Some s'"
proof -
  obtain x s where s: "kmalloc 100 (sample_heap (\<lambda>_. 0) 0) = Some (x, s)" "x \<noteq> 0"
    by (rule sample_kmalloc)
  then show ?thesis
    using kfree_s_undoes_kmalloc [OF sample_heap_rep(1) _ s] by auto
qed

lemma too_large_message:
  assumes "log_inv s"
  obtains s' where "print_message (cstr ''malloc called with impossibly large argument (%d)'' @ [10]) [Slot n] s = Some s'"
    and "log_inv s'" and "log_frame s s'" and "iflag s'"
proof -
  have "vsprintf (ram s) (cstr ''malloc called with impossibly large argument (%d)'' @ [10]) [Slot n] =
      Some (cstr ''malloc called with impossibly large argument ('' @ dec_signed n @ cstr '')'' @ [10], ram s)"
    by (simp add: vsprintf_def format_simps [simplified])
  moreover have "length (cstr ''malloc called with impossibly large argument ('' @ dec_signed n @ cstr '')'' @ [10]) \<le> 1023"
    using length_dec_signed [of n] by simp
  ultimately show thesis
    using printk_message [OF assms] that by blast
qed

text \<open>
  A request of more than 4096 bytes is refused with a message: the answer is NULL and the heap,
  its objects and the page allocator are unchanged.
\<close>

theorem kmalloc_too_large:
  assumes "heap_rep s H" and "4096 < len"
  shows "\<exists>s'. kmalloc len s = Some (0, s') \<and> heap_rep s' H \<and> objects s' H = objects s H
    \<and> owned_pages s' = owned_pages s"
proof -
  have ok: "mem_ok s" and wf: "mem_wf s" and log: "log_inv s"
    and inv: "heap_mem (ram s) (bucket_dir s) (free_bucket_desc s) (owned_pages s) H"
    using assms(1) by (simp_all add: heap_rep_def mem_ok_def mem_wf_def)
  have "size_class len = 9"
  proof (rule ccontr)
    assume "size_class len \<noteq> 9"
    then have "size_class len < 9"
      using size_class_props(1) [of len] by simp
    then have "unat len \<le> 4096"
      using size_class_props(2) [of len] bucket_bytes_props(4) [of "size_class len"] by simp
    with assms(2) show False
      by (simp add: word_less_nat_alt)
  qed
  then have dir: "find_dir (bucket_dir s) len = Some (size_class len)"
    "bucket_size (bucket_dir s ! size_class len) = 0"
    using find_dir_class [OF heap_memD(11) [OF inv], of len] by simp_all
  obtain s' where msg: "print_message (cstr ''malloc called with impossibly large argument (%d)'' @ [10]) [Slot len] s = Some s'"
    and s': "log_inv s'" "log_frame s s'"
    using too_large_message [OF log, of len] by blast
  note mem = log_frame_mem [OF s'(2,1) wf]
  have more: "bucket_dir s' = bucket_dir s" "free_bucket_desc s' = free_bucket_desc s"
    using mem(4) memory_more_malloc [of s' s] by (simp_all add: mem_frame_def)
  have own: "owned_pages s' = owned_pages s"
    using mem(2) by (simp add: owned_pages_def)
  have same: "ram s' y = ram s y" if "block_of y \<in> cells H" for y
    using heap_mem_cells(2) [OF inv that] owned_outside [OF wf, of y] mem(4) by (simp add: mem_frame_def)
  have pages: "\<forall>q\<in>owned_pages s. page_of q = q \<and> 0x100000 \<le> unat q"
    using owned_page [OF wf] by simp
  have "heap_mem (ram s') (bucket_dir s) (free_bucket_desc s) (owned_pages s) H"
    and "live (ram s') H = live (ram s) H"
    by (rule heap_mem_same [OF inv same subset_refl pages], assumption)+
  moreover have "mem_ok s'"
    using ok mem by (simp add: mem_ok_def)
  moreover have "kmalloc len s = Some (0, s')"
    using dir msg by (simp add: kmalloc_def)
  ultimately show ?thesis
    using more own by (simp add: heap_rep_def objects_def)
qed

theorem kmalloc_too_large_witness:
  "\<exists>s'. kmalloc 5000 (sample_heap (\<lambda>_. 0) 0) = Some (0, s') \<and> objects s' empty_view = {}"
  using kmalloc_too_large [OF sample_heap_rep(1), of 5000] by auto

text \<open>
  With no page left and no descriptor and no object of the size free, \<open>init_bucket_desc\<close> returns
  without a descriptor and \<open>kmalloc\<close> follows the null pointer instead of answering NULL.
\<close>

theorem kmalloc_null_descriptor:
  assumes "heap_rep s H" and "len \<le> 4096" and "free_bucket_desc s = 0"
    and "{used s..<npages s} \<subseteq> allocated s" and "\<forall>i d. in_chain H i d \<longrightarrow> hv_objs H d = []"
  shows "kmalloc len s = None"
proof -
  let ?i = "size_class len"
  have i: "?i < 9"
    using size_class_props(4) [OF assms(2)] .
  have cli: "CLI s = s\<lparr>iflag := False\<rparr>"
    by (simp add: CLI_def)
  then have rep: "heap_rep (CLI s) H"
    using assms(1) by simp
  have wf: "mem_wf (CLI s)"
    using rep by (simp add: heap_rep_def mem_ok_def)
  have inv: "heap_mem (ram s) (bucket_dir s) (free_bucket_desc s) (owned_pages s) H"
    using assms(1) by (simp add: heap_rep_def)
  note dir = find_dir_class [OF heap_memD(11) [OF inv], of len]
  obtain d where find: "find_bucket (ram s) (bucket_chain (bucket_dir s ! ?i)) = Some d"
    and "d = 0 \<or> (\<exists>x xs. in_chain H ?i d \<and> hv_objs H d = x # xs \<and> d_freeptr (ram s) d = x \<and> x \<noteq> 0 \<and> d \<noteq> 0)"
    using find_bucket_chain [OF inv i] by auto
  then have d: "d = 0"
    using assms(5) by auto
  have same: "used (CLI s) = used s" "npages (CLI s) = npages s" "allocated (CLI s) = allocated s"
    by (simp_all add: cli used_def npages_def allocated_def)
  obtain s1 where get: "get_free_page (CLI s) = Some (0, s1)" "mem_frame (CLI s) s1"
    using get_free_page_step [OF wf] assms(4) same by auto
  have fb: "free_bucket_desc s1 = 0"
    using get(2) memory_more_malloc [of s1 "CLI s"] assms(3) by (simp add: mem_frame_def cli)
  have "init_bucket_desc (CLI s) = Some s1"
    using get(1) by (simp add: init_bucket_desc_def)
  then have "new_bucket ?i (CLI s) = None"
    using assms(3) fb by (simp add: new_bucket_def cli)
  then show ?thesis
    using dir i find d by (simp add: kmalloc_def cli)
qed

theorem kmalloc_null_descriptor_witness: "kmalloc 64 (sample_heap (\<lambda>_. 1) 5) = None"
  by (rule kmalloc_null_descriptor [OF sample_heap_rep(2)])
    (auto simp: empty_view_def in_chain_def)

text \<open>
  \<open>kmalloc\<close> clears the interrupt flag before it works on a bucket, but a new bucket needs a page,
  \<open>get_free_page\<close> logs, and \<open>printk\<close> sets the flag: the bucket is finished and the object taken
  with interrupts enabled.
\<close>

theorem new_bucket_opens_critical_section:
  assumes "heap_rep s H" and "i < 9" and "new_bucket i (CLI s) = Some (d, s')"
  shows "\<not> iflag (CLI s) \<and> iflag s'"
proof -
  have "heap_rep (CLI s) H"
    using assms(1) by (simp add: CLI_def)
  from new_bucket_heap [OF this assms(2)] assms(3) show ?thesis
    by simp
qed

theorem new_bucket_opens_critical_section_witness:
  "\<exists>d s'. new_bucket 3 (CLI (sample_heap (\<lambda>_. 0) 0)) = Some (d, s') \<and> iflag s'"
proof -
  let ?s = "CLI (sample_heap (\<lambda>_. 0) 0)"
  have rep: "heap_rep ?s empty_view"
    using sample_heap_rep(1) by (simp add: CLI_def)
  have "avail ?s = avail (sample_heap (\<lambda>_. 0) 0)"
    by (simp add: CLI_def avail_def used_def npages_def allocated_def)
  then have "\<not> {used ?s..<npages ?s} \<subseteq> allocated ?s"
    using sample_heap_avail by (metis avail_empty card.empty zero_neq_numeral)
  then obtain d s' where run: "new_bucket 3 ?s = Some (d, s')"
    using new_bucket_heap [OF rep, of 3] by (cases "new_bucket 3 ?s") auto
  then show ?thesis
    using new_bucket_opens_critical_section [OF sample_heap_rep(1) _ run] by auto
qed

end
