(* ===== verification/Descriptors_Spec.thy ===== *)
theory Descriptors_Spec
  imports Descriptors Malloc_Props
begin

text \<open>
  What the processor finds in the tables that \<open>gdt_init\<close> and \<open>idt_init\<close> build: every gate leads to
  its handler, the two new segments are flat and of privilege level 3, and of the old table as many
  bytes are copied as its limit says.
\<close>

section \<open>Descriptors as the processor reads them\<close>

definition gate_target :: "interrupt_gate \<Rightarrow> u32" where
  "gate_target g = ucast (offset0 g) OR push_bit 16 (ucast (offset1 g))"

definition seg_base :: "gdt_item \<Rightarrow> u32" where
  "seg_base g = ucast (base_low g) OR push_bit 24 (ucast (base_high g))"

definition seg_limit :: "gdt_item \<Rightarrow> u32" where
  "seg_limit g =
     (let l = ucast (limit_low g) OR push_bit 16 (ucast (limit_high g))
      in if granularity g = 1 then push_bit 12 l OR 0xfff else l)"

definition table_entry :: "mem \<Rightarrow> u32 \<Rightarrow> nat \<Rightarrow> u64" where
  "table_entry m tbl i = load64 m (tbl + of_nat (8 * i))"

section \<open>Entries of a table\<close>

lemma in_range_below:
  assumes "k < j" and "j + n \<le> 2 ^ 32"
  shows "\<not> in_range (a + of_nat j) n (a + of_nat k)"
proof
  assume "in_range (a + of_nat j) n (a + of_nat k)"
  then obtain i where "i < n" and "a + of_nat k = a + of_nat (j + i)"
    by (auto elim!: in_rangeE simp: add.assoc)
  then show False
    using word_offset_unique [of k "j + i" a] assms by simp
qed

lemma entries_disjoint:
  assumes "i \<noteq> j" and "i < 256" and "j < 256"
  shows "disjoint_ranges (a + of_nat (8 * i)) 8 (a + of_nat (8 * j)) 8"
  unfolding disjoint_ranges_def
proof (intro allI impI notI)
  fix x
  assume "in_range (a + of_nat (8 * i)) 8 x" and "in_range (a + of_nat (8 * j)) 8 x"
  then obtain k l where kl: "k < 8" "l < 8"
    and "a + of_nat (8 * i + k) = x" "a + of_nat (8 * j + l) = x"
    by (auto elim!: in_rangeE simp: add.assoc)
  then have "8 * i + k = 8 * j + l"
    using word_offset_unique [of "8 * i + k" "8 * j + l" a] assms(2,3) by simp
  then have "(8 * i + k) div 8 = (8 * j + l) div 8"
    by simp
  then show False
    using kl assms(1) by simp
qed

lemma store64_other:
  assumes "\<not> in_range a 8 x"
  shows "store64 m a w x = m x"
proof -
  have "\<not> in_range a 4 x" "\<not> in_range (a + 4) 4 x"
    using assms in_range_sub [of a 4 4 x 8] in_range_weaken [of a 4 x 8] by auto
  then show ?thesis
    by (simp add: store64_def store32_other)
qed

lemma load64_cong:
  assumes "\<And>x. in_range a 8 x \<Longrightarrow> m' x = m x"
  shows "load64 m' a = load64 m a"
proof -
  have "load32 m' a = load32 m a" "load32 m' (a + 4) = load32 m (a + 4)"
    using assms in_range_sub [of a 4 4 _ 8] in_range_weaken [of a 4 _ 8]
    by (auto intro!: load32_cong)
  then show ?thesis
    by (simp add: load64_def)
qed

lemma load64_store64_disjoint:
  "disjoint_ranges b 8 a 8 \<Longrightarrow> load64 (store64 m a w) b = load64 m b"
  by (rule load64_cong) (simp add: store64_other disjoint_ranges_def)

section \<open>The interrupt table\<close>

lemma set_gate_value:
  "set_gate hs i p =
     \<lparr>offset0 = ucast (gate_handler hs i), selector = 8, reserved = 0, gate_type = 14, gate_segment = 0,
      gate_DPL = 0, gate_present = 1, offset1 = ucast (drop_bit 16 (gate_handler hs i))\<rparr>"
proof -
  have mask: "(0xffff :: u32) = mask 16"
    by (simp add: mask_eq_exp_minus_1)
  have low: "ucast (h AND 0xffff) = (ucast h :: u16)" for h :: u32
    unfolding mask by (rule bit_word_eqI) (simp add: bit_simps)
  have high: "ucast (signed_drop_bit 16 h) = (ucast (drop_bit 16 h) :: u16)" for h :: u32
    by (rule bit_word_eqI) (simp add: bit_simps min_def)
  show ?thesis
    by (cases p) (simp add: set_gate_def Let_def low high)
qed

lemma gate_loop_entries:
  assumes "n \<le> 256" and "i < 256"
  shows "table_entry (gate_loop hs tbl n m) tbl i =
    (if 256 - n \<le> i then gate_word (set_gate hs i undefined) else table_entry m tbl i)"
  using assms
proof (induction n arbitrary: m)
  case 0
  then show ?case by simp
next
  case (Suc n)
  let ?j = "256 - Suc n" and ?w = "gate_word (set_gate hs (256 - Suc n) undefined)"
  have step: "gate_loop hs tbl (Suc n) m = gate_loop hs tbl n (store64 m (tbl + of_nat (8 * ?j)) ?w)"
    unfolding set_gate_value by (simp add: Let_def set_gate_value)
  have entry: "table_entry (store64 m (tbl + of_nat (8 * ?j)) ?w) tbl i =
      (if i = ?j then ?w else table_entry m tbl i)"
    using entries_disjoint [of i ?j tbl] Suc.prems
    by (auto simp: table_entry_def load64_store64_disjoint)
  show ?case
    unfolding step using Suc.IH [of "store64 m (tbl + of_nat (8 * ?j)) ?w"] Suc.prems entry
    by (auto simp del: of_nat_mult)
qed

lemma gate_loop_other:
  assumes "n \<le> 256" and "\<not> in_range tbl 2048 x"
  shows "gate_loop hs tbl n m x = m x"
  using assms
proof (induction n arbitrary: m)
  case 0
  then show ?case by simp
next
  case (Suc n)
  have "\<not> in_range (tbl + of_nat (8 * (256 - Suc n))) 8 x"
    using in_range_sub [of tbl "8 * (256 - Suc n)" 8 x 2048] Suc.prems by auto
  then show ?case
    using Suc.IH Suc.prems by (simp add: Let_def store64_other)
qed

lemma halves_word: "ucast (ucast h :: u16) OR push_bit 16 (ucast (ucast (drop_bit 16 h) :: u16)) = (h :: u32)"
  by (rule bit_word_eqI) (auto simp: bit_simps)


section \<open>The segment table\<close>

definition flat_item :: "4 word \<Rightarrow> gdt_item" where
  "flat_item t = \<lparr>limit_low = 0xffff, base_low = 0, seg_type = t, segment = 1, DPL = 3, present = 1,
     limit_high = 0xf, available = 0, long_mode = 0, big = 1, granularity = 1, base_high = 0\<rparr>"

lemma set_gdt_item_flat:
  assumes "\<not> i <s 4" and "unat i < 256"
  shows "set_gdt_item t gdt i 0 0xfffff s =
    Some (s\<lparr>ram := store64 (ram s) (gdt + 8 * i) (gdt_item_word (flat_item t))\<rparr>)"
  using assms
  by (cases "word_gdt_item (load64 (ram s) (gdt + 8 * i))") (simp add: set_gdt_item_def Let_def flat_item_def)

text \<open>A usable segment over the whole address space for privilege level 3.\<close>

definition flat_user_segment :: "4 word \<Rightarrow> gdt_item \<Rightarrow> bool" where
  "flat_user_segment t g \<longleftrightarrow> seg_base g = 0 \<and> seg_limit g = 0xffffffff \<and> seg_type g = t
     \<and> segment g = 1 \<and> DPL g = 3 \<and> present g = 1 \<and> big g = 1"

lemma flat_item_segment: "flat_user_segment t (flat_item t)"
  by (simp add: flat_user_segment_def flat_item_def seg_base_def seg_limit_def)

lemma unat_scast_small:
  fixes w :: u16
  assumes "unat w < 2 ^ 15"
  shows "unat (scast w :: u32) = unat w"
proof -
  have "uint w < 2 ^ 15"
    using assms by (metis uint_nat of_nat_less_iff of_nat_numeral of_nat_power)
  moreover have "- (2 ^ 15) \<le> uint w"
    by (rule order_trans [OF _ uint_ge_0]) simp
  ultimately have "signed_take_bit 15 (uint w) = uint w"
    by (intro signed_take_bit_int_eq_self)
  then have "sint w = int (unat w)"
    by (simp add: sint_uint)
  then have "(scast w :: u32) = of_nat (unat w)"
    by (metis of_int_of_nat_eq of_int_sint)
  then show ?thesis
    using assms by (simp add: unat_of_nat_small del: of_nat_unat)
qed

lemma gdt_init_run:
  fixes s :: "'a table_state_scheme" and gdt :: u32
  assumes "xdt_limit (gdtr s) \<le> 32"
  defines "m \<equiv> memcpy_loop (ram s) gdt (xdt_base (gdtr s)) (unat (xdt_limit (gdtr s)))"
  shows "\<exists>s'. gdt_init gdt s = Some s' \<and> gdtr s' = \<lparr>xdt_limit = 2047, xdt_base = gdt\<rparr>
    \<and> ram s' = store64 (store64 m (gdt + 32) (gdt_item_word (flat_item 8))) (gdt + 40) (gdt_item_word (flat_item 2))
    \<and> r3_code_selector s' = 0x23 \<and> r3_data_selector s' = 0x2b
    \<and> malloc_state.truncate (s'\<lparr>ram := ram s\<rparr>) = malloc_state.truncate s \<and> table_state.more s' = table_state.more s"
proof -
  have "unat (xdt_limit (gdtr s)) \<le> 32"
    using assms(1) by (simp add: word_le_nat_alt)
  then have "unat (scast (xdt_limit (gdtr s)) :: u32) = unat (xdt_limit (gdtr s))"
    by (intro unat_scast_small) simp
  then show ?thesis
    by (simp add: gdt_init_def Let_def r3_gdt_code_item_def r3_gdt_data_item_def set_gdt_item_flat memcpy_def m_def
        malloc_state.truncate_def)
qed

section \<open>A machine with tables\<close>

definition sample_tables :: table_state where
  "sample_tables = malloc_state.extend (sample_heap (\<lambda>_. 0) 0)
     (table_state.fields \<lparr>xdt_limit = 32, xdt_base = 0x5000\<rparr> \<lparr>xdt_limit = 0, xdt_base = 0\<rparr>
       \<lparr>xdt_limit = 0, xdt_base = 0\<rparr> \<lparr>xdt_limit = 0, xdt_base = 0\<rparr> 0 0)"

section \<open>Properties\<close>

lemma gdt_init_ok:
  fixes s :: "'a table_state_scheme" and gdt :: u32
  assumes "xdt_limit (gdtr s) \<le> 32" and "32 \<le> unat (gdt - xdt_base (gdtr s))"
  shows "\<exists>s'. gdt_init gdt s = Some s' \<and> gdtr s' = \<lparr>xdt_limit = 2047, xdt_base = gdt\<rparr>
    \<and> mem_bytes (ram s') gdt (unat (xdt_limit (gdtr s))) =
        mem_bytes (ram s) (xdt_base (gdtr s)) (unat (xdt_limit (gdtr s)))
    \<and> (\<forall>k. unat (xdt_limit (gdtr s)) \<le> k \<and> k < 32 \<longrightarrow> ram s' (gdt + of_nat k) = ram s (gdt + of_nat k))
    \<and> flat_user_segment 8 (word_gdt_item (table_entry (ram s') gdt 4)) \<and> r3_code_selector s' = 0x23
    \<and> flat_user_segment 2 (word_gdt_item (table_entry (ram s') gdt 5)) \<and> r3_data_selector s' = 0x2b
    \<and> (\<forall>x. \<not> in_range gdt 48 x \<longrightarrow> ram s' x = ram s x)
    \<and> malloc_state.truncate (s'\<lparr>ram := ram s\<rparr>) = malloc_state.truncate s \<and> table_state.more s' = table_state.more s"
proof -
  let ?n = "unat (xdt_limit (gdtr s))" and ?old = "xdt_base (gdtr s)"
  have n: "?n \<le> 32"
    using assms(1) by (simp add: word_le_nat_alt)
  define m where "m = memcpy_loop (ram s) gdt ?old ?n"
  obtain s' where run: "gdt_init gdt s = Some s'" "gdtr s' = \<lparr>xdt_limit = 2047, xdt_base = gdt\<rparr>"
    "r3_code_selector s' = 0x23" "r3_data_selector s' = 0x2b"
    and ram: "ram s' = store64 (store64 m (gdt + 32) (gdt_item_word (flat_item 8))) (gdt + 40) (gdt_item_word (flat_item 2))"
    and same: "malloc_state.truncate (s'\<lparr>ram := ram s\<rparr>) = malloc_state.truncate s" "table_state.more s' = table_state.more s"
    using gdt_init_run [OF assms(1), of gdt] unfolding m_def by blast
  have m: "m = mem_write (ram s) gdt (mem_bytes (ram s) ?old ?n)"
    unfolding m_def using assms(2) n by (intro memcpy_loop_write) simp_all
  have low: "ram s' (gdt + of_nat k) = m (gdt + of_nat k)" if "k < 32" for k
  proof -
    have "\<not> in_range (gdt + of_nat 32) 8 (gdt + of_nat k)" "\<not> in_range (gdt + of_nat 40) 8 (gdt + of_nat k)"
      using that in_range_below [of k 32 8 gdt] in_range_below [of k 40 8 gdt] by simp_all
    then show ?thesis
      by (simp add: ram store64_other)
  qed
  have "disjoint_ranges (gdt + of_nat (8 * 4)) 8 (gdt + of_nat (8 * 5)) 8"
    by (rule entries_disjoint) simp_all
  then have "table_entry (ram s') gdt 4 = gdt_item_word (flat_item 8)" "table_entry (ram s') gdt 5 = gdt_item_word (flat_item 2)"
    by (simp_all add: table_entry_def ram load64_store64_disjoint)
  moreover have "mem_bytes (ram s') gdt ?n = mem_bytes (ram s) ?old ?n"
    using low n by (intro nth_equalityI) (simp_all add: m mem_write_nth)
  moreover have "ram s' (gdt + of_nat k) = ram s (gdt + of_nat k)" if "?n \<le> k" "k < 32" for k
    using low [OF that(2)] that by (simp add: m mem_write_other)
  moreover have "ram s' x = ram s x" if "\<not> in_range gdt 48 x" for x
  proof -
    have "\<not> in_range (gdt + of_nat k) j x" if "k + j \<le> 48" for k j
      using in_range_sub [of gdt k j x 48] that \<open>\<not> in_range gdt 48 x\<close> by auto
    from this [of 32 8] this [of 40 8] this [of 0 ?n] n show ?thesis
      by (simp add: ram store64_other m mem_write_other)
  qed
  ultimately show ?thesis
    using run same flat_item_segment by simp
qed

text \<open>
  C35: \<open>gdt_init\<close> loads a table of 256 entries whose entries 4 and 5 are flat segments of privilege
  level 3 over all 4 GB, for code (execute only) and writable data, with their selectors; into the
  entries before them it copies as many bytes of the old table as its limit says, and what the limit
  does not cover stays as it was.
\<close>

theorem gdt_init_segments:
  fixes s :: "'a table_state_scheme" and gdt :: u32
  assumes "xdt_limit (gdtr s) \<le> 32" and "32 \<le> unat (gdt - xdt_base (gdtr s))"
  shows "\<exists>s'. gdt_init gdt s = Some s' \<and> gdtr s' = \<lparr>xdt_limit = 2047, xdt_base = gdt\<rparr>
    \<and> mem_bytes (ram s') gdt (unat (xdt_limit (gdtr s))) =
        mem_bytes (ram s) (xdt_base (gdtr s)) (unat (xdt_limit (gdtr s)))
    \<and> (\<forall>k. unat (xdt_limit (gdtr s)) \<le> k \<and> k < 32 \<longrightarrow> ram s' (gdt + of_nat k) = ram s (gdt + of_nat k))
    \<and> flat_user_segment 8 (word_gdt_item (table_entry (ram s') gdt 4)) \<and> r3_code_selector s' = 0x23
    \<and> flat_user_segment 2 (word_gdt_item (table_entry (ram s') gdt 5)) \<and> r3_data_selector s' = 0x2b
    \<and> (\<forall>x. \<not> in_range gdt 48 x \<longrightarrow> ram s' x = ram s x)"
  using gdt_init_ok [OF assms] by blast

theorem gdt_init_segments_witness:
  "\<exists>s'. gdt_init 0x6000 sample_tables = Some s' \<and> gdtr s' = \<lparr>xdt_limit = 2047, xdt_base = 0x6000\<rparr>
     \<and> flat_user_segment 8 (word_gdt_item (table_entry (ram s') 0x6000 4))"
  using gdt_init_segments [of sample_tables "0x6000"]
  by (auto simp: sample_tables_def malloc_state.extend_def table_state.fields_def)

lemma idt_init_gate:
  assumes "i < 256"
  shows "table_entry (ram (idt_init hs tbl s)) tbl i = gate_word (set_gate hs i undefined)"
  using gate_loop_entries [of 256 i hs tbl "ram s"] assms by (simp add: idt_init_def Let_def)

lemma set_gate_target: "gate_target (set_gate hs i p) = gate_handler hs i"
  by (simp add: set_gate_value gate_target_def halves_word)

text \<open>
  C34: after \<open>idt_init\<close> the interrupt register names the table and every one of its 256 entries is a
  present interrupt gate of privilege level 0 in the kernel's code segment that leads to its
  handler: the clock's for vector 32, the keyboard's for 33, the exception stubs up to 21 and the
  common entry for all others. Memory outside the table is unchanged.
\<close>

theorem idt_init_gates:
  fixes s :: "'a table_state_scheme" and hs :: entry_points and tbl x :: u32
  assumes "i < 256"
  defines "g \<equiv> word_gate (table_entry (ram (idt_init hs tbl s)) tbl i)"
  shows "gate_target g =
      (if i = 32 then clock_handler_entry hs else if i = 33 then keymap_handler_entry hs
       else if i \<le> 21 then interrupt_handler_table hs i else interrupt_handler_entry hs)
    \<and> selector g = 8 \<and> gate_type g = 14 \<and> gate_segment g = 0 \<and> gate_DPL g = 0 \<and> gate_present g = 1
    \<and> idtr (idt_init hs tbl s) = \<lparr>xdt_limit = 2048, xdt_base = tbl\<rparr>
    \<and> (in_range tbl 2048 x \<or> ram (idt_init hs tbl s) x = ram s x)"
proof -
  have entry: "g = set_gate hs i undefined"
    by (simp add: g_def idt_init_gate [OF assms(1)])
  have "gate_target g = gate_handler hs i"
    by (simp add: entry set_gate_target)
  moreover have "idtr (idt_init hs tbl s) = \<lparr>xdt_limit = 2048, xdt_base = tbl\<rparr>"
    by (simp add: idt_init_def Let_def write_xdt_ptr_def)
  ultimately show ?thesis
    using gate_loop_other [of 256 tbl x hs "ram s"]
    by (auto simp: entry set_gate_value gate_handler_def Let_def idt_init_def)
qed

theorem idt_init_gates_witness:
  "gate_target (word_gate (table_entry (ram (idt_init
     \<lparr>interrupt_handler_entry = 0x8000, interrupt_handler_table = (\<lambda>i. 0x9000 + of_nat i),
      clock_handler_entry = 0xA000, keymap_handler_entry = 0xB000\<rparr> 0x6000 sample_tables)) 0x6000 14)) = 0x900E"
  using idt_init_gates [of 14 "\<lparr>interrupt_handler_entry = 0x8000, interrupt_handler_table = (\<lambda>i. 0x9000 + of_nat i),
      clock_handler_entry = 0xA000, keymap_handler_entry = 0xB000\<rparr>" "0x6000" sample_tables 0] by simp

end
