(* ===== verification/Keyboard_Spec.thy ===== *)
theory Keyboard_Spec
  imports Keyboard Descriptors_Spec
begin

text \<open>
  The keyboard driver refines a small abstract keyboard: the set of keys held down, the three lock
  states and whether the last byte announced an extended code. The handler is defined for every
  byte and every history, keeps the character columns of the table, and types the character the
  abstract keyboard names. The theorems at the end show what it does with Print Screen and with
  digits under Caps Lock.
\<close>

section \<open>The abstract keyboard\<close>

record kbd =
  held :: "(nat \<times> bool) set"
  caps :: bool
  scrl :: bool
  numl :: bool
  e0 :: bool

definition key_of :: "u8 \<Rightarrow> nat" where
  "key_of code = unat code mod 128"

text \<open>One make or break code, \<open>x\<close> saying whether it is an extended one.\<close>

definition kbd_key :: "kbd \<Rightarrow> bool \<Rightarrow> u8 \<Rightarrow> kbd" where
  "kbd_key k x code =
     (if 95 < key_of code then k
      else if 128 \<le> unat code then k\<lparr>held := held k - {(key_of code, x)}\<rparr>
      else k\<lparr>held := insert (key_of code, x) (held k), caps := (caps k \<noteq> (key_of code = 58)),
             scrl := (scrl k \<noteq> (key_of code = 70)), numl := (numl k \<noteq> (key_of code = 69))\<rparr>)"

definition kbd_step :: "kbd \<Rightarrow> u8 \<Rightarrow> kbd" where
  "kbd_step k code = (if code = 0xe0 then k\<lparr>e0 := True\<rparr> else kbd_key (k\<lparr>e0 := False\<rparr>) (e0 k) code)"

definition keymap_chars :: "(u8 \<times> u8) list" where
  "keymap_chars = keymap_chars_low @ keymap_chars_high"

definition shifted :: "kbd \<Rightarrow> bool" where
  "shifted k \<longleftrightarrow> caps k \<noteq> ((42, False) \<in> held k \<or> (54, False) \<in> held k)"

text \<open>The characters that the byte types: the second column for an extended key other than the slash.\<close>

definition typed_key :: "kbd \<Rightarrow> bool \<Rightarrow> u8 \<Rightarrow> u8 list" where
  "typed_key k x code =
     (if 95 < key_of code \<or> 128 \<le> unat code then []
      else
        (let c = (if x \<and> key_of code \<noteq> 53 \<or> shifted (kbd_key k x code) then snd (keymap_chars ! key_of code)
                  else fst (keymap_chars ! key_of code))
         in if c = 0 then [] else [c]))"

definition typed :: "kbd \<Rightarrow> u8 \<Rightarrow> u8 list" where
  "typed k code = (if code = 0xe0 then [] else typed_key (k\<lparr>e0 := False\<rparr>) (e0 k) code)"

section \<open>The relation with the driver\<close>

definition key_row :: "u8 list list \<Rightarrow> nat \<Rightarrow> bool" where
  "key_row km i \<longleftrightarrow> (\<exists>p x. km ! i = [fst (keymap_chars ! i), snd (keymap_chars ! i), p, x])"

definition kbd_inv :: "'a keyboard_state_scheme \<Rightarrow> bool" where
  "kbd_inv s \<longleftrightarrow> log_inv s \<and> length (keymap s) = 96 \<and> (\<forall>i<96. key_row (keymap s) i)"

definition state_col :: "bool \<Rightarrow> nat" where
  "state_col x = (if x then 3 else 2)"

definition kbd_abs :: "'a keyboard_state_scheme \<Rightarrow> kbd" where
  "kbd_abs s = \<lparr>held = {(i, x). i < 96 \<and> keymap s ! i ! state_col x \<noteq> 0}, caps = capslock_state s,
     scrl = scrlock_state s, numl = numlock_state s, e0 = extcode_state s\<rparr>"

section \<open>Scan codes\<close>

lemma unat_u8: "unat (v :: u8) < 256"
  using unsigned_less [of v] by simp

lemma unat_makecode: "unat (ucast (code AND 0x7f :: u8) :: u16) = key_of code"
proof -
  have "code AND 0x7f = code mod 128"
    using take_bit_eq_mask [of 7 code] by (simp add: mask_eq_exp_minus_1 take_bit_eq_mod)
  then have "unat (code AND 0x7f) = key_of code"
    by (simp add: unat_mod key_of_def)
  moreover have "unat (ucast v :: u16) = unat v" for v :: u8
    using unat_u8 [of v] by (simp add: unsigned_ucast_eq take_bit_nat_eq_self)
  ultimately show ?thesis
    by simp
qed

lemma breakcode: "code AND 0x80 \<noteq> 0 \<longleftrightarrow> 128 \<le> unat (code :: u8)"
proof -
  have "code AND 0x80 \<noteq> 0 \<longleftrightarrow> bit code 7"
    using and_exp_eq_0_iff_not_bit [of code 7] by simp
  also have "\<dots> \<longleftrightarrow> odd (unat code div 128)"
    using bit_unsigned_iff [where 'a = nat, of code 7] by (simp add: bit_iff_odd)
  also have "\<dots> \<longleftrightarrow> 128 \<le> unat code"
  proof -
    have "unat code div 128 < 2"
      using unat_u8 [of code] by (simp add: less_mult_imp_div_less)
    then show ?thesis
      by (cases "unat code < 128") (auto simp: less_2_cases_iff)
  qed
  finally show ?thesis .
qed

lemma extended_scancode: "ucast ((ucast (code :: u8) :: u32) OR 0xe000) = code"
proof (rule bit_word_eqI)
  fix n
  assume n: "n < LENGTH(8)"
  have "(0xe000 :: u32) = push_bit 13 7"
    by simp
  then have "\<not> bit (0xe000 :: u32) n"
    using n by (simp only: bit_push_bit_iff) simp
  then show "bit (ucast ((ucast code :: u32) OR 0xe000) :: u8) n = bit code n"
    using n by (simp add: bit_simps)
qed


section \<open>The table\<close>

lemma key_rowE:
  assumes "kbd_inv s" and "i < 96"
  obtains p x where "keymap s ! i = [fst (keymap_chars ! i), snd (keymap_chars ! i), p, x]"
  using assms by (auto simp: kbd_inv_def key_row_def)

lemma keymap_set_row:
  assumes "kbd_inv s" and "i < 96"
  shows "keymap_set (keymap s) i (state_col x) v = Some ((keymap s)[i := (keymap s ! i)[state_col x := v]])"
    and "\<And>j. j < 96 \<Longrightarrow> key_row ((keymap s)[i := (keymap s ! i)[state_col x := v]]) j"
    and "\<And>j y. j < 96 \<Longrightarrow> (keymap s)[i := (keymap s ! i)[state_col x := v]] ! j ! state_col y =
      (if j = i \<and> y = x then v else keymap s ! j ! state_col y)"
proof -
  have len: "length (keymap s) = 96"
    using assms(1) by (simp add: kbd_inv_def)
  obtain p q where row: "keymap s ! i = [fst (keymap_chars ! i), snd (keymap_chars ! i), p, q]"
    using assms by (rule key_rowE)
  show "keymap_set (keymap s) i (state_col x) v = Some ((keymap s)[i := (keymap s ! i)[state_col x := v]])"
    using assms(2) len row by (simp add: keymap_set_def state_col_def)
  show "key_row ((keymap s)[i := (keymap s ! i)[state_col x := v]]) j" if "j < 96" for j
    using assms(1) that len row by (cases "j = i") (auto simp: kbd_inv_def key_row_def state_col_def)
  show "(keymap s)[i := (keymap s ! i)[state_col x := v]] ! j ! state_col y =
      (if j = i \<and> y = x then v else keymap s ! j ! state_col y)" if "j < 96" for j y
    using that len row by (cases "j = i") (auto simp: state_col_def)
qed

lemma keymap_at_row:
  assumes "kbd_inv s" and "i < 96"
  shows "keymap_at (keymap s) i 0 = Some (fst (keymap_chars ! i))"
    and "keymap_at (keymap s) i 1 = Some (snd (keymap_chars ! i))"
    and "keymap_at (keymap s) i (state_col x) = Some (keymap s ! i ! state_col x)"
proof -
  have len: "length (keymap s) = 96"
    using assms(1) by (simp add: kbd_inv_def)
  obtain p q where row: "keymap s ! i = [fst (keymap_chars ! i), snd (keymap_chars ! i), p, q]"
    using assms by (rule key_rowE)
  show "keymap_at (keymap s) i 0 = Some (fst (keymap_chars ! i))"
    and "keymap_at (keymap s) i 1 = Some (snd (keymap_chars ! i))"
    and "keymap_at (keymap s) i (state_col x) = Some (keymap s ! i ! state_col x)"
    using len row assms(2) by (simp_all add: keymap_at_def state_col_def)
qed

lemma shift_state_held:
  assumes "kbd_inv s"
  shows "shift_state (keymap s) =
    Some ((42, False) \<in> held (kbd_abs s) \<or> (54, False) \<in> held (kbd_abs s))"
  using keymap_at_row(3) [OF assms, of 42 False] keymap_at_row(3) [OF assms, of 54 False]
  by (auto simp: shift_state_def kbd_abs_def state_col_def)


section \<open>The handler\<close>

text \<open>What the driver may change besides its own state.\<close>

definition kbd_frame :: "'a keyboard_state_scheme \<Rightarrow> 'a keyboard_state_scheme \<Rightarrow> bool" where
  "kbd_frame s s' \<longleftrightarrow> log_frame s (s'\<lparr>keymap := keymap s, capslock_state := capslock_state s,
     scrlock_state := scrlock_state s, numlock_state := numlock_state s, extcode_state := extcode_state s\<rparr>)"

lemma printk_more_keyboard:
  "printk_state.more s = printk_state.more (t :: 'a keyboard_state_scheme) \<Longrightarrow>
   keymap s = keymap t \<and> capslock_state s = capslock_state t \<and> scrlock_state s = scrlock_state t
   \<and> numlock_state s = numlock_state t \<and> extcode_state s = extcode_state t"
  by (cases s rule: keyboard_state.cases_scheme, cases t rule: keyboard_state.cases_scheme) simp

lemma printk_more_restore:
  "printk_state.more s = printk_state.more (t :: 'a keyboard_state_scheme) \<Longrightarrow>
   printk_state.more (s\<lparr>keymap := k, capslock_state := c, scrlock_state := r, numlock_state := n, extcode_state := e\<rparr>) =
   printk_state.more (t\<lparr>keymap := k, capslock_state := c, scrlock_state := r, numlock_state := n, extcode_state := e\<rparr>)"
  by (cases s rule: keyboard_state.cases_scheme, cases t rule: keyboard_state.cases_scheme) simp

lemma char_slot: "ucast (scast (c :: u8) :: u32) = c"
  by (rule bit_word_eqI) (auto simp: bit_simps)

lemma char_message:
  fixes s :: "'a printk_state_scheme"
  assumes "log_inv s"
  obtains s' where "print_message (cstr ''%c'') [Slot (scast c)] s = Some s'" and "log_inv s'"
    and "log_frame s s'" and "cursor s' = cursor_step (cursor s) c"
proof -
  have "vsprintf (ram s) (cstr ''%c'') [Slot (scast c)] = Some ([c], ram s)"
    by (simp add: vsprintf_def format_simps [simplified] char_slot)
  then show thesis
    using printk_step [OF assms, of "cstr ''%c''" "[Slot (scast c)]" "[c]"] that by (auto simp: print_message_def)
qed

definition key_set :: "'a keyboard_state_scheme \<Rightarrow> nat \<Rightarrow> bool \<Rightarrow> u8 \<Rightarrow> 'a keyboard_state_scheme" where
  "key_set s i x v = s\<lparr>keymap := (keymap s)[i := (keymap s ! i)[state_col x := v]]\<rparr>"

lemma key_set_inv:
  assumes inv: "kbd_inv s" and i: "i < 96"
  shows "kbd_inv (key_set s i x v)"
    and "kbd_abs (key_set s i x v) = (kbd_abs s)\<lparr>held := (if v = 0 then held (kbd_abs s) - {(i, x)}
      else insert (i, x) (held (kbd_abs s)))\<rparr>"
proof -
  show "kbd_inv (key_set s i x v)"
    using keymap_set_row(2) [OF inv i] inv by (simp add: key_set_def kbd_inv_def log_inv_def con_inv_def)
  have "(j, y) \<in> held (kbd_abs (key_set s i x v)) \<longleftrightarrow>
      j < 96 \<and> (if j = i \<and> y = x then v \<noteq> 0 else keymap s ! j ! state_col y \<noteq> 0)" for j y
    using keymap_set_row(3) [OF inv i] by (auto simp: kbd_abs_def key_set_def)
  then have "held (kbd_abs (key_set s i x v)) = (if v = 0 then held (kbd_abs s) - {(i, x)}
      else insert (i, x) (held (kbd_abs s)))"
    using i by (auto simp: kbd_abs_def)
  then show "kbd_abs (key_set s i x v) = (kbd_abs s)\<lparr>held := (if v = 0 then held (kbd_abs s) - {(i, x)}
      else insert (i, x) (held (kbd_abs s)))\<rparr>"
    by (simp add: kbd_abs_def key_set_def)
qed

lemma toggle_locks_inv:
  "kbd_inv s \<Longrightarrow> kbd_inv (toggle_locks i s)"
  "kbd_abs (toggle_locks i s) = (kbd_abs s)\<lparr>caps := (caps (kbd_abs s) \<noteq> (i = 58)),
     scrl := (scrl (kbd_abs s) \<noteq> (i = 70)), numl := (numl (kbd_abs s) \<noteq> (i = 69))\<rparr>"
  "keymap (toggle_locks i s) = keymap s" "cursor (toggle_locks i s) = cursor s"
  "extcode_state (toggle_locks i s) = extcode_state s"
  by (simp_all add: toggle_locks_def kbd_inv_def log_inv_def con_inv_def kbd_abs_def cursor_def)

lemma kbd_frame_local:
  "kbd_frame s (key_set s i x v)" "kbd_frame s (toggle_locks i (key_set s i x v))"
  by (simp_all add: kbd_frame_def log_frame_def key_set_def toggle_locks_def)

lemma kbd_message:
  fixes s t :: "'a keyboard_state_scheme"
  assumes inv: "kbd_inv t" and frame: "kbd_frame s t"
  obtains s' where "print_message (cstr ''%c'') [Slot (scast c)] t = Some s'" and "kbd_inv s'"
    and "kbd_abs s' = kbd_abs t" and "kbd_frame s s'" and "cursor s' = cursor_step (cursor t) c"
proof -
  have "log_inv t"
    using inv by (simp add: kbd_inv_def)
  then obtain s' where s': "print_message (cstr ''%c'') [Slot (scast c)] t = Some s'" "log_inv s'" "log_frame t s'"
    "cursor s' = cursor_step (cursor t) c"
    by (rule char_message)
  have same: "keymap s' = keymap t" "capslock_state s' = capslock_state t" "scrlock_state s' = scrlock_state t"
    "numlock_state s' = numlock_state t" "extcode_state s' = extcode_state t"
    using s'(3) printk_more_keyboard [of s' t] by (simp_all add: log_frame_def)
  have "kbd_inv s'" "kbd_abs s' = kbd_abs t"
    using inv s'(2) same by (simp_all add: kbd_inv_def kbd_abs_def)
  moreover have "kbd_frame s s'"
    using frame s'(3) printk_more_restore [of s' t]
    by (auto simp: kbd_frame_def log_frame_def intro: outside_vga_trans)
  ultimately show thesis
    using that s' by blast
qed


text \<open>The characters of a key shown through \<open>printk\<close>.\<close>

fun show_typed :: "u8 list \<Rightarrow> 'a keyboard_state_scheme \<Rightarrow> 'a keyboard_state_scheme option" where
  "show_typed [] t = Some t"
| "show_typed (c # cs) t = do { t \<leftarrow> print_message (cstr ''%c'') [Slot (scast c)] t; show_typed cs t }"

lemma show_typed_single: "show_typed [c] t = print_message (cstr ''%c'') [Slot (scast c)] t"
  by (cases "print_message (cstr ''%c'') [Slot (scast c)] t") simp_all

lemma key_event_step:
  fixes s :: "'a keyboard_state_scheme"
  assumes inv: "kbd_inv s"
  shows "\<exists>s'. key_event code (state_col x) s = Some s' \<and> kbd_inv s' \<and> kbd_abs s' = kbd_key (kbd_abs s) x code
    \<and> kbd_frame s s' \<and> cursor s' = foldl cursor_step (cursor s) (typed_key (kbd_abs s) x code)
    \<and> (\<exists>t. ram t = ram s \<and> cursor t = cursor s \<and> kbd_abs t = kbd_key (kbd_abs s) x code
         \<and> show_typed (typed_key (kbd_abs s) x code) t = Some s')"
proof -
  have make: "unat (if (ucast (code AND 0x7f) :: u16) = CODE_PRINT_SCREEN_DOWN
      then of_nat (key_index ''KEY_PRINT_SCREEN'') else ucast (code AND 0x7f) :: u16) = key_of code"
  proof -
    have "key_of code < 128"
      by (simp add: key_of_def)
    then have "(ucast (code AND 0x7f) :: u16) \<noteq> CODE_PRINT_SCREEN_DOWN"
      using unat_makecode [of code] by auto
    then show ?thesis
      by (simp add: unat_makecode)
  qed
  let ?i = "key_of code"
  consider "95 < ?i" | "?i \<le> 95" "128 \<le> unat code" | "?i \<le> 95" "\<not> 128 \<le> unat code"
    by linarith
  then show ?thesis
  proof cases
    case 1
    then show ?thesis
      using inv make
      by (intro exI [of _ s] conjI)
        (simp_all add: key_event_def Let_def kbd_key_def typed_key_def kbd_frame_def)
  next
    case 2
    then have "key_event code (state_col x) s = Some (key_set s ?i x 0)"
      using keymap_set_row(1) [OF inv, of ?i x 0] make
      by (simp add: key_event_def Let_def breakcode key_set_def)
    then show ?thesis
      using 2 key_set_inv [OF inv, of ?i x 0] kbd_frame_local(1) [of s ?i x 0]
      by (intro exI [of _ "key_set s ?i x 0"] conjI)
        (simp_all add: kbd_key_def typed_key_def cursor_def key_set_def)
  next
    case 3
    let ?t = "toggle_locks ?i (key_set s ?i x 1)"
    have set: "kbd_inv (key_set s ?i x 1)"
      "kbd_abs (key_set s ?i x 1) = (kbd_abs s)\<lparr>held := insert (?i, x) (held (kbd_abs s))\<rparr>"
      using key_set_inv [OF inv, of ?i x 1] 3 by simp_all
    have t: "kbd_inv ?t" "kbd_abs ?t = kbd_key (kbd_abs s) x code" "cursor ?t = cursor s" "ram ?t = ram s"
      using toggle_locks_inv [where s = "key_set s ?i x 1" and i = ?i] set 3
      by (simp_all add: kbd_key_def cursor_def key_set_def toggle_locks_def)
    define c where "c = (if x \<and> ?i \<noteq> 53 \<or> shifted (kbd_key (kbd_abs s) x code)
      then snd (keymap_chars ! ?i) else fst (keymap_chars ! ?i))"
    have i: "?i < 96"
      using 3 by simp
    have caps: "capslock_state ?t = caps (kbd_key (kbd_abs s) x code)"
      unfolding t(2) [symmetric] by (simp add: kbd_abs_def)
    have at: "keymap_at (keymap ?t) ?i 0 = Some (fst (keymap_chars ! ?i))"
      "keymap_at (keymap ?t) ?i 1 = Some (snd (keymap_chars ! ?i))"
      using keymap_at_row [OF t(1) i] by simp_all
    obtain b where b: "shift_state (keymap ?t) = Some b"
      "b \<longleftrightarrow> (42, False) \<in> held (kbd_key (kbd_abs s) x code) \<or> (54, False) \<in> held (kbd_key (kbd_abs s) x code)"
      using shift_state_held [OF t(1)] t(2) by simp
    have shift: "(if b then \<not> (if capslock_state ?t then \<not> False else False)
        else (if capslock_state ?t then \<not> False else False)) = shifted (kbd_key (kbd_abs s) x code)"
      using b(2) by (auto simp: shifted_def caps)
    have col: "(if state_col x = 3 \<and> ?i \<noteq> key_index ''KEY_SLASH'' then keymap_at (keymap ?t) ?i 1
        else keymap_at (keymap ?t) ?i (if shifted (kbd_key (kbd_abs s) x code) then 1 else 0)) = Some c"
      unfolding if_distrib [of "keymap_at (keymap ?t) ?i"] at c_def by (simp add: state_col_def)
    have low: "\<not> key_index ''KEY_PRINT_SCREEN'' < ?i" "\<not> 128 \<le> unat code"
      using 3 by simp_all
    have "key_event code (state_col x) s = (if c = INV then Some ?t else print_message (cstr ''%c'') [Slot (scast c)] ?t)"
      unfolding key_event_def Let_def make breakcode if_not_P [OF low(1)] if_not_P [OF low(2)]
        keymap_set_row(1) [OF inv i] bind.bind_lunit key_set_def [symmetric] b(1) shift col ..
    moreover have "typed_key (kbd_abs s) x code = (if c = 0 then [] else [c])"
      using 3 by (simp add: typed_key_def c_def Let_def)
    moreover have "kbd_frame s ?t"
      by (rule kbd_frame_local(2))
    moreover obtain s' where "print_message (cstr ''%c'') [Slot (scast c)] ?t = Some s'" "kbd_inv s'"
      "kbd_abs s' = kbd_abs ?t" "kbd_frame s s'" "cursor s' = cursor_step (cursor ?t) c"
      by (rule kbd_message [OF t(1) kbd_frame_local(2)])
    ultimately show ?thesis
      using t by (intro exI [of _ "if c = 0 then ?t else s'"] conjI exI [of _ ?t])
        (simp_all add: show_typed_single)
  qed
qed


lemma kbd_frame_trans: "kbd_frame s t \<Longrightarrow> kbd_frame t u \<Longrightarrow> kbd_frame s u"
  using printk_more_restore [of "u\<lparr>keymap := keymap t, capslock_state := capslock_state t,
     scrlock_state := scrlock_state t, numlock_state := numlock_state t, extcode_state := extcode_state t\<rparr>" t]
  by (auto simp: kbd_frame_def log_frame_def intro: outside_vga_trans)

lemma keymap_handler_step:
  fixes s :: "'a keyboard_state_scheme"
  assumes inv: "kbd_inv s"
  shows "\<exists>s'. keymap_handler i code s = Some s' \<and> kbd_inv s' \<and> kbd_abs s' = kbd_step (kbd_abs s) code
    \<and> kbd_frame s s' \<and> cursor s' = foldl cursor_step (cursor s) (typed (kbd_abs s) code)
    \<and> (\<exists>t. ram t = ram s \<and> cursor t = cursor s \<and> kbd_abs t = kbd_step (kbd_abs s) code
         \<and> show_typed (typed (kbd_abs s) code) t = Some s')"
proof -
  obtain log where eoi: "send_eoi i s = s\<lparr>out_log := log\<rparr>"
    using send_eoi_log [of i s] ..
  define t where "t = s\<lparr>out_log := log, extcode_state := False\<rparr>"
  have t: "kbd_inv t" "kbd_abs t = (kbd_abs s)\<lparr>e0 := False\<rparr>" "kbd_frame s t" "cursor t = cursor s" "ram t = ram s"
    using inv by (simp_all add: t_def kbd_inv_def log_inv_def con_inv_def kbd_abs_def kbd_frame_def log_frame_def cursor_def)
  show ?thesis
  proof (cases "code = 0xe0")
    case True
    let ?u = "s\<lparr>out_log := log, extcode_state := True\<rparr>"
    have "kbd_inv ?u" "kbd_abs ?u = (kbd_abs s)\<lparr>e0 := True\<rparr>" "kbd_frame s ?u" "cursor ?u = cursor s"
      using inv by (simp_all add: kbd_inv_def log_inv_def con_inv_def kbd_abs_def kbd_frame_def log_frame_def cursor_def)
    then show ?thesis
      using True by (intro exI [of _ ?u] conjI) (simp_all add: keymap_handler_def Let_def eoi kbd_step_def typed_def)
  next
    case False
    have e0: "e0 (kbd_abs s) = extcode_state s"
      by (simp add: kbd_abs_def)
    have "keymap_handler i code s = key_event code (state_col (e0 (kbd_abs s))) t"
    proof (cases "extcode_state s")
      case True
      then show ?thesis
        using False by (simp add: keymap_handler_def Let_def eoi extended_scancode state_col_def t_def e0)
    next
      case plain: False
      then have "send_eoi i s = t"
        unfolding eoi t_def by (cases s rule: keyboard_state.cases_scheme) simp
      then show ?thesis
        using False plain by (simp add: keymap_handler_def Let_def state_col_def e0 t_def)
    qed
    moreover obtain s' where "key_event code (state_col (e0 (kbd_abs s))) t = Some s'" "kbd_inv s'"
      "kbd_abs s' = kbd_key (kbd_abs t) (e0 (kbd_abs s)) code" "kbd_frame t s'"
      "cursor s' = foldl cursor_step (cursor t) (typed_key (kbd_abs t) (e0 (kbd_abs s)) code)"
      "\<exists>u. ram u = ram t \<and> cursor u = cursor t \<and> kbd_abs u = kbd_key (kbd_abs t) (e0 (kbd_abs s)) code
         \<and> show_typed (typed_key (kbd_abs t) (e0 (kbd_abs s)) code) u = Some s'"
      using key_event_step [OF t(1)] by blast
    ultimately show ?thesis
      using t False kbd_frame_trans [OF t(3)] by (simp add: kbd_step_def typed_def)
  qed
qed

text \<open>The driver as an implementation of the keyboard and the screen's cursor.\<close>

definition keyboard_step :: "kbd \<times> cursor \<Rightarrow> u8 \<Rightarrow> kbd \<times> cursor" where
  "keyboard_step kc code = (kbd_step (fst kc) code, foldl cursor_step (snd kc) (typed (fst kc) code))"

interpretation driver: simulation "\<lambda>s code. keymap_handler i code s" "\<lambda>s. kbd_inv s \<and> kbd_frame s0 s"
  "\<lambda>s. (kbd_abs s, cursor s)" keyboard_step for i s0
proof
  fix s :: "'a keyboard_state_scheme" and code
  assume s: "kbd_inv s \<and> kbd_frame s0 s"
  then show "\<exists>s'. keymap_handler i code s = Some s' \<and> kbd_inv s' \<and> kbd_frame s0 s'"
    using keymap_handler_step [of s i code] by (auto intro: kbd_frame_trans)
  show "(kbd_abs s', cursor s') = keyboard_step (kbd_abs s, cursor s) code" if "keymap_handler i code s = Some s'" for s'
    using s that keymap_handler_step [of s i code] by (auto simp: keyboard_step_def)
qed

section \<open>Properties\<close>

definition sample_keyboard :: keyboard_state where
  "sample_keyboard = table_state.extend sample_tables (keyboard_state.fields initial_keymap False False False False)"

lemma sample_keyboard_inv: "kbd_inv sample_keyboard" "\<not> extcode_state sample_keyboard"
  "cursor sample_keyboard = (0, 0)" "kbd_abs sample_keyboard = \<lparr>held = {}, caps = False, scrl = False, numl = False, e0 = False\<rparr>"
proof -
  have rows: "initial_keymap ! i = [fst (keymap_chars ! i), snd (keymap_chars ! i), 0, 0]" if "i < 96" for i
    using that nth_map [of i "keymap_chars_low @ keymap_chars_high" "\<lambda>(c, d). [c, d, 0, 0]"]
    unfolding initial_keymap_def keymap_chars_def by (simp add: split_beta del: map_append)
  have "length initial_keymap = 96"
    by (simp add: initial_keymap_def)
  with rows show "kbd_inv sample_keyboard" "\<not> extcode_state sample_keyboard" "cursor sample_keyboard = (0, 0)"
    "kbd_abs sample_keyboard = \<lparr>held = {}, caps = False, scrl = False, numl = False, e0 = False\<rparr>"
    using sample_heap_ok(1)
    by (simp_all add: kbd_inv_def key_row_def kbd_abs_def state_col_def cursor_def sample_keyboard_def sample_tables_def
        table_state.extend_def keyboard_state.fields_def malloc_state.extend_def table_state.fields_def
        mem_ok_def mem_wf_def log_inv_def con_inv_def)
      (simp_all add: sample_heap_def sample_memory_def memory_state.extend_def malloc_state.fields_def)
qed

text \<open>
  C26: over any stream of scan codes the handler is defined, keeps the key map, changes no memory
  outside the video window and no state of other components, and implements the abstract keyboard:
  which keys are held, the locks, a pending extended code. The next byte then changes that state and
  shows exactly the character the abstract keyboard types for it.
\<close>

theorem keyboard_refines:
  fixes s :: "'a keyboard_state_scheme"
  assumes "kbd_inv s"
  shows "\<exists>s1 s2 t. run_events (\<lambda>s code. keymap_handler i code s) s codes = Some s1 \<and> kbd_inv s1 \<and> kbd_frame s s1
    \<and> (kbd_abs s1, cursor s1) = foldl keyboard_step (kbd_abs s, cursor s) codes
    \<and> keymap_handler i code s1 = Some s2 \<and> kbd_abs s2 = kbd_step (kbd_abs s1) code
    \<and> ram t = ram s1 \<and> cursor t = cursor s1 \<and> show_typed (typed (kbd_abs s1) code) t = Some s2"
proof -
  have "kbd_frame s s"
    by (simp add: kbd_frame_def log_frame_def)
  then obtain s1 where s1: "run_events (\<lambda>s code. keymap_handler i code s) s codes = Some s1" "kbd_inv s1" "kbd_frame s s1"
    "(kbd_abs s1, cursor s1) = foldl keyboard_step (kbd_abs s, cursor s) codes"
    using driver.run_abs [of s s i codes] assms by blast
  then show ?thesis
    using keymap_handler_step [OF s1(2), of i code] by blast
qed

theorem keyboard_refines_witness:
  "\<exists>s1 s2 t. run_events (\<lambda>s code. keymap_handler 0x21 code s) sample_keyboard [0x2a] = Some s1
     \<and> keymap_handler 0x21 0x1e s1 = Some s2 \<and> show_typed [ch CHR ''A''] t = Some s2"
proof -
  have "typed \<lparr>held = {(42, False)}, caps = False, scrl = False, numl = False, e0 = False\<rparr> 0x1e = [ch CHR ''A'']"
    by (simp add: typed_def typed_key_def key_of_def shifted_def kbd_key_def keymap_chars_def keymap_chars_low_def)
  then show ?thesis
    using keyboard_refines [OF sample_keyboard_inv(1), of "0x21" "[0x2a]" "0x1e"] sample_keyboard_inv(4)
    by (auto simp: keyboard_step_def kbd_step_def kbd_key_def key_of_def)
qed

text \<open>
  Print Screen sends \<open>E0 2A E0 37\<close>. Since the code is cut to seven bits before it is compared with
  \<open>0xB7\<close>, the test never holds: the driver takes the key for the star of the number pad, shows an
  asterisk and records key \<open>0x37\<close> as held, not \<open>KEY_PRINT_SCREEN\<close>.
\<close>

theorem print_screen_types_asterisk:
  fixes s :: "'a keyboard_state_scheme"
  assumes "kbd_inv s" and "\<not> extcode_state s"
  shows "\<exists>s' t. run_events (\<lambda>s code. keymap_handler i code s) s [0xe0, 0x2a, 0xe0, 0x37] = Some s' \<and> kbd_inv s'
    \<and> held (kbd_abs s') = insert (0x37, True) (insert (0x2a, True) (held (kbd_abs s)))
    \<and> ram t = ram s \<and> cursor t = cursor s \<and> show_typed [ch CHR ''*''] t = Some s'"
proof -
  let ?k = "kbd_abs s"
  have e0: "e0 ?k = False"
    using assms(2) by (simp add: kbd_abs_def)
  have chars: "typed k 0xe0 = []" "e0 k \<Longrightarrow> typed k 0x2a = []" "e0 k \<Longrightarrow> typed k 0x37 = [ch CHR ''*'']" for k
    by (simp_all add: typed_def typed_key_def key_of_def keymap_chars_def keymap_chars_low_def keymap_chars_high_def nth_append)
  have keys: "kbd_step k 0xe0 = k\<lparr>e0 := True\<rparr>"
    "e0 k \<Longrightarrow> kbd_step k 0x2a = k\<lparr>e0 := False, held := insert (0x2a, True) (held k)\<rparr>"
    "e0 k \<Longrightarrow> kbd_step k 0x37 = k\<lparr>e0 := False, held := insert (0x37, True) (held k)\<rparr>" for k
    by (simp_all add: kbd_step_def kbd_key_def key_of_def)
  note step = keymap_handler_step [where i = i]
  obtain s1 where s1: "keymap_handler i 0xe0 s = Some s1" "kbd_inv s1" "kbd_abs s1 = ?k\<lparr>e0 := True\<rparr>"
    "ram s1 = ram s" "cursor s1 = cursor s"
    using step [OF assms(1), of "0xe0"] chars(1) keys(1) by auto
  obtain s2 where s2: "keymap_handler i 0x2a s1 = Some s2" "kbd_inv s2"
    "kbd_abs s2 = ?k\<lparr>e0 := False, held := insert (0x2a, True) (held ?k)\<rparr>" "ram s2 = ram s" "cursor s2 = cursor s"
    using step [OF s1(2), of "0x2a"] chars(2) keys(2) [of "kbd_abs s1"] s1(3-5) by auto
  obtain s3 where s3: "keymap_handler i 0xe0 s2 = Some s3" "kbd_inv s3"
    "kbd_abs s3 = ?k\<lparr>e0 := True, held := insert (0x2a, True) (held ?k)\<rparr>" "ram s3 = ram s" "cursor s3 = cursor s"
    using step [OF s2(2), of "0xe0"] chars(1) keys(1) s2(3-5) by auto
  obtain s4 t where "keymap_handler i 0x37 s3 = Some s4" "kbd_inv s4"
    "held (kbd_abs s4) = insert (0x37, True) (insert (0x2a, True) (held ?k))"
    "ram t = ram s" "cursor t = cursor s" "show_typed [ch CHR ''*''] t = Some s4"
    using step [OF s3(2), of "0x37"] chars(3) keys(3) [of "kbd_abs s3"] s3(3-5) by auto
  then show ?thesis
    using s1(1) s2(1) s3(1) by (intro exI [of _ s4] exI [of _ t]) simp
qed

theorem print_screen_types_asterisk_witness:
  "\<exists>s' t. run_events (\<lambda>s code. keymap_handler 0x21 code s) sample_keyboard [0xe0, 0x2a, 0xe0, 0x37] = Some s'
     \<and> show_typed [ch CHR ''*''] t = Some s'"
  using print_screen_types_asterisk [OF sample_keyboard_inv(1,2), of "0x21"] by blast

text \<open>Caps Lock is applied to every key, not only to letters: the digit keys type their symbols.\<close>

lemma caps_lock_shifts_digits:
  fixes s :: "'a keyboard_state_scheme"
  assumes "kbd_inv s" and "\<not> extcode_state s" and "capslock_state s"
    and "(42, False) \<notin> held (kbd_abs s)" and "(54, False) \<notin> held (kbd_abs s)"
  shows "\<exists>s' t. keymap_handler i 0x02 s = Some s' \<and> show_typed [ch CHR ''!''] t = Some s'"
proof -
  have "typed (kbd_abs s) 0x02 = [ch CHR ''!'']"
    using assms(2-5) by (simp add: typed_def typed_key_def key_of_def shifted_def kbd_key_def kbd_abs_def
        keymap_chars_def keymap_chars_low_def)
  then show ?thesis
    using keymap_handler_step [OF assms(1), of i "0x02"] by auto
qed

end
