(* ===== verification/Task_Spec.thy ===== *)
theory Task_Spec
  imports Sched Keyboard_Spec
begin

text \<open>
  The task table over the kernel heap. The invariant says that the tasks of the table are different
  objects of 4096 bytes in use, that each has its entry's number as pid and a name, that a task that is ready has
  never run (its stack is empty), and that \<open>current\<close> is null, the idle task or a task of the table in
  state running. The lemmas give what creating and ending a task do to the invariant and to the other
  tasks.
\<close>

section \<open>Pages of tasks\<close>

text \<open>An object of 4096 bytes is a whole page that holds nothing of the heap's own data.\<close>

lemma bucket_bytes_4096: "i < 9 \<Longrightarrow> bucket_bytes i = 4096 \<longleftrightarrow> i = 8"
proof -
  assume "i < 9"
  then have "i \<in> {0, 1, 2, 3, 4, 5, 6, 7, 8}"
    by auto
  then show ?thesis
    by (auto simp: bucket_bytes_def)
qed

lemma slots_4096 [simp]: "slots p 4096 = [p]"
  by (simp add: slots_def)

lemma page_object:
  assumes rep: "heap_rep s H" and obj: "(t, 4096) \<in> objects s H"
  shows "page_of t = t" "t \<in> owned_pages s" "t \<notin> hv_dpages H" "0x100000 \<le> unat t" "t \<noteq> 0"
    and "x \<in> cells H \<Longrightarrow> page_of x \<noteq> t"
proof -
  have wf: "mem_wf s" and inv: "heap_mem (ram s) (bucket_dir s) (free_bucket_desc s) (owned_pages s) H"
    using rep by (simp_all add: heap_rep_def mem_ok_def)
  obtain i d where i: "in_chain H i d" "4096 = bucket_bytes i"
    "t \<in> set (slots (d_page (ram s) d) (bucket_bytes i))" "t \<notin> set (hv_objs H d)"
    using objects_owner [OF rep obj] by blast
  then have t: "t = d_page (ram s) d"
    by (simp flip: i(2))
  note page = heap_mem_obj [OF inv i(1,3)]
  show "page_of t = t" "t \<in> owned_pages s" "t \<notin> hv_dpages H"
    using page t by simp_all
  then show "0x100000 \<le> unat t" "t \<noteq> 0"
    using owned_page [OF wf] by blast+
  show "page_of x \<noteq> t" if cell: "x \<in> cells H"
  proof
    assume x: "page_of x = t"
    then have "x \<notin> set (hv_free H)" "\<And>j. \<not> in_chain H j x"
      using view_okD(6,8) [OF heap_memD(1) [OF inv]] \<open>t \<notin> hv_dpages H\<close> by blast+
    then obtain j e where e: "in_chain H j e" "x \<in> set (hv_objs H e)"
      using cell by (auto simp: cells_def)
    have "bucket_ok (ram s) j e (hv_objs H e)"
      using heap_memD(4) [OF inv e(1)] .
    then have slot: "x \<in> set (slots (d_page (ram s) e) (bucket_bytes j))"
      using e(2) by (auto simp: bucket_ok_def)
    then have "d_page (ram s) e = d_page (ram s) d"
      using heap_mem_obj(2) [OF inv e(1)] x t by simp
    then have "e = d"
      using heap_memD(7) [OF inv e(1) i(1)] by simp
    moreover from this have "j = i"
      using view_okD(4) [OF heap_memD(1) [OF inv] e(1)] i(1) by blast
    ultimately have "x = t"
      using slot t by (simp flip: i(2))
    then show False
      using e(2) \<open>e = d\<close> i(4) by simp
  qed
qed

text \<open>
  What happens between two operations of the heap: its variables stay, memory changes only in task
  pages, in the video window and in the kernel's own memory.
\<close>

definition task_pages :: "'a malloc_state_scheme \<Rightarrow> heap_view \<Rightarrow> u32 set" where
  "task_pages s H = {t. (t, 4096) \<in> objects s H}"

definition heap_idle :: "u32 set \<Rightarrow> 'a malloc_state_scheme \<Rightarrow> 'b malloc_state_scheme \<Rightarrow> bool" where
  "heap_idle P s s' \<longleftrightarrow> g_physics_memory s' = g_physics_memory s \<and> g_physics_memory_map s' = g_physics_memory_map s
     \<and> bucket_dir s' = bucket_dir s \<and> free_bucket_desc s' = free_bucket_desc s
     \<and> (\<forall>y. page_of y \<notin> P \<longrightarrow> \<not> vga y \<longrightarrow> \<not> low_memory y \<longrightarrow> ram s' y = ram s y)"

lemma page_map_not_low: "i < 0x10000 \<Longrightarrow> \<not> low_memory (page_map i)"
  using in_range_offset [of i "0x10000" "0x10000"] by (simp add: low_memory_def page_map_def)

lemma heap_idle_refl [simp]: "heap_idle P s s"
  by (simp add: heap_idle_def)

lemma heap_idle_trans: "heap_idle P s t \<Longrightarrow> heap_idle P t u \<Longrightarrow> heap_idle P s u"
  by (simp add: heap_idle_def)

lemma heap_idle_rep:
  assumes rep: "heap_rep s H" and idle: "heap_idle (task_pages s H) s s'" and log: "log_inv s'"
  shows "heap_rep s' H" and "objects s' H = objects s H" and "avail s' = avail s" and "owned_pages s' = owned_pages s"
proof -
  have ok: "mem_ok s" and wf: "mem_wf s"
    and inv: "heap_mem (ram s) (bucket_dir s) (free_bucket_desc s) (owned_pages s) H"
    using rep by (simp_all add: heap_rep_def mem_ok_def)
  have pages: "page_of y \<in> owned_pages s" if "page_of y \<in> task_pages s H" for y
    using that page_object(2) [OF rep, of "page_of y"] by (simp add: task_pages_def)
  have n: "npages s' = npages s" "used s' = used s"
    using idle by (simp_all add: heap_idle_def npages_def used_def)
  have small: "npages s < 0x10000"
    using wf by (simp add: mem_wf_def)
  have "ram s' (page_map i) = ram s (page_map i)" if "i < 0x10000" for i
    using idle page_map_not_owned [OF wf that] pages [of "page_map i"] page_map_not_vga [OF that]
      page_map_not_low [OF that]
    by (auto simp: heap_idle_def)
  then have alloc: "allocated s' = allocated s"
    using small n by (auto simp: allocated_def)
  then show avail: "avail s' = avail s" and own: "owned_pages s' = owned_pages s"
    using n by (simp_all add: avail_def owned_pages_def)
  have ok': "mem_ok s'"
    using ok log idle n alloc by (simp add: mem_ok_def mem_wf_def heap_idle_def)
  have same: "ram s' y = ram s y" if "block_of y \<in> cells H" for y
  proof -
    have "page_of y \<in> owned_pages s"
      using heap_mem_cells(2) [OF inv that] by simp
    moreover have "page_of y \<notin> task_pages s H"
      using page_object(6) [OF rep _ that] by (auto simp: task_pages_def)
    moreover from calculation have "\<not> low_memory y"
      using low_not_owned [OF wf] by blast
    ultimately show ?thesis
      using idle owned_outside(1) [OF wf, of y] by (simp add: heap_idle_def)
  qed
  have ownp: "\<forall>p\<in>owned_pages s. page_of p = p \<and> 0x100000 \<le> unat p"
    using heap_memD(9,10) [OF inv] by blast
  note moved = heap_mem_same [OF inv same subset_refl ownp]
  show "heap_rep s' H"
    using moved(1) ok' own idle by (simp add: heap_rep_def heap_idle_def)
  show "objects s' H = objects s H"
    using moved(2) by (simp add: objects_def)
qed

section \<open>Fields of control blocks\<close>

lemma in_task_page:
  assumes "page_of t = t" and "in_range (t + of_nat k) n y" and "k + n \<le> 4096"
  shows "page_of y = t"
  using in_page [OF assms(1)] in_range_sub [OF assms(2,3)] by simp

lemma field_range:
  assumes "page_of t = t" and "unat off + 4 \<le> 4096" and "in_range (t + off) 4 y"
  shows "page_of y = t"
  using in_task_page [of t "unat off" 4 y] assms by simp

lemma set_field_other_page:
  assumes "page_of t = t" and "unat off + 4 \<le> 4096" and "page_of y \<noteq> t"
  shows "set_field t off v m y = m y"
  using field_range [OF assms(1,2), of y] assms(3) by (auto simp: set_field_def intro!: store32_other)

lemma field_cong:
  assumes "page_of t = t" and "unat off + 4 \<le> 4096" and "\<And>y. page_of y = t \<Longrightarrow> m' y = m y"
  shows "field m' t off = field m t off"
  unfolding field_def using field_range [OF assms(1,2)] assms(3) by (intro load32_cong) simp

lemma field_set_same [simp]: "field (set_field t off v m) t off = v"
  by (simp add: field_def set_field_def)

lemma field_set_other_page:
  assumes "page_of t = t" and "page_of u = u" and "t \<noteq> u" and "unat off + 4 \<le> 4096" and "unat k + 4 \<le> 4096"
  shows "field (set_field t off v m) u k = field m u k"
  using set_field_other_page [OF assms(1,4)] assms(3) by (intro field_cong [OF assms(2,5)]) auto

lemma ranges_apart:
  assumes "i + n \<le> 4096" and "j + k \<le> 4096" and "i + n \<le> j \<or> j + k \<le> i"
  shows "disjoint_ranges (t + of_nat i) n (t + of_nat j) k"
  unfolding disjoint_ranges_def
proof (intro allI impI notI)
  fix x
  assume "in_range (t + of_nat i) n x" and "in_range (t + of_nat j) k x"
  then obtain a b where "a < n" "x = t + of_nat i + of_nat a" "b < k" "x = t + of_nat j + of_nat b"
    by (auto elim!: in_rangeE)
  moreover from this have "t + of_nat (i + a) = t + of_nat (j + b)"
    by (simp add: add.assoc)
  ultimately show False
    using assms word_offset_unique [of "i + a" "j + b" t] by simp
qed

lemma field_set_apart:
  assumes "unat off + 4 \<le> 4096" and "unat k + 4 \<le> 4096" and "unat off + 4 \<le> unat k \<or> unat k + 4 \<le> unat off"
  shows "field (set_field t off v m) t k = field m t k"
  unfolding field_def set_field_def
  using ranges_apart [of "unat k" 4 "unat off" 4 t] assms by (intro load32_store32_disjoint) auto

lemma field_name_apart:
  assumes "unat k + 4 \<le> 4096" and "length bs \<le> 32" and "unat k + 4 \<le> 116 \<or> 148 \<le> unat k"
  shows "field (mem_write m (t + 116) bs) t k = field m t k"
  unfolding field_def
  using ranges_apart [of "unat k" 4 116 "length bs" t] assms by (intro load32_mem_write_disjoint) auto

text \<open>Strings in memory.\<close>

lemma c_string_cong:
  assumes "\<And>y. in_range a (length s + 1) y \<Longrightarrow> m' y = m y" and "length s + 1 \<le> 2 ^ 32"
  shows "c_string m' a s = c_string m a s"
  using assms
proof (induction s arbitrary: a)
  case Nil
  then show ?case
    using in_range_offset [of 0 a 1] by simp
next
  case (Cons b s)
  have "m' a = m a"
    using Cons.prems in_range_offset [of 0 a "length (b # s) + 1"] by simp
  moreover have "c_string m' (a + 1) s = c_string m (a + 1) s"
  proof (rule Cons.IH)
    show "m' y = m y" if "in_range (a + 1) (length s + 1) y" for y
      using in_range_sub [of a 1 "length s + 1" y "length (b # s) + 1"] that Cons.prems by simp
  qed (use Cons.prems in simp)
  ultimately show ?case by simp
qed

lemma c_string_write:
  assumes "0 \<notin> set s" and "length s + 1 < 2 ^ 32"
  shows "c_string (mem_write m a (s @ [0])) a s"
  using assms
proof (induction s arbitrary: m a)
  case Nil
  then show ?case by (simp add: mem_write_Cons)
next
  case (Cons b s)
  have "mem_write m a ((b # s) @ [0]) = mem_write (m(a := b)) (a + 1) (s @ [0])"
    using Cons.prems by (simp add: mem_write_Cons)
  moreover have "mem_write (m(a := b)) (a + 1) (s @ [0]) a = b"
    using Cons.prems(2) mem_write_other [of "a + 1" "s @ [0]" a "m(a := b)"] by (simp add: in_range_def)
  ultimately show ?case
    using Cons by simp
qed

section \<open>The invariant\<close>

definition ready_fresh :: "mem \<Rightarrow> u32 \<Rightarrow> bool" where
  "ready_fresh m t \<longleftrightarrow> field m t off_state = TASK_READY \<longrightarrow>
     field m t tss_esp0 = t + PAGE_SIZE \<and> field m t off_scheduling_times = 0"

definition control_block :: "mem \<Rightarrow> u32 \<Rightarrow> nat \<Rightarrow> bool" where
  "control_block m t i \<longleftrightarrow> field m t off_pid = of_nat i \<and> (\<exists>nm. length nm \<le> 31 \<and> c_string m (t + off_name) nm)"

definition kernel_inv :: "'a task_state_scheme \<Rightarrow> heap_view \<Rightarrow> bool" where
  "kernel_inv s H \<longleftrightarrow> heap_rep s H \<and> length (tasks s) = 64 \<and> set (tasks s) - {0} \<subseteq> task_pages s H
     \<and> distinct (filter (\<lambda>t. t \<noteq> 0) (tasks s)) \<and> (current s = 0 \<or> current s \<in> set (tasks s))
     \<and> (\<forall>i<64. tasks s ! i \<noteq> 0 \<longrightarrow> control_block (ram s) (tasks s ! i) i)
     \<and> (\<forall>t\<in>set (drop 1 (tasks s)). t \<noteq> 0 \<longrightarrow> ready_fresh (ram s) t)
     \<and> (current s \<noteq> 0 \<longrightarrow> current s = tasks s ! 0 \<or> field (ram s) (current s) off_state = TASK_RUNNING)"

lemma kernel_invD:
  assumes "kernel_inv s H"
  shows "heap_rep s H" "length (tasks s) = 64" "t \<in> set (tasks s) \<Longrightarrow> t \<noteq> 0 \<Longrightarrow> (t, 4096) \<in> objects s H"
    "distinct (filter (\<lambda>t. t \<noteq> 0) (tasks s))" "current s = 0 \<or> current s \<in> set (tasks s)"
    "t \<in> set (drop 1 (tasks s)) \<Longrightarrow> t \<noteq> 0 \<Longrightarrow> ready_fresh (ram s) t" "log_inv s"
    "i < 64 \<Longrightarrow> tasks s ! i \<noteq> 0 \<Longrightarrow> control_block (ram s) (tasks s ! i) i"
    "current s \<noteq> 0 \<Longrightarrow> current s = tasks s ! 0 \<or> field (ram s) (current s) off_state = TASK_RUNNING"
  using assms by (auto simp: kernel_inv_def task_pages_def heap_rep_def mem_ok_def mem_wf_def)

lemma task_page:
  assumes "kernel_inv s H" and "t \<in> set (tasks s)" and "t \<noteq> 0"
  shows "page_of t = t" "t \<in> owned_pages s" "t \<notin> hv_dpages H" "0x100000 \<le> unat t"
    and "page_of y = t \<Longrightarrow> untouched s H y" and "page_of y = t \<Longrightarrow> \<not> vga y"
proof -
  have obj: "(t, 4096) \<in> objects s H"
    using kernel_invD(3) [OF assms] .
  show "page_of t = t" "t \<in> owned_pages s" "t \<notin> hv_dpages H" "0x100000 \<le> unat t"
    by (rule page_object(1,2,3,4) [OF kernel_invD(1) [OF assms(1)] obj])+
  then show "page_of y = t \<Longrightarrow> untouched s H y" "page_of y = t \<Longrightarrow> \<not> vga y"
    using owned_outside(1) [of s y] kernel_invD(1) [OF assms(1)]
    by (simp_all add: untouched_def heap_rep_def mem_ok_def)
qed

lemma control_block_cong:
  assumes "control_block m t i" and "\<And>y. in_range (t + 108) 40 y \<Longrightarrow> m' y = m y"
  shows "control_block m' t i"
proof -
  have near: "in_range (t + 108) 40 y" if "in_range (t + of_nat (108 + j)) n y" "j + n \<le> 40" for j n y
    using that in_range_sub [of "t + 108" j n y 40] by (simp add: add.assoc)
  have "field m' t off_pid = field m t off_pid"
    unfolding field_def using near [of 0 4] by (intro load32_cong assms(2)) simp
  moreover have "c_string m' (t + off_name) nm = c_string m (t + off_name) nm" if "length nm \<le> 31" for nm
    using near [of 8 "length nm + 1"] that by (intro c_string_cong assms(2)) simp_all
  ultimately show ?thesis
    using assms(1) by (auto simp: control_block_def)
qed

lemma ready_fresh_cong:
  assumes "page_of t = t" and "\<And>y. page_of y = t \<Longrightarrow> m' y = m y"
  shows "ready_fresh m' t = ready_fresh m t"
proof -
  have "field m' t off = field m t off" if "unat off + 4 \<le> 4096" for off
    using assms(2) by (intro field_cong [OF assms(1) that])
  then show ?thesis
    by (simp add: ready_fresh_def)
qed

section \<open>Creation\<close>

lemma malloc_more_task:
  "malloc_state.more s = malloc_state.more (t :: 'a task_state_scheme) \<Longrightarrow>
   tasks s = tasks t \<and> current s = current t \<and> task_state.more s = task_state.more t
   \<and> gdtr s = gdtr t \<and> idtr s = idtr t \<and> keymap s = keymap t"
  by (cases s rule: task_state.cases_scheme, cases t rule: task_state.cases_scheme) simp

lemma log_frame_task:
  assumes "log_frame s (t :: 'a task_state_scheme)"
  shows "tasks t = tasks s" "current t = current s" "task_state.more t = task_state.more s" "heap_idle P s t"
    and "\<not> vga y \<Longrightarrow> ram t y = ram s y" and "keymap t = keymap s"
  using assms
  by (cases s rule: task_state.cases_scheme, cases t rule: task_state.cases_scheme,
      simp add: log_frame_def outside_vga_same_def heap_idle_def)+

lemma empty_slot_Some:
  "empty_slot ts k = Some i \<Longrightarrow> k \<le> i \<and> i < k + length ts \<and> ts ! (i - k) = 0 \<and> (\<forall>j<i - k. ts ! j \<noteq> 0)"
proof (induction ts k rule: empty_slot.induct)
  case (2 t ts k)
  show ?case
  proof (cases "t = 0")
    case False
    then have IH: "k + 1 \<le> i" "i < k + 1 + length ts" "ts ! (i - (k + 1)) = 0" "\<forall>j<i - (k + 1). ts ! j \<noteq> 0"
      using 2 by simp_all
    then obtain n where n: "i = k + 1 + n"
      using le_Suc_ex by blast
    then show ?thesis
      using IH False by (auto simp: nth_Cons')
  qed (use 2 in auto)
qed simp

lemma empty_slot_None: "empty_slot ts k = None \<longleftrightarrow> 0 \<notin> set ts"
  by (induction ts k rule: empty_slot.induct) auto

lemma size_class_4096 [simp]: "size_class 4096 = 8"
proof -
  have "find_dir initial_bucket_dir 4096 = Some (size_class 4096)"
    by (rule find_dir_class(1)) (simp add: initial_bucket_dir_def)
  then show ?thesis
    by (simp add: initial_bucket_dir_def)
qed

lemma kmalloc_page:
  assumes "heap_rep s H" and "2 \<le> card (avail s)"
  obtains t s' H' where "kmalloc 4096 s = Some (t, s')" and "heap_rep s' H'" and "t \<noteq> 0"
    and "(t, 4096) \<notin> objects s H" and "objects s' H' = insert (t, 4096) (objects s H)"
    and "keeps_objects s H s'" and "malloc_state.more s' = malloc_state.more s" and "iflag s'"
    and "card (avail s) \<le> card (avail s') + 2"
proof -
  have "\<not> {used s..<npages s} \<subseteq> allocated s"
    using assms(2) by (auto simp: avail_empty [symmetric])
  then show thesis
    using kmalloc_heap [OF assms(1), of 4096] assms(2) that
    by (cases "kmalloc 4096 s") (auto simp: bucket_bytes_def)
qed

text \<open>The control block that \<open>create_task\<close> writes, as one update of the page.\<close>

definition task_block :: "u32 \<Rightarrow> u8 list \<Rightarrow> u32 \<Rightarrow> u32 \<Rightarrow> u32 \<Rightarrow> mem \<Rightarrow> mem" where
  "task_block t nm func pid ppid m =
     (let m = mem_write m t (replicate 4096 0);
          m = set_field t off_pid pid m;
          m = set_field t off_ppid ppid m;
          m = set_field t off_scheduling_times 0 m;
          m = mem_write m (t + off_name) (nm @ [0]);
          m = set_field t tss_cr3 (t + sizeof_task_t) m;
          m = set_field t tss_eip func m;
          m = set_field t off_esp0 (t + PAGE_SIZE) m;
          m = set_field t off_ebp0 (t + PAGE_SIZE) m;
          m = set_field t tss_esp0 (t + PAGE_SIZE) m
      in set_field t off_state TASK_READY m)"

lemma task_block_fields:
  assumes "length nm \<le> 31"
  shows "field (task_block t nm func pid ppid m) t off_pid = pid"
    "field (task_block t nm func pid ppid m) t off_ppid = ppid"
    "field (task_block t nm func pid ppid m) t off_scheduling_times = 0"
    "field (task_block t nm func pid ppid m) t tss_eip = func"
    "field (task_block t nm func pid ppid m) t tss_esp0 = t + PAGE_SIZE"
    "field (task_block t nm func pid ppid m) t off_state = TASK_READY"
  using assms by (simp_all add: task_block_def Let_def field_set_apart field_name_apart)

lemma task_block_other:
  assumes "page_of t = t" and "length nm \<le> 31" and "page_of y \<noteq> t"
  shows "task_block t nm func pid ppid m y = m y"
proof -
  have "\<not> in_range t 4096 y" "\<not> in_range (t + 116) (length nm + 1) y"
    using in_task_page [OF assms(1), of 0 4096 y] in_task_page [OF assms(1), of 116 "length nm + 1" y] assms(2,3)
    by auto
  then show ?thesis
    using assms by (simp add: task_block_def Let_def set_field_other_page mem_write_other del: replicate_numeral)
qed

lemma set_field_apart:
  assumes "unat off + 4 \<le> 4096" and "k + n \<le> 4096" and "unat off + 4 \<le> k \<or> k + n \<le> unat off"
    and "in_range (t + of_nat k) n y"
  shows "set_field t off v m y = m y"
  using ranges_apart [of k n "unat off" 4 t] assms
  by (auto simp: set_field_def disjoint_ranges_def intro!: store32_other)

lemma task_block_name:
  assumes "length nm \<le> 31" and "0 \<notin> set nm"
  shows "c_string (task_block t nm func pid ppid m) (t + off_name) nm"
proof -
  define m1 where "m1 = set_field t off_scheduling_times 0 (set_field t off_ppid ppid (set_field t off_pid pid
    (mem_write m t (replicate 4096 0))))"
  have "task_block t nm func pid ppid m y = mem_write m1 (t + off_name) (nm @ [0]) y"
    if "in_range (t + off_name) (length nm + 1) y" for y
    using that assms(1) set_field_apart [where k = 116 and n = "length nm + 1" and t = t and y = y]
    by (simp add: task_block_def Let_def m1_def del: replicate_numeral)
  then have "c_string (task_block t nm func pid ppid m) (t + off_name) nm =
      c_string (mem_write m1 (t + off_name) (nm @ [0])) (t + off_name) nm"
    using assms(1) by (intro c_string_cong) simp_all
  then show ?thesis
    using c_string_write [OF assms(2)] assms(1) by simp
qed

lemma name_copied:
  assumes t: "page_of t = t" "0x100000 \<le> unat t"
    and name: "c_string m name nm" "length nm \<le> 31" "unat name + length nm + 1 \<le> 0x10000"
    and same: "\<And>y. page_of y \<noteq> t \<Longrightarrow> \<not> vga y \<Longrightarrow> m' y = m y"
  shows "strcpy m' (t + off_name) name = Some (t + off_name, mem_write m' (t + off_name) (nm @ [0]))"
proof -
  have "m' y = m y" if "in_range name (length nm + 1) y" for y
  proof (rule same)
    have y: "unat y < 0x10000"
      using that name(3) in_range_nat [of name "length nm + 1" y] by simp
    then have "unat (page_of y) < 0x10000"
      unfolding unat_page_of by linarith
    then show "page_of y \<noteq> t" "\<not> vga y"
      using t(2) y by (auto simp: vga_nat)
  qed
  then have name': "c_string m' name nm"
    using name(1,2) c_string_cong [of name nm m' m] by simp
  have "unat (t + 116) = unat t + 116"
    using page_offset(1) [OF t(1), of 116] by simp
  then have "unat (t + 116 - name) = unat t + 116 - unat name"
    using t(2) name(3) by (simp add: unat_sub_if')
  then have "length nm + 1 \<le> unat (t + 116 - name)"
    using t(2) name(3) by linarith
  then have "strcpy_loop m' (t + 116) name = Some (mem_write m' (t + 116) (nm @ [0]))"
    using name(2,3) t(2) by (intro strcpy_loop_write [OF name']) simp_all
  then show ?thesis
    by (simp add: strcpy_def)
qed

lemma create_task_run:
  fixes s :: "'a task_state_scheme"
  assumes kmalloc: "kmalloc 4096 s = Some (t, s1)" and t: "t \<noteq> 0" "page_of t = t" "0x100000 \<le> unat t"
    and more: "malloc_state.more s1 = malloc_state.more s"
    and slot: "empty_slot (tasks s) 0 = Some i" and len: "length (tasks s) = 64"
    and name: "c_string (ram s1) name nm" "length nm \<le> 31" "unat name + length nm + 1 \<le> 0x10000"
    and cur: "page_of (current s) = current s" "current s \<noteq> t"
  shows "create_task name func prio s = Some (t, s1\<lparr>tasks := (tasks s)[i := t],
    ram := task_block t nm func (of_nat i) (if current s = 0 then 0 else field (ram s1) (current s) off_pid) (ram s1)\<rparr>)"
proof -
  have i: "i < 64"
    using empty_slot_Some [OF slot] len by simp
  have same: "tasks s1 = tasks s" "current s1 = current s"
    using malloc_more_task [OF more] by simp_all
  define ppid where "ppid = (if current s = 0 then 0 else field (ram s1) (current s) off_pid)"
  define m1 where "m1 = mem_write (ram s1) t (replicate 4096 0)"
  define m2 where "m2 = set_field t off_pid (of_nat i) m1"
  define m3 where "m3 = set_field t off_scheduling_times 0 (set_field t off_ppid ppid m2)"
  have memset: "snd (memset m t 0 4096) = mem_write m t (replicate 4096 0)" for m
    by (simp add: memset_write del: replicate_numeral)
  have out: "m3 y = ram s1 y" if "page_of y \<noteq> t" for y
  proof -
    have "\<not> in_range t 4096 y"
      using in_task_page [OF t(2), of 0 4096 y] that by auto
    then show ?thesis
      using that t(2) by (simp add: m3_def m2_def m1_def set_field_other_page mem_write_other del: replicate_numeral)
  qed
  have ppid2: "(if current s = 0 then 0 else field m2 (current s) off_pid) = ppid"
  proof (cases "current s = 0")
    case False
    have "m2 y = ram s1 y" if "page_of y = current s" for y
    proof -
      have "page_of y \<noteq> t"
        using that cur by simp
      moreover from this have "\<not> in_range t 4096 y"
        using in_task_page [OF t(2), of 0 4096 y] by auto
      ultimately show ?thesis
        using t(2) by (simp add: m2_def m1_def set_field_other_page mem_write_other del: replicate_numeral)
    qed
    then show ?thesis
      using False field_cong [OF cur(1), of off_pid m2 "ram s1"] by (simp add: ppid_def)
  qed (simp add: ppid_def)
  have copied: "strcpy m3 (t + off_name) name = Some (t + off_name, mem_write m3 (t + off_name) (nm @ [0]))"
    using out by (intro name_copied [OF t(2,3) name]) simp
  have pid: "field (mem_write m3 (t + off_name) (nm @ [0])) t off_pid = of_nat i"
    using name(2) by (simp add: m3_def m2_def field_set_apart field_name_apart)
  have unat_i: "unat (of_nat i :: u32) = i"
    using i by (simp add: unat_of_nat_small)
  have m3': "m3 = set_field t off_scheduling_times 0 (set_field t off_ppid
      (if current s = 0 then 0 else field m2 (current s) off_pid) m2)"
    by (simp only: m3_def ppid2)
  have m3a: "current s = 0 \<Longrightarrow> set_field t off_scheduling_times 0 (set_field t off_ppid 0 m2) = m3"
    and m3b: "current s \<noteq> 0 \<Longrightarrow>
      set_field t off_scheduling_times 0 (set_field t off_ppid (field m2 (current s) off_pid) m2) = m3"
    by (simp_all add: m3')
  have block: "task_block t nm func (of_nat i) ppid (ram s1) = (let m = mem_write m3 (t + off_name) (nm @ [0]);
      m = set_field t tss_cr3 (t + sizeof_task_t) m; m = set_field t tss_eip func m;
      m = set_field t off_esp0 (t + PAGE_SIZE) m; m = set_field t off_ebp0 (t + PAGE_SIZE) m;
      m = set_field t tss_esp0 (t + PAGE_SIZE) m
    in set_field t off_state TASK_READY m)"
    by (simp only: task_block_def m3_def m2_def m1_def Let_def)
  have upd: "upd_ram f x = x\<lparr>ram := f (ram x)\<rparr>" for f and x :: "'a task_state_scheme"
    by (simp add: upd_ram_def)
  have "field (set_field t off_esp0 v m) t off_esp0 = v" "field (set_field t off_ebp0 v (set_field t off_esp0 v m)) t off_esp0 = v" for v m
    by (simp_all add: field_set_apart)
  note esp0 = this
  show ?thesis
    unfolding ppid_def [symmetric] block
    using t(1) i len
    by (cases "current s = 0") (simp_all add: create_task_def kmalloc find_empty_process_def slot upd memset same copied pid unat_i esp0
        m1_def [symmetric] m2_def [symmetric] m3a m3b Let_def
        del: replicate_numeral off_pid_def off_ppid_def off_scheduling_times_def off_name_def off_state_def
          off_esp0_def off_ebp0_def tss_esp0_def tss_eip_def tss_cr3_def)
qed

lemma kernel_inv_frame:
  fixes s s' :: "'a task_state_scheme"
  assumes inv: "kernel_inv s H" and rep: "heap_rep s' H'" and objs: "task_pages s H \<subseteq> task_pages s' H'"
    and same: "tasks s' = tasks s" "current s' = current s"
    and block: "\<And>t i. t \<in> set (tasks s) \<Longrightarrow> t \<noteq> 0 \<Longrightarrow> control_block (ram s) t i \<Longrightarrow> control_block (ram s') t i"
    and state: "current s \<noteq> 0 \<Longrightarrow> field (ram s') (current s) off_state = field (ram s) (current s) off_state"
    and fresh: "\<And>t. t \<in> set (drop 1 (tasks s)) \<Longrightarrow> t \<noteq> 0 \<Longrightarrow> ready_fresh (ram s) t \<Longrightarrow> ready_fresh (ram s') t"
  shows "kernel_inv s' H'"
proof -
  have "tasks s ! i \<in> set (tasks s)" if "i < 64" for i
    using that kernel_invD(2) [OF inv] by simp
  then show ?thesis
    using assms unfolding kernel_inv_def by auto
qed

lemma distinct_filter_update:
  "distinct (filter P xs) \<Longrightarrow> (P x \<Longrightarrow> x \<notin> set xs) \<Longrightarrow> distinct (filter P (xs[i := x]))"
proof (induction xs arbitrary: i)
  case (Cons y xs)
  show ?case
  proof (cases i)
    case (Suc k)
    then have "distinct (filter P (xs[k := x]))"
      using Cons by (auto split: if_splits)
    moreover have "P y \<Longrightarrow> y \<notin> set (filter P (xs[k := x]))"
      using set_update_subset_insert [of xs k x] Cons.prems by auto
    ultimately show ?thesis
      using Suc by simp
  qed (use Cons.prems in \<open>auto split: if_splits\<close>)
qed simp

text \<open>The page that \<open>kmalloc\<close> found becomes a task in the first empty entry.\<close>

lemma task_added:
  fixes s :: "'a task_state_scheme"
  assumes inv: "kernel_inv s H" and rep: "heap_rep s1 H1" and objs: "objects s1 H1 = insert (t, 4096) (objects s H)"
    and new: "(t, 4096) \<notin> objects s H" and keep: "keeps_objects s H s1"
    and more: "malloc_state.more s1 = malloc_state.more s"
    and slot: "empty_slot (tasks s) 0 = Some i" and name: "length nm \<le> 31" "0 \<notin> set nm"
    and s': "s' = s1\<lparr>tasks := (tasks s)[i := t], ram := task_block t nm func (of_nat i) ppid (ram s1)\<rparr>"
  shows "kernel_inv s' H1" and "objects s' H1 = objects s1 H1" and "avail s' = avail s1" and "tasks s' = (tasks s)[i := t]"
    and "current s' = current s" and "untouched s H y \<Longrightarrow> page_of y \<noteq> t \<Longrightarrow> ram s' y = ram s y"
proof -
  have t: "page_of t = t" "t \<noteq> 0" "t \<in> owned_pages s1" "t \<notin> hv_dpages H1"
    using page_object [OF rep, of t] objs by simp_all
  note same = malloc_more_task [OF more]
  have len: "length (tasks s) = 64" and i: "i < 64" "tasks s ! i = 0"
    using kernel_invD(2) [OF inv] empty_slot_Some [OF slot] by simp_all
  have ram': "ram s' = task_block t nm func (of_nat i) ppid (ram s1)"
    by (simp add: s')
  have out: "ram s' y = ram s1 y" if "page_of y \<noteq> t" for y
    unfolding ram' by (rule task_block_other [OF t(1) name(1) that])
  have "log_inv s1"
    using rep by (simp add: heap_rep_def mem_ok_def mem_wf_def)
  then have log: "log_inv s'"
    by (simp add: s' log_inv_def con_inv_def)
  have idle: "heap_idle (task_pages s1 H1) s1 s'"
  proof -
    have "page_of y \<noteq> t" if "page_of y \<notin> task_pages s1 H1" for y
      using objs that by (auto simp: task_pages_def)
    then have "\<forall>y. page_of y \<notin> task_pages s1 H1 \<longrightarrow> ram s' y = ram s1 y"
      using out by blast
    moreover have "g_physics_memory s' = g_physics_memory s1" "g_physics_memory_map s' = g_physics_memory_map s1"
      "bucket_dir s' = bucket_dir s1" "free_bucket_desc s' = free_bucket_desc s1"
      by (simp_all add: s')
    ultimately show ?thesis
      by (simp add: heap_idle_def)
  qed
  note moved = heap_idle_rep [OF rep idle log]
  show rep': "objects s' H1 = objects s1 H1" "avail s' = avail s1"
    using moved by simp_all
  show tasks': "tasks s' = (tasks s)[i := t]" and cur: "current s' = current s"
    using same by (simp_all add: s')
  note old_page = task_page [OF inv]
  have other: "u \<noteq> t" if "u \<in> set (tasks s)" "u \<noteq> 0" for u
    using kernel_invD(3) [OF inv that] new by blast
  have keeps: "ram s' y = ram s y" if "untouched s H y" "page_of y \<noteq> t" for y
    using keep out that by (simp add: keeps_objects_def)
  then show "untouched s H y \<Longrightarrow> page_of y \<noteq> t \<Longrightarrow> ram s' y = ram s y" .
  have same_page: "ram s' y = ram s y" if "u \<in> set (tasks s)" "u \<noteq> 0" "page_of y = u" for u y
    using keeps [of y] old_page(5) [OF that(1,2)] other [OF that(1,2)] that(3) by simp
  have fields: "field (ram s') u off = field (ram s) u off"
    if "u \<in> set (tasks s)" "u \<noteq> 0" "unat off + 4 \<le> 4096" for u off
    using field_cong [OF old_page(1) [OF that(1,2)] that(3)] same_page [OF that(1,2)] by blast
  have t_fields: "control_block (ram s') t i" "ready_fresh (ram s') t"
    using task_block_fields [OF name(1)] task_block_name [OF name] name(1)
    by (auto simp: ram' ready_fresh_def control_block_def)
  have blocks: "control_block (ram s') u j" if u: "u \<in> set (tasks s)" "u \<noteq> 0" and block: "control_block (ram s) u j" for u j
  proof (rule control_block_cong [OF block])
    show "ram s' y = ram s y" if "in_range (u + 108) 40 y" for y
      using same_page [OF u] in_task_page [OF old_page(1) [OF u], of 108 40 y] that by simp
  qed
  have members: "set ((tasks s)[i := t]) \<subseteq> insert t (set (tasks s))"
    by (rule set_update_subset_insert)
  show "kernel_inv s' H1"
    unfolding kernel_inv_def tasks' cur
  proof (intro conjI allI ballI impI)
    show "heap_rep s' H1"
      using moved by simp
    show "set ((tasks s)[i := t]) - {0} \<subseteq> task_pages s' H1"
      using members kernel_invD(3) [OF inv] objs rep' by (auto simp: task_pages_def)
    show "distinct (filter (\<lambda>t. t \<noteq> 0) ((tasks s)[i := t]))"
      using kernel_invD(4) [OF inv]
      by (rule distinct_filter_update) (use kernel_invD(3) [OF inv] new in blast)
    show "current s = 0 \<or> current s \<in> set ((tasks s)[i := t])"
    proof (cases "current s = 0")
      case False
      then obtain j where "j < 64" "tasks s ! j = current s"
        using kernel_invD(5) [OF inv] len by (auto simp: in_set_conv_nth)
      then have "(tasks s)[i := t] ! j = current s" "j < length ((tasks s)[i := t])"
        using False i len by (auto simp: nth_list_update)
      then show ?thesis
        using nth_mem by metis
    qed simp
    show "control_block (ram s') ((tasks s)[i := t] ! j) j"
      if "j < 64" "(tasks s)[i := t] ! j \<noteq> 0" for j
      using that i len t_fields blocks [of "tasks s ! j" j] kernel_invD(8) [OF inv, of j]
      by (cases "j = i") simp_all
    show "ready_fresh (ram s') u" if "u \<in> set (drop 1 ((tasks s)[i := t]))" "u \<noteq> 0" for u
    proof (cases "u = t")
      case False
      then have u: "u \<in> set (drop 1 (tasks s))"
        using that members i len
        by (auto simp: in_set_conv_nth nth_list_update split: if_splits)
      then show ?thesis
        using kernel_invD(6) [OF inv u that(2)] ready_fresh_cong [OF old_page(1) [OF _ that(2)]] same_page [OF _ that(2)]
          set_drop_subset [of 1 "tasks s"] by blast
    qed (use t_fields in simp)
    show "current s = (tasks s)[i := t] ! 0 \<or> field (ram s') (current s) off_state = TASK_RUNNING"
      if "current s \<noteq> 0"
      using kernel_invD(5,9) [OF inv] that fields [of "current s" off_state] i len
      by (cases "i = 0") auto
  qed (simp add: len)
qed

text \<open>What creation does: the new task \<open>t\<close> in entry \<open>i\<close>, and what stays.\<close>

definition task_created :: "'a task_state_scheme \<Rightarrow> heap_view \<Rightarrow> nat \<Rightarrow> u8 list \<Rightarrow> u32 \<Rightarrow> u32 \<Rightarrow>
    'a task_state_scheme \<Rightarrow> heap_view \<Rightarrow> bool" where
  "task_created s H i nm func t s' H' \<longleftrightarrow> kernel_inv s' H'
    \<and> (t, 4096) \<notin> objects s H \<and> objects s' H' = insert (t, 4096) (objects s H) \<and> card (avail s) \<le> card (avail s') + 2
    \<and> tasks s' = (tasks s)[i := t] \<and> current s' = current s \<and> task_state.more s' = task_state.more s \<and> iflag s'
    \<and> field (ram s') t off_pid = of_nat i
    \<and> field (ram s') t off_ppid = (if current s = 0 then 0 else field (ram s) (current s) off_pid)
    \<and> field (ram s') t off_state = TASK_READY \<and> field (ram s') t off_scheduling_times = 0
    \<and> field (ram s') t tss_eip = func \<and> field (ram s') t tss_esp0 = t + PAGE_SIZE
    \<and> c_string (ram s') (t + off_name) nm \<and> gdtr s' = gdtr s \<and> idtr s' = idtr s \<and> keymap s' = keymap s
    \<and> (\<forall>y. untouched s H y \<longrightarrow> page_of y \<noteq> t \<longrightarrow> ram s' y = ram s y)"

lemma create_task_made:
  fixes s :: "'a task_state_scheme"
  assumes inv: "kernel_inv s H" and run: "kmalloc 4096 s = Some (t, s1)" and t: "t \<noteq> 0"
    and slot: "empty_slot (tasks s) 0 = Some i"
    and name: "c_string (ram s) name nm" "length nm \<le> 31" "unat name + length nm + 1 \<le> 0x10000"
  shows "\<exists>s' H'. create_task name func prio s = Some (t, s') \<and> task_created s H i nm func t s' H'"
proof -
  obtain H1 where rep: "heap_rep s1 H1" and new: "(t, 4096) \<notin> objects s H" and objs: "objects s1 H1 = insert (t, 4096) (objects s H)"
    and keep: "keeps_objects s H s1" and more: "malloc_state.more s1 = malloc_state.more s" and flag: "iflag s1"
    and count: "card (avail s) \<le> card (avail s1) + 2"
    using kmalloc_heap [OF kernel_invD(1) [OF inv], of 4096] run t by (auto simp: bucket_bytes_def)
  note page = page_object [OF rep, of t, unfolded objs, simplified]
  have low: "low_memory y" if "in_range name (length nm + 1) y" for y
    using that name(3) in_range_nat [of name "length nm + 1" y] by (simp add: low_memory_def vga_nat in_range_nat)
  have name1: "c_string (ram s1) name nm"
    using name(1,2) keep low c_string_cong [of name nm "ram s1" "ram s"] by (simp add: keeps_objects_def untouched_def)
  have cur: "page_of (current s) = current s" "current s \<noteq> t" "current s \<noteq> 0 \<Longrightarrow>
      field (ram s1) (current s) off_pid = field (ram s) (current s) off_pid"
  proof -
    have zero: "page_of 0 = 0"
      by (simp add: page_of_def)
    show "page_of (current s) = current s" "current s \<noteq> t"
      using kernel_invD(3) [OF inv, of "current s"] kernel_invD(5) [OF inv] task_page(1) [OF inv, of "current s"] zero t new
      by (cases "current s = 0"; force)+
    show "field (ram s1) (current s) off_pid = field (ram s) (current s) off_pid" if "current s \<noteq> 0"
    proof (rule field_cong)
      show "ram s1 y = ram s y" if "page_of y = current s" for y
        using keep task_page(5) [OF inv _ \<open>current s \<noteq> 0\<close> that] kernel_invD(5) [OF inv] \<open>current s \<noteq> 0\<close>
        by (simp add: keeps_objects_def)
    qed (use that kernel_invD(5) [OF inv] task_page(1) [OF inv, of "current s"] in simp_all)
  qed
  let ?ppid = "if current s = 0 then 0 else field (ram s1) (current s) off_pid"
  define s' where "s' = s1\<lparr>tasks := (tasks s)[i := t], ram := task_block t nm func (of_nat i) ?ppid (ram s1)\<rparr>"
  have made: "create_task name func prio s = Some (t, s')"
    unfolding s'_def by (rule create_task_run [OF run t page(1,4) more slot kernel_invD(2) [OF inv] name1 name(2,3) cur(1,2)])
  note added = task_added [OF inv rep objs new keep more slot name(2) c_string_nonzero [OF name(1)] s'_def]
  have "iflag s'"
    using flag by (simp add: s'_def)
  moreover have "task_state.more s' = task_state.more s" "gdtr s' = gdtr s" "idtr s' = idtr s" "keymap s' = keymap s"
    using malloc_more_task [OF more] by (simp_all add: s'_def)
  moreover have "field (ram s') t off_ppid = (if current s = 0 then 0 else field (ram s) (current s) off_pid)"
    using cur(3) task_block_fields(2) [OF name(2)] by (simp add: s'_def)
  moreover have "field (ram s') t off_pid = of_nat i" "field (ram s') t off_state = TASK_READY"
    "field (ram s') t off_scheduling_times = 0" "field (ram s') t tss_eip = func" "field (ram s') t tss_esp0 = t + PAGE_SIZE"
    using task_block_fields [OF name(2)] by (simp_all add: s'_def)
  moreover have "c_string (ram s') (t + off_name) nm"
    using task_block_name [OF name(2) c_string_nonzero [OF name(1)]] by (simp add: s'_def)
  ultimately show ?thesis
    using made added new objs count by (intro exI [of _ s'] exI [of _ H1]) (simp add: task_created_def)
qed

lemma create_task_ok:
  fixes s :: "'a task_state_scheme"
  assumes inv: "kernel_inv s H" and two: "2 \<le> card (avail s)" and slot: "empty_slot (tasks s) 0 = Some i"
    and name: "c_string (ram s) name nm" "length nm \<le> 31" "unat name + length nm + 1 \<le> 0x10000"
  shows "\<exists>t s' H'. create_task name func prio s = Some (t, s') \<and> task_created s H i nm func t s' H'"
proof -
  obtain t s1 where "kmalloc 4096 s = Some (t, s1)" "t \<noteq> 0"
    by (rule kmalloc_page [OF kernel_invD(1) [OF inv] two])
  then show ?thesis
    using create_task_made [OF inv _ _ slot name] by blast
qed

text \<open>Without an empty entry the pid is -1.\<close>

lemma create_task_full:
  fixes s :: "'a task_state_scheme"
  assumes heap: "heap_rep s H" and full: "length (tasks s) = 64" "0 \<notin> set (tasks s)"
    and name: "c_string (ram s) name nm" "length nm \<le> 31" "unat name + length nm + 1 \<le> 0x10000"
  shows "create_task name func prio s = None"
proof -
  have len: "size_class 4096 < 9"
    by simp
  show ?thesis
  proof (cases "kmalloc 4096 s")
    case None
    then show ?thesis by (simp add: create_task_def)
  next
    case (Some r)
    obtain t s1 where run: "kmalloc 4096 s = Some (t, s1)"
      using Some by (cases r) simp
    show ?thesis
    proof (cases "t = 0")
      case True
      then show ?thesis using run by (simp add: create_task_def)
    next
      case False
      then obtain H1 where rep: "heap_rep s1 H1" and objs: "objects s1 H1 = insert (t, 4096) (objects s H)"
        and keep: "keeps_objects s H s1" and more: "malloc_state.more s1 = malloc_state.more s"
        using kmalloc_heap [OF heap len] run by (auto simp: bucket_bytes_def)
      note t = page_object [OF rep, of t, unfolded objs, simplified]
      define s2 where "s2 = upd_ram (\<lambda>m. snd (memset m t 0 PAGE_SIZE)) s1"
      have log: "log_inv s2"
        using rep by (simp add: s2_def upd_ram_def heap_rep_def mem_ok_def mem_wf_def log_inv_def con_inv_def)
      have "vsprintf (ram s2) (cstr ''no valid pid'' @ [10]) [] = Some (cstr ''no valid pid'' @ [10], ram s2)"
        by (simp add: vsprintf_text)
      from printk_message [OF log this] obtain s3
        where msg: "print_message (cstr ''no valid pid'' @ [10]) [] s2 = Some s3" and frame: "log_frame s2 s3"
        by auto
      have same: "tasks s2 = tasks s" "tasks s3 = tasks s"
        using malloc_more_task [OF more] log_frame_task(1) [OF frame] by (simp_all add: s2_def upd_ram_def)
      have none: "find_empty_process s2 = Some (- 1, s3)"
        using msg full empty_slot_None [of "tasks s2" 0] by (simp add: find_empty_process_def same)
      define s4 where "s4 = upd_ram (set_field t off_pid (- 1)) s3"
      define s5 where "s5 = upd_ram (set_field t off_scheduling_times 0) (upd_ram (set_field t off_ppid
        (if current s4 = 0 then 0 else field (ram s4) (current s4) off_pid)) s4)"
      have s5a: "current s4 = 0 \<Longrightarrow> upd_ram (set_field t off_scheduling_times 0) (upd_ram (set_field t off_ppid 0) s4) = s5"
        and s5b: "current s4 \<noteq> 0 \<Longrightarrow> upd_ram (set_field t off_scheduling_times 0)
          (upd_ram (set_field t off_ppid (field (ram s4) (current s4) off_pid)) s4) = s5"
        by (simp_all add: s5_def)
      have low: "ram s1 y = ram s y" if "in_range name (length nm + 1) y" for y
        using that name(3) keep in_range_nat [of name "length nm + 1" y]
        by (simp add: keeps_objects_def untouched_def low_memory_def vga_nat in_range_nat)
      have name1: "c_string (ram s1) name nm"
        using name(1,2) low c_string_cong [of name nm "ram s1" "ram s"] by simp
      have same5: "ram s5 y = ram s1 y" if "page_of y \<noteq> t" "\<not> vga y" for y
      proof -
        have "\<not> in_range t 4096 y"
          using in_task_page [OF t(1), of 0 4096 y] that(1) by auto
        then show ?thesis
          using log_frame_task(5) [OF frame that(2)] that t(1)
          by (simp add: s5_def s4_def s2_def upd_ram_def set_field_other_page memset_write mem_write_other
              del: replicate_numeral)
      qed
      note copied = name_copied [OF t(1,4) name1 name(2,3) same5]
      have "field (mem_write (ram s5) (t + off_name) (nm @ [0])) t off_pid = - 1"
        using name(2) by (simp add: s5_def s4_def upd_ram_def field_set_apart field_name_apart)
      moreover have "length (tasks s5) = 64"
        using same full(1) by (simp add: s5_def s4_def upd_ram_def)
      ultimately show ?thesis
        using False
        by (cases "current s4 = 0") (simp_all add: create_task_def run s2_def [symmetric] none s4_def [symmetric] s5a s5b
            copied Let_def del: off_pid_def off_ppid_def off_scheduling_times_def off_name_def PAGE_SIZE_def)
    qed
  qed
qed

text \<open>Hence a task that was created is in an entry that was empty.\<close>

lemma create_task_result:
  fixes s :: "'a task_state_scheme"
  assumes inv: "kernel_inv s H" and made: "create_task name func prio s = Some (t, s')"
    and name: "c_string (ram s) name nm" "length nm \<le> 31" "unat name + length nm + 1 \<le> 0x10000"
  obtains i H' where "empty_slot (tasks s) 0 = Some i" and "task_created s H i nm func t s' H'"
proof -
  obtain i where slot: "empty_slot (tasks s) 0 = Some i"
    using create_task_full [OF kernel_invD(1,2) [OF inv] _ name, of func prio] made empty_slot_None [of "tasks s" 0]
    by (cases "empty_slot (tasks s) 0") simp_all
  obtain u s1 where run: "kmalloc 4096 s = Some (u, s1)" "u \<noteq> 0"
    using made by (auto simp: create_task_def Option.bind_eq_Some_conv split: if_splits)
  from create_task_made [OF inv run slot name, of func prio] show thesis
    using that [OF slot] made by auto
qed

section \<open>Exit\<close>

lemma find_task_Some:
  "find_task ts t k = Some i \<Longrightarrow> k \<le> i \<and> i < k + length ts \<and> ts ! (i - k) = t"
proof (induction ts t k rule: find_task.induct)
  case (2 u ts t k)
  show ?case
  proof (cases "t = u")
    case False
    then have IH: "k + 1 \<le> i" "i < k + 1 + length ts" "ts ! (i - (k + 1)) = t"
      using 2 by simp_all
    then obtain n where n: "i = k + 1 + n"
      using le_Suc_ex by blast
    then show ?thesis
      using IH by simp
  qed (use 2 in auto)
qed simp

lemma find_task_None: "find_task ts t k = None \<longleftrightarrow> t \<notin> set ts"
  by (induction ts t k rule: find_task.induct) auto

lemma untouched_not_vga:
  assumes "heap_rep s H" and "untouched s H y"
  shows "\<not> vga y"
  using untouchedD(1) [OF assms] owned_outside(1) [of s y] assms(1)
  by (auto simp: heap_rep_def mem_ok_def low_memory_def)

lemma distinct_filter_nth:
  "distinct (filter P xs) \<Longrightarrow> i < length xs \<Longrightarrow> j < length xs \<Longrightarrow> xs ! i = xs ! j \<Longrightarrow> P (xs ! i) \<Longrightarrow> i = j"
proof (induction xs arbitrary: i j)
  case (Cons x xs)
  have "P x \<Longrightarrow> k < length xs \<Longrightarrow> xs ! k \<noteq> x" for k
    using Cons.prems(1) nth_mem by fastforce
  then show ?case
    using Cons by (cases i; cases j) (auto split: if_splits)
qed simp

lemma task_name_message:
  assumes inv: "kernel_inv s H" and t: "t \<in> set (tasks s)" "t \<noteq> 0"
  obtains s' where "print_message (cstr ''task exit: %s'' @ [10]) [Slot (t + off_name)] s = Some s'"
    and "log_inv s'" and "log_frame s s'" and "iflag s'"
proof -
  obtain i where "i < 64" "tasks s ! i = t"
    using t(1) kernel_invD(2) [OF inv] by (auto simp: in_set_conv_nth)
  then obtain nm where nm: "length nm \<le> 31" "c_string (ram s) (t + off_name) nm"
    using kernel_invD(8) [OF inv, of i] t(2) by (auto simp: control_block_def)
  then have "vsprintf (ram s) (cstr ''task exit: %s'' @ [10]) [Slot (t + off_name)] =
      Some (cstr ''task exit: '' @ nm @ [10], ram s)"
    by (simp add: vsprintf_def format_simps [simplified])
  moreover have "length (cstr ''task exit: '' @ nm @ [10]) \<le> 1023"
    using nm(1) by simp
  ultimately show thesis
    using printk_message [OF kernel_invD(7) [OF inv]] that by blast
qed

lemma task_exit_ok:
  fixes s :: "'a task_state_scheme"
  assumes inv: "kernel_inv s H" and i: "1 \<le> i" "i < 64" "tasks s ! i = t" and t: "t \<noteq> 0"
  shows "\<exists>s' H'. task_exit code t s = Some s' \<and> kernel_inv s' H' \<and> objects s' H' = objects s H - {(t, 4096)}
    \<and> tasks s' = (tasks s)[i := 0] \<and> current s' = 0 \<and> task_state.more s' = task_state.more s \<and> iflag s'
    \<and> keymap s' = keymap s \<and> (\<forall>y. untouched s H y \<longrightarrow> page_of y \<noteq> t \<longrightarrow> ram s' y = ram s y)"
proof -
  have len: "length (tasks s) = 64" and mem: "t \<in> set (tasks s)"
    using kernel_invD(2) [OF inv] i by auto
  have unique: "j = i" if "j < 64" "tasks s ! j = t" for j
    using distinct_filter_nth [OF kernel_invD(4) [OF inv], of j i] that i t len by simp
  obtain j where j: "find_task (drop 1 (tasks s)) t 1 = Some j"
    using find_task_None [of "drop 1 (tasks s)" t 1] i len
    by (cases "find_task (drop 1 (tasks s)) t 1") (auto simp: in_set_conv_nth dest: spec [of _ "i - 1"])
  then have "j = i"
    using find_task_Some [OF j] unique [of j] len by (cases j) simp_all
  obtain s1 where msg: "print_message (cstr ''task exit: %s'' @ [10]) [Slot (t + off_name)] s = Some s1"
    and log1: "log_inv s1" and frame: "log_frame s s1"
    by (rule task_name_message [OF inv mem t])
  define s2 where "s2 = s1\<lparr>ram := set_field t off_exit_code code (ram s1), tasks := (tasks s1)[i := 0], current := 0\<rparr>"
  have clear: "clear_task code i s = Some s2"
    using msg t i by (simp add: clear_task_def s2_def upd_ram_def)
  note page = task_page [OF inv]
  have other: "\<not> in_range t 4 y" if "page_of y \<noteq> t" for y
    using in_task_page [OF page(1) [OF mem t], of 0 4 y] that by auto
  have same2: "ram s2 y = ram s y" if "page_of y \<noteq> t" "\<not> vga y" for y
    using log_frame_task(5) [OF frame that(2)] set_field_other_page [OF page(1) [OF mem t] _ that(1)] by (simp add: s2_def)
  have log2: "log_inv s2"
    using log1 by (simp add: s2_def log_inv_def con_inv_def)
  have idle: "heap_idle (task_pages s H) s s2"
  proof -
    have "page_of y \<noteq> t" if "page_of y \<notin> task_pages s H" for y
      using kernel_invD(3) [OF inv mem t] that by (auto simp: task_pages_def)
    then have "\<forall>y. page_of y \<notin> task_pages s H \<longrightarrow> \<not> vga y \<longrightarrow> ram s2 y = ram s y"
      using same2 by blast
    then show ?thesis
      using log_frame_task(4) [OF frame, of "task_pages s H"] by (simp add: heap_idle_def s2_def)
  qed
  note moved = heap_idle_rep [OF kernel_invD(1) [OF inv] idle log2]
  have obj2: "(t, 4096) \<in> objects s2 H"
    using moved(2) kernel_invD(3) [OF inv mem t] by simp
  obtain s' H' where free: "kfree_s t 4096 s2 = Some s'" and rep': "heap_rep s' H'"
    and objs: "objects s' H' = objects s2 H - {(t, 4096)}" and flag: "iflag s'"
    and more: "malloc_state.more s' = malloc_state.more s2"
    and keep: "\<And>y. untouched s2 H y \<Longrightarrow> \<not> in_range t 4 y \<Longrightarrow> ram s' y = ram s2 y"
    using kfree_s_object [OF moved(1) obj2, of 4096] by auto
  have run: "task_exit code t s = Some s'"
    using j \<open>j = i\<close> clear free by (simp add: task_exit_def)
  have shape: "tasks s' = (tasks s)[i := 0]" "current s' = 0" "task_state.more s' = task_state.more s" "keymap s' = keymap s"
    using malloc_more_task [OF more] log_frame_task(1,3,6) [OF frame] by (simp_all add: s2_def)
  have keeps: "ram s' y = ram s y" if y: "untouched s H y" "page_of y \<noteq> t" for y
  proof -
    have "\<not> vga y"
      using untouched_not_vga [OF kernel_invD(1) [OF inv] y(1)] .
    moreover have "untouched s2 H y"
      using y(1) moved(4) by (simp add: untouched_def)
    ultimately show ?thesis
      using keep [OF _ other [OF y(2)]] same2 [OF y(2)] by simp
  qed
  have rest: "u \<in> set (tasks s) \<and> u \<noteq> t" if u: "u \<in> set ((tasks s)[i := 0])" "u \<noteq> 0" for u
  proof -
    obtain k where k: "k < 64" "(tasks s)[i := 0] ! k = u"
      using u(1) len by (auto simp: in_set_conv_nth)
    then have "k \<noteq> i"
      using u(2) i(2) len by auto
    then have "tasks s ! k = u"
      using k by simp
    then show ?thesis
      using unique [of k] k(1) \<open>k \<noteq> i\<close> nth_mem [of k "tasks s"] len by auto
  qed
  have same_page: "ram s' y = ram s y" if "u \<in> set ((tasks s)[i := 0])" "u \<noteq> 0" "page_of y = u" for u y
    using keeps [of y] page(5) [of u y] rest [OF that(1,2)] that(2,3) by simp
  have "kernel_inv s' H'"
    unfolding kernel_inv_def shape
  proof (intro conjI allI ballI impI)
    show "set ((tasks s)[i := 0]) - {0} \<subseteq> task_pages s' H'"
      using rest kernel_invD(3) [OF inv] objs moved(2) by (auto simp: task_pages_def)
    show "distinct (filter (\<lambda>t. t \<noteq> 0) ((tasks s)[i := 0]))"
      using kernel_invD(4) [OF inv] by (rule distinct_filter_update) simp
    show "control_block (ram s') ((tasks s)[i := 0] ! j) j" if "j < 64" "(tasks s)[i := 0] ! j \<noteq> 0" for j
    proof -
      let ?u = "(tasks s)[i := 0] ! j"
      have u: "?u \<in> set ((tasks s)[i := 0])"
        using that(1) len by simp
      then have "control_block (ram s) ?u j"
        using kernel_invD(8) [OF inv that(1)] that len by (cases "j = i") simp_all
      then show ?thesis
      proof (rule control_block_cong)
        show "ram s' y = ram s y" if "in_range (?u + 108) 40 y" for y
          using same_page [OF u \<open>?u \<noteq> 0\<close>] in_task_page [of ?u 108 40 y] page(1) [of ?u] rest [OF u \<open>?u \<noteq> 0\<close>]
            \<open>?u \<noteq> 0\<close> that by simp
      qed
    qed
    show "ready_fresh (ram s') u" if u: "u \<in> set (drop 1 ((tasks s)[i := 0]))" "u \<noteq> 0" for u
    proof -
      have all: "u \<in> set ((tasks s)[i := 0])"
        using u(1) by (rule in_set_dropD)
      have "u \<in> set (drop 1 (tasks s))"
        using u i(1) by (cases "tasks s"; cases i) (auto dest!: set_update_subset_insert [THEN subsetD])
      then have "ready_fresh (ram s) u"
        using kernel_invD(6) [OF inv _ u(2)] by simp
      then show ?thesis
        using ready_fresh_cong [of u "ram s'" "ram s"] page(1) [of u] rest [OF all u(2)] u(2) same_page [OF all u(2)] by simp
    qed
  qed (use rep' len in simp_all)
  then show ?thesis
    using run objs moved(2) shape flag keeps by (intro exI [of _ s'] exI [of _ H']) simp
qed

end
