(* ===== verification/Sched_Spec.thy ===== *)
theory Sched_Spec
  imports Task_Spec
begin

text \<open>
  What a clock interrupt does: the interrupted task's registers go to its control block, the first
  task that is ready, or else the idle task, gets the processor with the registers of its own block.
\<close>

section \<open>The task that is next\<close>

lemma first_ready_None: "first_ready m ts = 0 \<longleftrightarrow> (\<forall>t\<in>set ts. t \<noteq> 0 \<longrightarrow> field m t off_state \<noteq> TASK_READY)"
  by (induction ts) auto

lemma first_ready_Some:
  assumes "first_ready m ts = t" and "t \<noteq> 0"
  shows "t \<in> set ts" and "field m t off_state = TASK_READY"
  using assms by (induction ts) (auto split: if_splits)

lemma first_ready_cong:
  "(\<And>t. t \<in> set ts \<Longrightarrow> t \<noteq> 0 \<Longrightarrow> field m' t off_state = field m t off_state) \<Longrightarrow> first_ready m' ts = first_ready m ts"
  by (induction ts) auto

section \<open>Saving\<close>

definition saved_mem :: "u32 \<Rightarrow> u32 \<Rightarrow> u32 \<Rightarrow> u32 \<Rightarrow> registers \<Rightarrow> mem \<Rightarrow> mem" where
  "saved_mem t k eflags cs r m =
     (let m = set_field t (k - 4) eflags m;
          m = set_field t (k - 8) cs m;
          m = set_field t (k - 12) (eip r) m;
          m = set_field t (k - 16) (ecx r) m;
          m = set_field t tss_eax (eax r) m;
          m = set_field t tss_edx (edx r) m;
          m = set_field t tss_ebx (ebx r) m;
          m = set_field t tss_ebp (ebp r) m;
          m = set_field t tss_esi (esi r) m;
          m = set_field t tss_edi (edi r) m;
          m = set_field t tss_eip (eip r) m;
          m = set_field t tss_esp0 (esp r) m;
          m = set_field t tss_ecx (ecx r) m
      in set_field t (k - 16) 0x20 m)"

lemma push_at:
  "esp (regs s) = t + k \<Longrightarrow>
   push v s = s\<lparr>ram := set_field t (k - 4) v (ram s), regs := (regs s)\<lparr>esp := t + (k - 4)\<rparr>\<rparr>"
  by (simp add: push_def set_field_def algebra_simps)

text \<open>The four words of the stack below \<open>t + k\<close> are above the control block and inside the page.\<close>

lemma stack_offset:
  fixes k :: u32
  assumes "208 \<le> unat k" and "unat k \<le> 4096"
  shows "188 \<le> unat (k - 4)" "188 \<le> unat (k - 8)" "188 \<le> unat (k - 12)" "188 \<le> unat (k - 16)"
    and "unat (k - 4) + 4 \<le> 4096" "unat (k - 8) + 4 \<le> 4096" "unat (k - 12) + 4 \<le> 4096" "unat (k - 16) + 4 \<le> 4096"
    and "unat (k - 16) + 4 \<le> unat (k - 12)"
    and "unat (k - 4) + 4 = unat k" "unat (k - 8) + 4 \<le> unat k" "unat (k - 12) + 4 \<le> unat k" "unat (k - 16) + 4 \<le> unat k"
  using assms by (simp_all add: unat_sub_if')

lemma field_set_stack:
  "unat off + 4 \<le> 188 \<Longrightarrow> 188 \<le> unat k \<Longrightarrow> unat k + 4 \<le> 4096 \<Longrightarrow> field (set_field t off v m) t k = field m t k"
  "unat off + 4 \<le> 188 \<Longrightarrow> 188 \<le> unat k \<Longrightarrow> unat k + 4 \<le> 4096 \<Longrightarrow> field (set_field t k v m) t off = field m t off"
  by (simp_all add: field_set_apart)

lemma clock_interrupt_saves:
  fixes s :: "'a cpu_state_scheme"
  assumes cur: "current s = t" "t \<noteq> 0" and sp: "esp (regs s) = t + k" "208 \<le> unat k" "unat k \<le> 4096"
  shows "clock_interrupt xh eflags cs s = clock_handler xh 0x20
    (s\<lparr>iflag := False, ram := saved_mem t k eflags cs (regs s) (ram s), regs := (regs s)\<lparr>eax := t, esp := t + (k - 16)\<rparr>\<rparr>)"
proof -
  have step: "k - 4 - 4 = k - 8" "k - 8 - 4 = k - 12" "k - 12 - 4 = k - 16" "k - 16 + 4 = k - 12" "k - 16 + 16 = k"
    by (simp_all add: algebra_simps)
  define sa where "sa = push cs (push eflags s)"
  define sb where "sb = CLI (push (eip (regs sa)) sa)"
  define s1 where "s1 = push (ecx (regs sb)) sb"
  have s1: "s1 = s\<lparr>ram := set_field t (k - 16) (ecx (regs s)) (set_field t (k - 12) (eip (regs s)) (set_field t (k - 8) cs
      (set_field t (k - 4) eflags (ram s)))), regs := (regs s)\<lparr>esp := t + (k - 16)\<rparr>, iflag := False\<rparr>"
    unfolding s1_def sb_def sa_def by (simp add: push_at [of _ t k] push_at [of _ t "k - 4"] push_at [of _ t "k - 8"]
        push_at [of _ t "k - 12"] sp step CLI_def)
  have reads: "load32 m (t + (k - 12)) = field m t (k - 12)" "load32 m (t + (k - 16)) = field m t (k - 16)"
    "t + k - 12 = t + (k - 12)" for m
    by (simp_all add: field_def algebra_simps)
  note offs = stack_offset [OF sp(2,3)]
  have "save_env (upd_regs (\<lambda>r. r\<lparr>ecx := t\<rparr>) s1) =
      s\<lparr>iflag := False, regs := (regs s)\<lparr>eax := t, esp := t + (k - 12)\<rparr>, ram := set_field t tss_ecx (ecx (regs s)) (set_field t tss_esp0 (esp (regs s)) (set_field t tss_eip (eip (regs s))
        (set_field t tss_edi (edi (regs s)) (set_field t tss_esi (esi (regs s)) (set_field t tss_ebp (ebp (regs s))
        (set_field t tss_ebx (ebx (regs s)) (set_field t tss_edx (edx (regs s)) (set_field t tss_eax (eax (regs s)) (ram s1)))))))))\<rparr>"
    using offs
    by (simp add: save_env_def s1 upd_ram_def upd_regs_def reads sp(1) field_set_stack field_set_apart Let_def)
  then show ?thesis
    using cur sp(1)
    unfolding clock_interrupt_def clock_entry_def Let_def sa_def [symmetric] sb_def [symmetric] s1_def [symmetric]
    by (simp add: upd_regs_def s1 push_at [of _ t "k - 12"] step saved_mem_def Let_def)
qed

text \<open>
  The interrupted task's block holds its registers and the address it goes on at; its pid, name, state
  and the part of its stack in use are as they were, and nothing outside its page changes.
\<close>

lemma saved_mem_fields:
  fixes k t eflags cs :: u32 and r :: registers and m :: mem
  assumes "208 \<le> unat k" and "unat k \<le> 4096"
  defines "m' \<equiv> saved_mem t k eflags cs r m"
  shows "field m' t tss_eip = eip r" "field m' t tss_esp0 = esp r" "field m' t tss_ebp = ebp r" "field m' t tss_ecx = ecx r"
    "field m' t tss_edx = edx r" "field m' t tss_ebx = ebx r" "field m' t tss_esi = esi r" "field m' t tss_edi = edi r"
    and "field m' t off_state = field m t off_state" "field m' t off_ppid = field m t off_ppid"
  using stack_offset [OF assms(1,2)] by (simp_all add: m'_def saved_mem_def Let_def field_set_stack field_set_apart)

lemma saved_mem_same:
  assumes "208 \<le> unat k" and "unat k \<le> 4096"
  shows "in_range (t + 108) 40 y \<Longrightarrow> saved_mem t k eflags cs r m y = m y"
    and "in_range (t + k) (4096 - unat k) y \<Longrightarrow> saved_mem t k eflags cs r m y = m y"
    and "page_of t = t \<Longrightarrow> page_of y \<noteq> t \<Longrightarrow> saved_mem t k eflags cs r m y = m y"
  using stack_offset [OF assms] set_field_apart [where k = 108 and n = 40 and t = t and y = y]
    set_field_apart [where k = "unat k" and n = "4096 - unat k" and t = t and y = y] assms
  by (simp_all add: saved_mem_def Let_def set_field_other_page)

section \<open>Restoring\<close>

definition resume_regs :: "mem \<Rightarrow> u32 \<Rightarrow> u32 \<Rightarrow> registers" where
  "resume_regs m t sp =
     \<lparr>eax = field m t tss_eip, ecx = field m t tss_ecx, edx = field m t tss_edx, ebx = field m t tss_ebx, esp = sp,
      ebp = field m t tss_ebp, esi = field m t tss_esi, edi = field m t tss_edi, eip = field m t tss_eip\<rparr>"

lemma recover_env_eq:
  "eax (regs s) = t \<Longrightarrow> ebp (regs s) = field (ram s) t tss_ebp \<Longrightarrow>
   recover_env s = s\<lparr>iflag := True, regs := resume_regs (ram s) t (esp (regs s))\<rparr>"
  by (cases "regs s") (simp add: recover_env_def upd_regs_def STI_def resume_regs_def Let_def)

lemma switch_idle_task_eq:
  assumes "current s = t" and "t \<noteq> 0"
  shows "switch_idle_task s = Some (s\<lparr>iflag := True, regs := resume_regs (ram s) t (field (ram s) t tss_esp0)\<rparr>)"
  using assms by (simp add: switch_idle_task_def load_stack_def upd_regs_def Let_def recover_env_eq)

text \<open>A task that has not run: with parent 0 it finds the exit handler's address as its return address.\<close>

definition start_mem :: "u32 \<Rightarrow> u32 \<Rightarrow> mem \<Rightarrow> mem" where
  "start_mem xh t m =
     (if field m t off_ppid = 0
      then set_field t 4092 xh (set_field t off_scheduling_times 1 (set_field t 4092 t m))
      else set_field t 4092 t m)"

definition start_sp :: "u32 \<Rightarrow> mem \<Rightarrow> u32" where
  "start_sp t m = (if field m t off_ppid = 0 then t + 4092 else t + 4096)"

lemma set_field_twice [simp]: "set_field t k v (set_field t k w m) = set_field t k v m"
  by (auto simp: set_field_def store32_def fun_eq_iff)

lemma push_top: "esp (regs x) = t + 4096 \<Longrightarrow>
    push v x = x\<lparr>ram := set_field t 4092 v (ram x), regs := (regs x)\<lparr>esp := t + 4092\<rparr>\<rparr>"
  using push_at [of x t 4096 v] by simp

lemma first_schedule_eq:
  assumes "current s = t" and "esp (regs s) = t + 4096" and "field (ram s) t off_scheduling_times = 0"
  shows "first_schedule xh s = s\<lparr>ram := set_field t 4092 xh (set_field t off_scheduling_times 1 (set_field t 4092 t (ram s))),
    regs := (regs s)\<lparr>eax := xh, esp := t + 4092\<rparr>\<rparr>"
proof -
  define s1 where "s1 = s\<lparr>ram := set_field t 4092 t (ram s), regs := (regs s)\<lparr>eax := t, esp := t + 4092\<rparr>\<rparr>"
  have "push t (upd_regs (\<lambda>r. r\<lparr>eax := t\<rparr>) s) = s1"
    using assms(2) by (simp add: push_top [where t = t] upd_regs_def s1_def)
  moreover have "inc_scheduling_times t s1 = (0, s1\<lparr>ram := set_field t off_scheduling_times 1 (ram s1)\<rparr>)"
    using assms(3) by (simp add: inc_scheduling_times_def s1_def upd_ram_def field_set_stack)
  moreover have "t + 4092 + 4 = t + 4096"
    by (simp add: add.assoc)
  ultimately show ?thesis
    using assms(1) by (simp add: first_schedule_def upd_regs_def Let_def push_top [where t = t] s1_def)
qed

lemma switch_task_eq:
  assumes cur: "current s = t" "t \<noteq> 0" and fresh: "field (ram s) t tss_esp0 = t + 4096" "field (ram s) t off_scheduling_times = 0"
  shows "switch_task xh s = Some (s\<lparr>ram := start_mem xh t (ram s), iflag := True,
    regs := resume_regs (start_mem xh t (ram s)) t (start_sp t (ram s))\<rparr>)"
proof -
  have top: "field (set_field t 4092 v m) t off = field m t off" if "unat off + 4 \<le> 188" for v m off
    using that by (intro field_set_stack) simp_all
  define s0 where "s0 = load_stack (upd_regs (\<lambda>r. r\<lparr>eax := t\<rparr>) s)"
  have s0: "eax (regs s0) = t" "esp (regs s0) = t + 4096" "ebp (regs s0) = field (ram s) t tss_ebp" "ram s0 = ram s"
    "s0\<lparr>ram := m, regs := r\<rparr> = s\<lparr>ram := m, regs := r\<rparr>" for m r
    using fresh by (simp_all add: s0_def load_stack_def upd_regs_def Let_def)
  have keep: "(regs s0)\<lparr>eax := v, esp := 4096 + t\<rparr> = (regs s0)\<lparr>eax := v\<rparr>" for v
    using s0(2) by (cases "regs s0") (simp add: add.commute)
  define s1 where "s1 = load_ppid s0"
  have s1: "s1 = s\<lparr>ram := set_field t 4092 t (ram s), regs := (regs s0)\<lparr>eax := field (ram s) t off_ppid\<rparr>\<rparr>"
    unfolding s1_def load_ppid_def s0(1) push_top [OF s0(2)] Let_def
    by (simp add: upd_regs_def get_task_ppid_def top s0 keep)
  have same: "resume_regs (set_field t 4092 t m) t sp = resume_regs m t sp" for m sp
    by (simp add: resume_regs_def top)
  have run: "switch_task xh s = (let s = (if eax (regs s1) \<noteq> 0 then s1 else first_schedule xh s1);
      s = upd_regs (\<lambda>r. r\<lparr>eax := current s\<rparr>) s in Some (recover_env s))"
    using cur by (simp add: switch_task_def s1_def s0_def upd_regs_def Let_def)
  show ?thesis
  proof (cases "field (ram s) t off_ppid = 0")
    case True
    then have "first_schedule xh s1 = s1\<lparr>ram := start_mem xh t (ram s), regs := (regs s1)\<lparr>eax := xh, esp := t + 4092\<rparr>\<rparr>"
      using first_schedule_eq [of s1 t xh] cur fresh(2) s0(2) by (simp add: s1 top start_mem_def)
    then show ?thesis
      using cur True s0(3) same
      by (simp add: run upd_regs_def recover_env_eq s1 start_mem_def start_sp_def field_set_apart top)
  next
    case False
    then show ?thesis
      using cur s0(2,3) by (simp add: run upd_regs_def recover_env_eq s1 start_mem_def start_sp_def top)
  qed
qed

lemma start_mem_fields:
  "unat off + 4 \<le> 164 \<Longrightarrow> field (start_mem xh t m) t off = field m t off"
  "field (start_mem xh t m) t 4092 = (if field m t off_ppid = 0 then xh else t)"
  by (simp_all add: start_mem_def field_set_stack field_set_apart)

lemma start_mem_same:
  "in_range (t + 108) 40 y \<Longrightarrow> start_mem xh t m y = m y"
  "page_of t = t \<Longrightarrow> page_of y \<noteq> t \<Longrightarrow> start_mem xh t m y = m y"
  using set_field_apart [where k = 108 and n = 40 and t = t and y = y]
  by (simp_all add: start_mem_def set_field_other_page)

section \<open>The scheduler\<close>

lemma sched_idle:
  assumes "first_ready (ram s) (drop 1 (tasks s)) = 0" and "tasks s ! 0 = t" and "t \<noteq> 0"
  shows "sched xh s = Some (s\<lparr>current := t, iflag := True, regs := resume_regs (ram s) t (field (ram s) t tss_esp0)\<rparr>)"
  using assms by (simp add: sched_def find_ready_task_def Let_def switch_idle_task_eq)

definition dispatch_mem :: "u32 \<Rightarrow> u32 \<Rightarrow> mem \<Rightarrow> mem" where
  "dispatch_mem xh t m = start_mem xh t (set_field t off_state TASK_RUNNING m)"

lemma dispatch_mem_fields:
  "unat off + 4 \<le> 148 \<Longrightarrow> field (dispatch_mem xh t m) t off = field m t off"
  "field (dispatch_mem xh t m) t off_state = TASK_RUNNING"
  "field (dispatch_mem xh t m) t 4092 = (if field m t off_ppid = 0 then xh else t)"
  by (simp_all add: dispatch_mem_def start_mem_fields field_set_apart)

lemma dispatch_mem_same:
  "in_range (t + 108) 40 y \<Longrightarrow> dispatch_mem xh t m y = m y"
  "page_of t = t \<Longrightarrow> page_of y \<noteq> t \<Longrightarrow> dispatch_mem xh t m y = m y"
  using set_field_apart [where k = 108 and n = 40 and t = t and y = y]
  by (simp_all add: dispatch_mem_def start_mem_same set_field_other_page)

lemma sched_ready:
  assumes "first_ready (ram s) (drop 1 (tasks s)) = t" and "t \<noteq> 0" and fresh: "ready_fresh (ram s) t"
  shows "sched xh s = Some (s\<lparr>ram := dispatch_mem xh t (ram s), current := t, iflag := True,
    regs := resume_regs (ram s) t (start_sp t (ram s))\<rparr>)"
proof -
  have "field (ram s) t off_state = TASK_READY"
    using first_ready_Some(2) [OF assms(1,2)] .
  then have "field (ram s) t tss_esp0 = t + 4096" "field (ram s) t off_scheduling_times = 0"
    using fresh by (simp_all add: ready_fresh_def)
  moreover have "resume_regs (dispatch_mem xh t (ram s)) t sp = resume_regs (ram s) t sp" for sp
    by (simp add: resume_regs_def dispatch_mem_fields)
  ultimately show ?thesis
    using assms(1,2) switch_task_eq [of "s\<lparr>ram := set_field t off_state TASK_RUNNING (ram s), current := t\<rparr>" t xh]
    by (simp add: sched_def find_ready_task_def Let_def upd_ram_def dispatch_mem_def start_sp_def field_set_apart)
qed

definition scheduled :: "u32 \<Rightarrow> 'a cpu_state_scheme \<Rightarrow> 'a cpu_state_scheme \<Rightarrow> bool" where
  "scheduled xh s s' \<longleftrightarrow> tasks s' = tasks s \<and> keymap s' = keymap s \<and> iflag s' \<and> cpu_ticks s' = cpu_ticks s
     \<and> (let t = first_ready (ram s) (drop 1 (tasks s))
        in if t = 0
           then current s' = tasks s ! 0 \<and> ram s' = ram s
             \<and> regs s' = resume_regs (ram s) (tasks s ! 0) (field (ram s) (tasks s ! 0) tss_esp0)
           else current s' = t \<and> ram s' = dispatch_mem xh t (ram s)
             \<and> regs s' = resume_regs (ram s) t (start_sp t (ram s)))"

lemma tasks_tail:
  assumes "kernel_inv s H" and "t \<in> set (drop 1 (tasks s))" and "t \<noteq> 0"
  shows "t \<in> set (tasks s)" and "t \<noteq> tasks s ! 0"
proof -
  show mem: "t \<in> set (tasks s)"
    using assms(2) by (rule in_set_dropD)
  obtain i where "i < 63" "tasks s ! (i + 1) = t"
    using assms(2) kernel_invD(2) [OF assms(1)] by (auto simp: in_set_conv_nth less_diff_conv add.commute)
  then show "t \<noteq> tasks s ! 0"
    using distinct_filter_nth [OF kernel_invD(4) [OF assms(1)], of "i + 1" 0] kernel_invD(2) [OF assms(1)] assms(3) by auto
qed

lemma sched_inv:
  fixes s :: "'a cpu_state_scheme"
  assumes inv: "kernel_inv s H" and idle: "tasks s ! 0 \<noteq> 0"
  shows "\<exists>s'. sched xh s = Some s' \<and> kernel_inv s' H \<and> objects s' H = objects s H \<and> avail s' = avail s \<and> scheduled xh s s'"
proof (cases "first_ready (ram s) (drop 1 (tasks s)) = 0")
  case True
  let ?s' = "s\<lparr>current := tasks s ! 0, iflag := True,
    regs := resume_regs (ram s) (tasks s ! 0) (field (ram s) (tasks s ! 0) tss_esp0)\<rparr>"
  have "log_inv ?s'" "heap_idle (task_pages s H) s ?s'"
    using kernel_invD(7) [OF inv] by (simp_all add: log_inv_def con_inv_def heap_idle_def)
  note moved = heap_idle_rep [OF kernel_invD(1) [OF inv] this(2,1)]
  have "tasks s ! 0 \<in> set (tasks s)"
    using kernel_invD(2) [OF inv] by simp
  then have "kernel_inv ?s' H"
    using inv moved(1,2) idle by (simp add: kernel_inv_def task_pages_def)
  then show ?thesis
    using sched_idle [OF True refl idle, of xh] moved(2,3) True by (simp add: scheduled_def)
next
  case False
  define t where "t = first_ready (ram s) (drop 1 (tasks s))"
  have t: "t \<in> set (drop 1 (tasks s))" "field (ram s) t off_state = TASK_READY" "t \<noteq> 0"
    using first_ready_Some [OF t_def [symmetric]] False by (simp_all add: t_def)
  note mem = tasks_tail [OF inv t(1,3)]
  note page = task_page [OF inv mem(1) t(3)]
  let ?s' = "s\<lparr>ram := dispatch_mem xh t (ram s), current := t, iflag := True, regs := resume_regs (ram s) t (start_sp t (ram s))\<rparr>"
  have run: "sched xh s = Some ?s'"
    using sched_ready [OF t_def [symmetric] t(3)] kernel_invD(6) [OF inv t(1,3)] by simp
  have "page_of y \<noteq> t" if "page_of y \<notin> task_pages s H" for y
    using kernel_invD(3) [OF inv mem(1) t(3)] that by (auto simp: task_pages_def)
  then have "log_inv ?s'" "heap_idle (task_pages s H) s ?s'"
    using kernel_invD(7) [OF inv] dispatch_mem_same(2) [OF page(1)]
    by (simp_all add: log_inv_def con_inv_def heap_idle_def)
  note moved = heap_idle_rep [OF kernel_invD(1) [OF inv] this(2,1)]
  have other: "dispatch_mem xh t (ram s) y = ram s y" if "page_of y = u" "u \<noteq> t" for u y
    using dispatch_mem_same(2) [OF page(1), of y] that by simp
  have "kernel_inv ?s' H"
    unfolding kernel_inv_def
  proof (intro conjI allI ballI impI)
    show "control_block (ram ?s') (tasks ?s' ! i) i" if "i < 64" "tasks ?s' ! i \<noteq> 0" for i
    proof (rule control_block_cong)
      let ?u = "tasks s ! i"
      show "control_block (ram s) (tasks ?s' ! i) i"
        using kernel_invD(8) [OF inv] that by simp
      have "?u \<in> set (tasks s)"
        using that kernel_invD(2) [OF inv] by simp
      then have "page_of ?u = ?u"
        using task_page(1) [OF inv] that(2) by simp
      then show "ram ?s' y = ram s y" if "in_range (tasks ?s' ! i + 108) 40 y" for y
        using that in_task_page [of ?u 108 40 y] other [of y ?u] dispatch_mem_same(1) [of t y]
        by (cases "?u = t") simp_all
    qed
    show "ready_fresh (ram ?s') u" if "u \<in> set (drop 1 (tasks ?s'))" "u \<noteq> 0" for u
    proof (cases "u = t")
      case False
      then show ?thesis
        using that kernel_invD(6) [OF inv, of u] task_page(1) [OF inv tasks_tail(1) [OF inv]]
          ready_fresh_cong [of u "ram ?s'" "ram s"] other by simp
    qed (simp add: ready_fresh_def dispatch_mem_fields [simplified])
  qed (use inv moved(1,2) mem in \<open>simp_all add: kernel_inv_def task_pages_def dispatch_mem_fields [simplified]\<close>)
  then show ?thesis
    using run moved(2,3) t(3) t_def [simplified] by (simp add: scheduled_def Let_def)
qed

section \<open>The clock interrupt\<close>

lemma log_frame_cpu:
  assumes "log_frame s (t :: 'a cpu_state_scheme)"
  shows "regs t = regs s" "cpu_ticks t = cpu_ticks s" "cpu_state.more t = cpu_state.more s"
  using assms
  by (cases s rule: cpu_state.cases_scheme, cases t rule: cpu_state.cases_scheme, simp add: log_frame_def)+

lemma clock_handler_run:
  fixes s :: "'a cpu_state_scheme"
  assumes "log_inv s"
  obtains s' where "clock_handler xh i s = sched xh s'" and "log_inv s'" and "heap_idle {} s s'"
    and "\<And>y. \<not> vga y \<Longrightarrow> ram s' y = ram s y" and "tasks s' = tasks s" and "current s' = current s"
    and "cpu_ticks s' = cpu_ticks s + 1" and "keymap s' = keymap s"
proof -
  define s1 where "s1 = send_eoi i s"
  have log: "log_inv s1" and frame: "log_frame s s1" and ticks: "cpu_ticks s1 = cpu_ticks s"
    using assms by (simp_all add: s1_def send_eoi_def out_byte_def log_inv_def con_inv_def log_frame_def outside_vga_same_def)
  have "vsprintf (ram s1) (cstr ''set eoi 0x%x %d'' @ [10]) [Slot i, Slot (cpu_ticks s1)] =
      Some (cstr ''set eoi 0x'' @ hex_lower i @ cstr '' '' @ dec_signed (cpu_ticks s1) @ [10], ram s1)"
    by (simp add: vsprintf_def format_simps [simplified])
  moreover have "length (cstr ''set eoi 0x'' @ hex_lower i @ cstr '' '' @ dec_signed (cpu_ticks s1) @ [10]) \<le> 1023"
    using length_hex_lower [of i] length_dec_signed [of "cpu_ticks s1"] by simp
  ultimately obtain s2 where msg: "print_message (cstr ''set eoi 0x%x %d'' @ [10]) [Slot i, Slot (cpu_ticks s1)] s1 = Some s2"
    and log2: "log_inv s2" and frame2: "log_frame s1 s2"
    using printk_message [OF log] by blast
  show thesis
  proof (rule that)
    show "clock_handler xh i s = sched xh (s2\<lparr>cpu_ticks := cpu_ticks s2 + 1\<rparr>)"
      using msg by (simp add: clock_handler_def s1_def [symmetric] do_timer_def)
    show "log_inv (s2\<lparr>cpu_ticks := cpu_ticks s2 + 1\<rparr>)"
      using log2 by (simp add: log_inv_def con_inv_def)
    show "heap_idle {} s (s2\<lparr>cpu_ticks := cpu_ticks s2 + 1\<rparr>)"
      using log_frame_task(4) [OF frame, of "{}"] log_frame_task(4) [OF frame2, of "{}"] by (simp add: heap_idle_def)
    show "ram (s2\<lparr>cpu_ticks := cpu_ticks s2 + 1\<rparr>) y = ram s y" if "\<not> vga y" for y
      using log_frame_task(5) [OF frame that] log_frame_task(5) [OF frame2 that] by simp
  qed (use log_frame_task(1,2,6) [OF frame] log_frame_task(1,2,6) [OF frame2] log_frame_cpu(2) [OF frame2] ticks in simp_all)
qed

text \<open>
  The stack the interrupt finds: in the page of the running task, above its control block, with room
  for what entry pushes; without a running task, in the kernel's own memory.
\<close>

definition stack_ok :: "'a cpu_state_scheme \<Rightarrow> bool" where
  "stack_ok s \<longleftrightarrow>
     (if current s = 0 then \<forall>y. in_range (esp (regs s) - 20) 20 y \<longrightarrow> low_memory y
      else \<exists>k. esp (regs s) = current s + k \<and> 208 \<le> unat k \<and> unat k \<le> 4096)"

definition own_memory :: "'a task_state_scheme \<Rightarrow> u32 \<Rightarrow> bool" where
  "own_memory s y \<longleftrightarrow> (if current s = 0 then low_memory y else page_of y = current s)"

text \<open>The state in which the handler calls the scheduler.\<close>

definition saved_block :: "mem \<Rightarrow> u32 \<Rightarrow> registers \<Rightarrow> bool" where
  "saved_block m t r \<longleftrightarrow> field m t tss_eip = eip r \<and> field m t tss_esp0 = esp r \<and> field m t tss_ebp = ebp r
     \<and> field m t tss_ecx = ecx r \<and> field m t tss_edx = edx r \<and> field m t tss_ebx = ebx r \<and> field m t tss_esi = esi r
     \<and> field m t tss_edi = edi r"

definition interrupted :: "'a cpu_state_scheme \<Rightarrow> 'a cpu_state_scheme \<Rightarrow> bool" where
  "interrupted s s' \<longleftrightarrow> tasks s' = tasks s \<and> keymap s' = keymap s \<and> current s' = current s \<and> cpu_ticks s' = cpu_ticks s + 1
     \<and> (\<forall>y. \<not> vga y \<longrightarrow> \<not> own_memory s y \<longrightarrow> ram s' y = ram s y)
     \<and> (let t = current s
        in t \<noteq> 0 \<longrightarrow> saved_block (ram s') t (regs s) \<and> field (ram s') t off_state = field (ram s) t off_state
          \<and> (\<forall>y. in_range (t + 108) 40 y \<longrightarrow> ram s' y = ram s y)
          \<and> (\<forall>y. in_range (esp (regs s)) (4096 - unat (esp (regs s) - t)) y \<longrightarrow> ram s' y = ram s y))"

lemma clock_interrupt_boot:
  fixes s :: "'a cpu_state_scheme"
  assumes "current s = 0"
  obtains m r where "clock_interrupt xh eflags cs s = clock_handler xh 0x20 (s\<lparr>iflag := False, ram := m, regs := r\<rparr>)"
    and "\<And>y. \<not> in_range (esp (regs s) - 20) 20 y \<Longrightarrow> m y = ram s y"
proof -
  let ?sp = "esp (regs s)"
  let ?m = "store32 (store32 (store32 (store32 (store32 (ram s) (?sp - 4) eflags) (?sp - 8) cs) (?sp - 12) (eip (regs s)))
    (?sp - 16) (ecx (regs s))) (?sp - 20) 0x20"
  have "clock_interrupt xh eflags cs s = clock_handler xh 0x20
      (s\<lparr>iflag := False, ram := ?m, regs := (regs s)\<lparr>ecx := 0, esp := ?sp - 20\<rparr>\<rparr>)"
    using assms by (simp add: clock_interrupt_def clock_entry_def push_def upd_regs_def CLI_def Let_def)
  moreover have "?m y = ram s y" if "\<not> in_range (?sp - 20) 20 y" for y
  proof -
    have "\<not> in_range (?sp - 20 + of_nat i) 4 y" if "i \<in> {0, 4, 8, 12, 16}" for i
      using in_range_sub [of "?sp - 20" i 4 y 20] that \<open>\<not> in_range (?sp - 20) 20 y\<close> by auto
    from this [of 0] this [of 4] this [of 8] this [of 12] this [of 16] show ?thesis
      by (simp add: store32_other)
  qed
  ultimately show thesis
    using that by blast
qed

lemma clock_interrupt_entry:
  fixes s :: "'a cpu_state_scheme"
  assumes inv: "kernel_inv s H" and stack: "stack_ok s"
  shows "\<exists>m r. clock_interrupt xh eflags cs s = clock_handler xh 0x20 (s\<lparr>iflag := False, ram := m, regs := r\<rparr>)
    \<and> (\<forall>y. \<not> own_memory s y \<longrightarrow> m y = ram s y)
    \<and> (current s \<noteq> 0 \<longrightarrow> saved_block m (current s) (regs s)
      \<and> field m (current s) off_state = field (ram s) (current s) off_state
      \<and> (\<forall>y. in_range (current s + 108) 40 y \<longrightarrow> m y = ram s y)
      \<and> (\<forall>y. in_range (esp (regs s)) (4096 - unat (esp (regs s) - current s)) y \<longrightarrow> m y = ram s y))"
proof (cases "current s = 0")
  case True
  obtain m r where "clock_interrupt xh eflags cs s = clock_handler xh 0x20 (s\<lparr>iflag := False, ram := m, regs := r\<rparr>)"
    "\<And>y. \<not> in_range (esp (regs s) - 20) 20 y \<Longrightarrow> m y = ram s y"
    using clock_interrupt_boot [OF True, of xh eflags cs] by blast
  moreover have "low_memory y" if "in_range (esp (regs s) - 20) 20 y" for y
    using stack True that by (simp add: stack_ok_def)
  ultimately show ?thesis
    using True by (intro exI [of _ m] exI [of _ r]) (auto simp: own_memory_def)
next
  case False
  define t where "t = current s"
  obtain k where k: "esp (regs s) = t + k" "208 \<le> unat k" "unat k \<le> 4096"
    using stack False by (auto simp: stack_ok_def t_def)
  have page: "page_of t = t"
    using task_page(1) [OF inv, of t] kernel_invD(5) [OF inv] False by (simp add: t_def)
  show ?thesis
  proof (intro exI conjI allI impI)
    show "clock_interrupt xh eflags cs s = clock_handler xh 0x20 (s\<lparr>iflag := False,
        ram := saved_mem t k eflags cs (regs s) (ram s), regs := (regs s)\<lparr>eax := t, esp := t + (k - 16)\<rparr>\<rparr>)"
      using clock_interrupt_saves [OF t_def [symmetric] _ k] False by (simp add: t_def)
    show "saved_mem t k eflags cs (regs s) (ram s) y = ram s y" if "\<not> own_memory s y" for y
      using saved_mem_same(3) [OF k(2,3) page] that False by (simp add: own_memory_def t_def)
  qed (use saved_mem_fields [OF k(2,3), of t eflags cs "regs s" "ram s"] saved_mem_same(1,2) [OF k(2,3)] k(1)
      in \<open>simp_all add: saved_block_def t_def [symmetric]\<close>)
qed

lemma clock_interrupt_inv:
  fixes s :: "'a cpu_state_scheme"
  assumes inv: "kernel_inv s H" and stack: "stack_ok s"
  obtains s1 where "clock_interrupt xh eflags cs s = sched xh s1" and "kernel_inv s1 H" and "interrupted s s1"
    and "objects s1 H = objects s H" and "avail s1 = avail s"
proof -
  let ?t = "current s"
  obtain m r where entry: "clock_interrupt xh eflags cs s = clock_handler xh 0x20 (s\<lparr>iflag := False, ram := m, regs := r\<rparr>)"
    and out: "\<And>y. \<not> own_memory s y \<Longrightarrow> m y = ram s y"
    and own: "?t \<noteq> 0 \<Longrightarrow> saved_block m ?t (regs s) \<and> field m ?t off_state = field (ram s) ?t off_state
      \<and> (\<forall>y. in_range (?t + 108) 40 y \<longrightarrow> m y = ram s y)
      \<and> (\<forall>y. in_range (esp (regs s)) (4096 - unat (esp (regs s) - ?t)) y \<longrightarrow> m y = ram s y)"
    using clock_interrupt_entry [OF inv stack, of xh eflags cs] by blast
  let ?s = "s\<lparr>iflag := False, ram := m, regs := r\<rparr>"
  have "log_inv ?s"
    using kernel_invD(7) [OF inv] by (simp add: log_inv_def con_inv_def)
  from clock_handler_run [OF this, of xh "0x20"] obtain s1
    where run: "clock_handler xh 0x20 ?s = sched xh s1" and log: "log_inv s1" and idle: "heap_idle {} ?s s1"
      and mem: "\<And>y. \<not> vga y \<Longrightarrow> ram s1 y = ram ?s y"
      and same: "tasks s1 = tasks ?s" "current s1 = current ?s" "cpu_ticks s1 = cpu_ticks ?s + 1"
        "keymap s1 = keymap ?s"
    by blast
  note mem = mem [simplified] and same = same [simplified]
  have cur: "?t \<in> set (tasks s)" "page_of ?t = ?t" "?t \<in> task_pages s H" if "?t \<noteq> 0"
    using kernel_invD(3,5) [OF inv] that task_page(1) [OF inv] by (simp_all add: task_pages_def)
  have not_vga: "\<not> vga y" if "u \<in> set (tasks s)" "u \<noteq> 0" "page_of y = u" for u y
    using task_page(6) [OF inv that] .
  have other: "ram s1 y = ram s y" if u: "u \<in> set (tasks s)" "u \<noteq> 0" "page_of y = u" "u \<noteq> ?t" for u y
  proof -
    have "\<not> own_memory s y"
      using task_page(4) [OF inv u(1,2)] low_memory_page [of y] u(3,4) by (auto simp: own_memory_def)
    then show ?thesis
      using mem [OF not_vga [OF u(1-3)]] out by simp
  qed
  have own1: "ram s1 y = m y" if "page_of y = ?t" "?t \<noteq> 0" for y
    using mem not_vga [OF cur(1) that(2,1)] that(2) by simp
  have field1: "field (ram s1) ?t off = field m ?t off" if "?t \<noteq> 0" "unat off + 4 \<le> 4096" for off
    using own1 that by (intro field_cong [OF cur(2)]) simp_all
  have idle': "heap_idle (task_pages s H) s s1"
  proof -
    have "ram s1 y = ram s y" if "page_of y \<notin> task_pages s H" "\<not> vga y" "\<not> low_memory y" for y
    proof -
      have "\<not> own_memory s y"
        using that cur(3) by (cases "?t = 0") (auto simp: own_memory_def)
      then show ?thesis
        using mem [OF that(2)] out by simp
    qed
    then show ?thesis
      using idle by (simp add: heap_idle_def)
  qed
  note moved = heap_idle_rep [OF kernel_invD(1) [OF inv] idle' log]
  have ranges: "ram s1 y = ram s y" if "?t \<noteq> 0" "in_range (?t + 108) 40 y" for y
    using own [OF that(1)] own1 [of y] in_task_page [OF cur(2), of 108 40 y] that by simp
  have "kernel_inv s1 H"
  proof (rule kernel_inv_frame [OF inv moved(1) _ same(1,2)])
    show "task_pages s H \<subseteq> task_pages s1 H"
      using moved(2) by (simp add: task_pages_def)
    show "control_block (ram s1) u i" if u: "u \<in> set (tasks s)" "u \<noteq> 0" and "control_block (ram s) u i" for u i
      using that(3)
    proof (rule control_block_cong)
      show "ram s1 y = ram s y" if "in_range (u + 108) 40 y" for y
        using ranges [of y] other [OF u] in_task_page [OF task_page(1) [OF inv u], of 108 40 y] that u(2)
        by (cases "u = ?t") simp_all
    qed
    show "field (ram s1) ?t off_state = field (ram s) ?t off_state" if "?t \<noteq> 0"
      using field1 [OF that] own [OF that] by simp
    show "ready_fresh (ram s1) u" if u: "u \<in> set (drop 1 (tasks s))" "u \<noteq> 0" and "ready_fresh (ram s) u" for u
    proof (cases "u = ?t")
      case True
      then have "field (ram s) u off_state = TASK_RUNNING"
        using tasks_tail(2) [OF inv u] kernel_invD(9) [OF inv] u(2) by simp
      then show ?thesis
        using True field1 [of off_state] own u(2) by (simp add: ready_fresh_def)
    next
      case False
      note mem_u = tasks_tail(1) [OF inv u]
      show ?thesis
        using ready_fresh_cong [OF task_page(1) [OF inv mem_u u(2)], of "ram s1" "ram s"] other [OF mem_u u(2)] False that(3)
        by simp
    qed
  qed
  moreover have "interrupted s s1"
  proof -
    have "ram s1 y = ram s y" if "\<not> vga y" "\<not> own_memory s y" for y
      using mem [OF that(1)] out [OF that(2)] by simp
    moreover have "saved_block (ram s1) ?t (regs s) \<and> field (ram s1) ?t off_state = field (ram s) ?t off_state"
      if "?t \<noteq> 0"
      using own [OF that] field1 [OF that] by (simp add: saved_block_def)
    moreover have "ram s1 y = ram s y" if "?t \<noteq> 0" "in_range (esp (regs s)) (4096 - unat (esp (regs s) - ?t)) y" for y
    proof -
      obtain k where k: "esp (regs s) = ?t + k" "unat k \<le> 4096"
        using stack \<open>?t \<noteq> 0\<close> by (auto simp: stack_ok_def)
      then have "page_of y = ?t"
        using in_task_page [OF cur(2) [OF \<open>?t \<noteq> 0\<close>], of "unat k" "4096 - unat k" y] that(2) by simp
      then show ?thesis
        using own [OF that(1)] own1 [of y] that by simp
    qed
    ultimately show ?thesis
      using same ranges by (simp add: interrupted_def Let_def)
  qed
  ultimately show thesis
    using that entry run moved by simp
qed

end
