(* ===== verification/Kernel_Inv.thy ===== *)
theory Kernel_Inv
  imports Sched_Spec
begin

text \<open>
  The invariant of the running kernel: the one of the task table, a key map of the right shape, and what
  an interrupt needs: an idle task, a stack with room, and for an idle task that waits the stack it will
  go on with. Code on the stack of the current task and messages keep it.
\<close>

text \<open>\<open>own_stack\<close> is what code between two calls may write: above the control block of the current task.\<close>

definition own_stack :: "'a task_state_scheme \<Rightarrow> u32 \<Rightarrow> bool" where
  "own_stack s y \<longleftrightarrow> (if current s = 0 then low_memory y else in_range (current s + 188) 3908 y)"

section \<open>The invariant\<close>

definition idle_waits :: "'a task_state_scheme \<Rightarrow> bool" where
  "idle_waits s \<longleftrightarrow> (let t = tasks s ! 0
     in current s \<noteq> t \<longrightarrow> (\<exists>k. field (ram s) t tss_esp0 = t + k \<and> 208 \<le> unat k \<and> unat k \<le> 4096))"

definition cpu_inv :: "'a cpu_state_scheme \<Rightarrow> heap_view \<Rightarrow> bool" where
  "cpu_inv s H \<longleftrightarrow> kernel_inv s H \<and> tasks s ! 0 \<noteq> 0 \<and> stack_ok s \<and> idle_waits s \<and> kbd_inv s"

lemma cpu_invD:
  assumes "cpu_inv s H"
  shows "kernel_inv s H" "tasks s ! 0 \<noteq> 0" "tasks s ! 0 \<in> set (tasks s)" "stack_ok s" "idle_waits s" "kbd_inv s"
  using assms kernel_invD(2) [of s H] by (simp_all add: cpu_inv_def)

lemma kbd_inv_cong: "kbd_inv s \<Longrightarrow> keymap s' = keymap s \<Longrightarrow> log_inv s' \<Longrightarrow> kbd_inv s'"
  by (simp add: kbd_inv_def)

text \<open>Code of the current task does not touch control blocks or the heap.\<close>

lemma own_stack_other:
  assumes inv: "kernel_inv s H" and t: "t \<in> set (tasks s)" "t \<noteq> 0" and y: "in_range (t + of_nat i) n y" "i + n \<le> 188"
  shows "\<not> own_stack s y" and "\<not> vga y"
proof -
  note page = task_page [OF inv t]
  have py: "page_of y = t"
    using in_task_page [OF page(1) y(1)] y(2) by simp
  then show "\<not> vga y"
    by (rule page(6))
  show "\<not> own_stack s y"
  proof (cases "current s = 0")
    case True
    then show ?thesis
      using py page(4) low_memory_page [of y] by (auto simp: own_stack_def)
  next
    case False
    then have cur: "page_of (current s) = current s"
      using kernel_invD(5) [OF inv] task_page(1) [OF inv] by blast
    show ?thesis
    proof
      assume "own_stack s y"
      then have own: "in_range (current s + 188) 3908 y"
        using False by (simp add: own_stack_def)
      then have "t = current s"
        using in_task_page [OF cur, of 188 3908 y] py by simp
      then show False
        using ranges_apart [of i n 188 3908 t] own y by (auto simp: disjoint_ranges_def)
    qed
  qed
qed

lemma own_stack_inv:
  fixes s s' :: "'a cpu_state_scheme"
  assumes inv: "kernel_inv s H" and same: "tasks s' = tasks s" "current s' = current s"
    and mem: "\<And>y. \<not> own_stack s y \<Longrightarrow> \<not> vga y \<Longrightarrow> ram s' y = ram s y" and heap: "heap_idle UNIV s s'" and log: "log_inv s'"
  shows "kernel_inv s' H" and "objects s' H = objects s H" and "avail s' = avail s"
    and "\<And>t off. t \<in> set (tasks s) \<Longrightarrow> t \<noteq> 0 \<Longrightarrow> unat off + 4 \<le> 188 \<Longrightarrow> field (ram s') t off = field (ram s) t off"
proof -
  have cur: "current s \<in> set (tasks s)" "page_of (current s) = current s" "current s \<in> task_pages s H" if "current s \<noteq> 0"
    using kernel_invD(3,5) [OF inv] that task_page(1) [OF inv] by (simp_all add: task_pages_def)
  have idle: "heap_idle (task_pages s H) s s'"
  proof -
    have "ram s' y = ram s y" if y: "page_of y \<notin> task_pages s H" "\<not> vga y" "\<not> low_memory y" for y
    proof (rule mem)
      show "\<not> own_stack s y"
        using y cur(3) in_task_page [OF cur(2), of 188 3908 y] by (cases "current s = 0") (auto simp: own_stack_def)
    qed (rule y)
    then show ?thesis
      using heap by (simp add: heap_idle_def)
  qed
  note moved = heap_idle_rep [OF kernel_invD(1) [OF inv] idle log]
  show "objects s' H = objects s H" and "avail s' = avail s"
    using moved by simp_all
  have low: "ram s' y = ram s y" if "t \<in> set (tasks s)" "t \<noteq> 0" "in_range (t + of_nat i) n y" "i + n \<le> 188" for t i n y
    using mem own_stack_other [OF inv that] by blast
  show fields: "field (ram s') t off = field (ram s) t off" if "t \<in> set (tasks s)" "t \<noteq> 0" "unat off + 4 \<le> 188" for t off
    unfolding field_def using low [OF that(1,2), of "unat off" 4] that(3) by (intro load32_cong) simp
  show "kernel_inv s' H"
  proof (rule kernel_inv_frame [OF inv moved(1) _ same])
    show "task_pages s H \<subseteq> task_pages s' H"
      using moved(2) by (simp add: task_pages_def)
    show "control_block (ram s') u i" if "u \<in> set (tasks s)" "u \<noteq> 0" "control_block (ram s) u i" for u i
      using that(3) low [OF that(1,2), of 108 40] by (auto intro: control_block_cong)
    show "field (ram s') (current s) off_state = field (ram s) (current s) off_state" if "current s \<noteq> 0"
      using fields [OF cur(1) [OF that] that, of off_state] by simp
    show "ready_fresh (ram s') u" if "u \<in> set (drop 1 (tasks s))" "u \<noteq> 0" "ready_fresh (ram s) u" for u
      using that(3) fields [OF tasks_tail(1) [OF inv that(1,2)] that(2)] by (simp add: ready_fresh_def)
  qed
qed

section \<open>The ready queue\<close>

text \<open>The tasks that are ready, in the order of the table: the queue the scheduler serves.\<close>

definition ready_tasks :: "'a task_state_scheme \<Rightarrow> u32 list" where
  "ready_tasks s = filter (\<lambda>t. t \<noteq> 0 \<and> field (ram s) t off_state = TASK_READY) (drop 1 (tasks s))"

lemma first_ready_queue:
  "first_ready m ts = (case filter (\<lambda>t. t \<noteq> 0 \<and> field m t off_state = TASK_READY) ts of [] \<Rightarrow> 0 | t # _ \<Rightarrow> t)"
  by (induction ts) auto

lemma ready_tasks_cong:
  assumes "tasks s' = tasks s"
    and "\<And>t. t \<in> set (drop 1 (tasks s)) \<Longrightarrow> t \<noteq> 0 \<Longrightarrow> field (ram s') t off_state = field (ram s) t off_state"
  shows "ready_tasks s' = ready_tasks s"
  using assms by (auto simp: ready_tasks_def intro!: filter_cong)

lemma distinct_ready_tasks:
  assumes "kernel_inv s H"
  shows "distinct (ready_tasks s)"
proof -
  have "distinct (filter (\<lambda>t. t \<noteq> 0) (drop 1 (tasks s)))"
    using kernel_invD(4) [OF assms] by (cases "tasks s") (auto split: if_splits)
  then have "distinct (filter (\<lambda>t. field (ram s) t off_state = TASK_READY) (filter (\<lambda>t. t \<noteq> 0) (drop 1 (tasks s))))"
    by (rule distinct_filter)
  then show ?thesis
    by (simp add: ready_tasks_def conj_commute)
qed

lemma first_ready_hd:
  "first_ready (ram s) (drop 1 (tasks s)) = (if ready_tasks s = [] then 0 else hd (ready_tasks s))"
  by (simp add: first_ready_queue ready_tasks_def split: list.split)

lemma ready_tasks_member:
  assumes "t \<in> set (ready_tasks s)"
  shows "t \<in> set (drop 1 (tasks s))" "t \<in> set (tasks s)" "t \<noteq> 0" "field (ram s) t off_state = TASK_READY"
  using assms in_set_dropD by (auto simp: ready_tasks_def)

lemma filter_neq_hd: "distinct xs \<Longrightarrow> xs \<noteq> [] \<Longrightarrow> filter (\<lambda>x. x \<noteq> hd xs) xs = tl xs"
  by (cases xs) (auto simp: filter_id_conv)

section \<open>Code and messages\<close>

lemma own_code_inv:
  fixes s :: "'a cpu_state_scheme"
  assumes inv: "cpu_inv s H" and mem: "\<forall>y. \<not> own_stack s y \<longrightarrow> m y = ram s y" and stack: "stack_ok (s\<lparr>regs := r\<rparr>)"
  shows "cpu_inv (s\<lparr>ram := m, regs := r, iflag := f\<rparr>) H" and "ready_tasks (s\<lparr>ram := m, regs := r, iflag := f\<rparr>) = ready_tasks s"
    and "\<And>t off. t \<in> set (tasks s) \<Longrightarrow> t \<noteq> 0 \<Longrightarrow> unat off + 4 \<le> 188 \<Longrightarrow> field m t off = field (ram s) t off"
proof -
  let ?s = "s\<lparr>ram := m, regs := r, iflag := f\<rparr>"
  note invs = cpu_invD [OF inv]
  have "log_inv ?s" "heap_idle UNIV s ?s" "tasks ?s = tasks s" "current ?s = current s"
    "\<And>y. \<not> own_stack s y \<Longrightarrow> \<not> vga y \<Longrightarrow> ram ?s y = ram s y"
    using kernel_invD(7) [OF invs(1)] mem by (simp_all add: log_inv_def con_inv_def heap_idle_def)
  note moved = own_stack_inv [OF invs(1) this(3,4,5,2,1)]
  have "kernel_inv ?s H" and fields: "\<And>t off. t \<in> set (tasks s) \<Longrightarrow> t \<noteq> 0 \<Longrightarrow> unat off + 4 \<le> 188 \<Longrightarrow> field m t off = field (ram s) t off"
    using moved(1,4) by simp_all
  moreover have "stack_ok ?s = stack_ok (s\<lparr>regs := r\<rparr>)"
    by (simp add: stack_ok_def)
  moreover have "idle_waits ?s"
    using invs(5) fields [OF invs(3,2), of tss_esp0] by (simp add: idle_waits_def Let_def)
  moreover have "kbd_inv ?s"
    by (rule kbd_inv_cong [OF invs(6) _ \<open>log_inv ?s\<close>]) simp
  ultimately show "cpu_inv ?s H"
    using invs stack by (simp add: cpu_inv_def)
  show "field m t off = field (ram s) t off" if "t \<in> set (tasks s)" "t \<noteq> 0" "unat off + 4 \<le> 188" for t off
    by (rule fields [OF that])
  show "ready_tasks ?s = ready_tasks s"
    using fields by (intro ready_tasks_cong) (auto dest: in_set_dropD)
qed

lemma log_inv_step:
  fixes s s' :: "'a cpu_state_scheme"
  assumes inv: "cpu_inv s H" and msg: "vsprintf (ram s) fmt args = Some (out, ram s)" "length out \<le> 1023"
    and run: "print_message fmt args s = Some s'"
  shows "cpu_inv s' H" and "ready_tasks s' = ready_tasks s" and "tasks s' = tasks s" and "current s' = current s"
    and "\<And>t off. t \<in> set (tasks s) \<Longrightarrow> t \<noteq> 0 \<Longrightarrow> unat off + 4 \<le> 188 \<Longrightarrow> field (ram s') t off = field (ram s) t off"
proof -
  note invs = cpu_invD [OF inv]
  obtain u where "print_message fmt args s = Some u" "log_inv u" "log_frame s u"
    by (rule printk_message [OF kernel_invD(7) [OF invs(1)] msg])
  with run have log: "log_inv s'" and frame: "log_frame s s'"
    by simp_all
  note frame' = log_frame_task [OF frame] and cpu = log_frame_cpu [OF frame]
  show "tasks s' = tasks s" "current s' = current s"
    using frame' by simp_all
  note moved = own_stack_inv [OF invs(1) frame'(1,2) frame'(5) frame'(4) log]
  show fields: "field (ram s') t off = field (ram s) t off" if "t \<in> set (tasks s)" "t \<noteq> 0" "unat off + 4 \<le> 188" for t off
    using moved(4) that by blast
  show "cpu_inv s' H"
    using moved(1) invs fields [OF invs(3,2), of tss_esp0] frame'(1,2) cpu kbd_inv_cong [OF invs(6) frame'(6) log]
    by (simp add: cpu_inv_def stack_ok_def idle_waits_def Let_def)
  show "ready_tasks s' = ready_tasks s"
    using fields frame' by (intro ready_tasks_cong) (auto dest: in_set_dropD)
qed

end
