(* ===== verification/Device_Interrupts.thy ===== *)
theory Device_Interrupts
  imports Kernel_Inv
begin

text \<open>
  Interrupts that return to the code they interrupt: the keyboard's and those of all other devices. The
  locale states what the entry code needs of the C function it calls; it is interpreted on the two
  functions of the kernel.
\<close>

section \<open>The stack of an interrupt\<close>

lemma stack_room:
  assumes inv: "kernel_inv s H" and stack: "stack_ok s" and y: "in_range (esp (regs s) - 20) 20 y"
  shows "own_stack s y" and "\<not> vga y"
proof -
  have "own_stack s y \<and> \<not> vga y"
  proof (cases "current s = 0")
    case True
    then have "low_memory y"
      using stack y by (simp add: stack_ok_def)
    then show ?thesis
      using True by (simp add: own_stack_def low_memory_def)
  next
    case False
    obtain k where k: "esp (regs s) = current s + k" "208 \<le> unat k" "unat k \<le> 4096"
      using stack False by (auto simp: stack_ok_def)
    have mem: "current s \<in> set (tasks s)"
      using kernel_invD(5) [OF inv] False by simp
    have base: "esp (regs s) - 20 = current s + 188 + of_nat (unat k - 208)"
      using k by (simp add: of_nat_diff)
    have "in_range (current s + 188 + of_nat (unat k - 208)) 20 y"
      using y unfolding base .
    then have own: "in_range (current s + 188) 3908 y"
      using in_range_sub [of "current s + 188" "unat k - 208" 20 y 3908] k(2,3) by simp
    then have "page_of y = current s"
      using in_task_page [OF task_page(1) [OF inv mem False], of 188 3908 y] by simp
    then show ?thesis
      using own False task_page(6) [OF inv mem False] by (simp add: own_stack_def)
  qed
  then show "own_stack s y" and "\<not> vga y"
    by blast+
qed

text \<open>Four words on the stack, the lowest at \<open>b\<close>.\<close>

definition pushed :: "u32 \<Rightarrow> u32 \<Rightarrow> u32 \<Rightarrow> u32 \<Rightarrow> u32 \<Rightarrow> mem \<Rightarrow> mem" where
  "pushed b fl cs ip arg m = store32 (store32 (store32 (store32 m (b + 12) fl) (b + 8) cs) (b + 4) ip) b arg"

lemma pushed_words:
  "load32 (pushed b fl cs ip arg m) (b + 4) = ip" "load32 (pushed b fl cs ip arg m) (b + 12) = fl"
  using ranges_apart [of 4 4 0 4 b] ranges_apart [of 12 4 0 4 b] ranges_apart [of 12 4 4 4 b] ranges_apart [of 12 4 8 4 b]
  by (simp_all add: pushed_def load32_store32_disjoint)

lemma pushed_other: "\<not> in_range b 16 y \<Longrightarrow> pushed b fl cs ip arg m y = m y"
proof -
  assume "\<not> in_range b 16 y"
  then have "\<not> in_range (b + of_nat i) 4 y" if "i \<in> {0, 4, 8, 12}" for i
    using in_range_sub [of b i 4 y 16] that by auto
  from this [of 0] this [of 4] this [of 8] this [of 12] show ?thesis
    by (simp add: pushed_def store32_other)
qed

text \<open>The state in which the C function is entered with argument \<open>arg\<close>.\<close>

definition entered :: "u32 \<Rightarrow> u32 \<Rightarrow> u32 \<Rightarrow> 'a cpu_state_scheme \<Rightarrow> 'a cpu_state_scheme" where
  "entered arg eflags cs s = s\<lparr>iflag := False, ram := pushed (esp (regs s) - 16) eflags cs (eip (regs s)) arg (ram s),
     regs := (regs s)\<lparr>esp := esp (regs s) - 16\<rparr>\<rparr>"

lemma entered_kbd_inv:
  assumes inv: "cpu_inv s H"
  shows "kbd_inv (entered arg eflags cs s)"
proof -
  note invs = cpu_invD [OF inv]
  have log: "log_inv (entered arg eflags cs s)"
    using kernel_invD(7) [OF invs(1)] by (simp add: entered_def log_inv_def con_inv_def)
  show ?thesis
    by (rule kbd_inv_cong [OF invs(6) _ log]) (simp add: entered_def)
qed

section \<open>A handler that returns\<close>

text \<open>What the C function may change: the video memory, the console and the keyboard.\<close>

definition device_frame :: "'a cpu_state_scheme \<Rightarrow> 'a cpu_state_scheme \<Rightarrow> bool" where
  "device_frame s s' \<longleftrightarrow> heap_idle {} s s' \<and> (\<forall>y. \<not> vga y \<longrightarrow> ram s' y = ram s y) \<and> tasks s' = tasks s
     \<and> current s' = current s \<and> regs s' = regs s"

text \<open>\<open>obs\<close> is what the device shows of the state, \<open>eff\<close> what the handler does to it.\<close>

locale device_handler =
  fixes handler :: "'a cpu_state_scheme \<Rightarrow> 'a cpu_state_scheme option"
    and obs :: "'a cpu_state_scheme \<Rightarrow> 'o" and eff :: "'o \<Rightarrow> 'o"
  assumes handler_ok: "kbd_inv s \<Longrightarrow> \<exists>s'. handler s = Some s' \<and> kbd_inv s' \<and> device_frame s s' \<and> obs s' = eff (obs s)"
    and obs_local: "obs (s\<lparr>iflag := f, ram := m, regs := r\<rparr>) = obs s" "obs (s\<lparr>iflag := f, regs := r\<rparr>) = obs s"
begin

lemma interrupt_returns:
  assumes inv: "cpu_inv s H"
  obtains s' s2 where "device_interrupt (handler_call handler arg v) eflags cs s = Some s'" and "cpu_inv s' H"
    and "tasks s' = tasks s" and "current s' = current s" and "iflag s' = bit eflags 9"
    and "regs s' = (regs s)\<lparr>eax := v_eax v, ecx := v_ecx v, edx := v_edx v\<rparr>"
    and "\<forall>y. \<not> in_range (esp (regs s) - 16) 16 y \<longrightarrow> \<not> vga y \<longrightarrow> ram s' y = ram s y"
    and "\<And>t off. t \<in> set (tasks s) \<Longrightarrow> t \<noteq> 0 \<Longrightarrow> unat off + 4 \<le> 188 \<Longrightarrow> field (ram s') t off = field (ram s) t off"
    and "obs s' = eff (obs s)"
    and "handler (entered arg eflags cs s) = Some s2" and "s' = s2\<lparr>iflag := iflag s', regs := regs s'\<rparr>"
proof -
  note invs = cpu_invD [OF inv]
  define b where "b = esp (regs s) - 16"
  have sp: "esp (regs s) = b + 16"
    by (simp add: b_def)
  define m where "m = pushed b eflags cs (eip (regs s)) arg (ram s)"
  define s1 where "s1 = s\<lparr>iflag := False, ram := m, regs := (regs s)\<lparr>esp := b\<rparr>\<rparr>"
  have entry: "entered arg eflags cs s = s1"
    by (simp add: entered_def s1_def m_def b_def)
  have "kbd_inv s1"
    using entered_kbd_inv [OF inv] unfolding entry [symmetric] .
  then obtain s2 where run: "handler s1 = Some s2" and kbd: "kbd_inv s2" and frame: "device_frame s1 s2"
    and "obs s2 = eff (obs s1)"
    using handler_ok by blast
  define s' where "s' = s2\<lparr>iflag := bit eflags 9, regs := (regs s)\<lparr>eax := v_eax v, ecx := v_ecx v, edx := v_edx v\<rparr>\<rparr>"
  have room: "own_stack s y \<and> \<not> vga y" if "in_range b 16 y" for y
  proof -
    have "in_range (esp (regs s) - 20 + of_nat 4) 16 y"
      using that by (simp add: b_def)
    then have "in_range (esp (regs s) - 20) 20 y"
      by (rule in_range_sub) simp_all
    then show ?thesis
      using stack_room [OF invs(1,4)] by blast
  qed
  have mem2: "ram s2 y = m y" if "\<not> vga y" for y
    using frame that by (simp add: device_frame_def s1_def)
  have words: "load32 (ram s2) (b + 4) = eip (regs s)" "load32 (ram s2) (b + 12) = eflags"
  proof -
    have "load32 (ram s2) (b + of_nat i) = load32 m (b + of_nat i)" if "i + 4 \<le> 16" for i
    proof (rule load32_cong)
      fix y
      assume "in_range (b + of_nat i) 4 y"
      then have "in_range b 16 y"
        by (rule in_range_sub) (use that in simp_all)
      then show "ram s2 y = m y"
        using room mem2 by blast
    qed
    from this [of 4] this [of 12] show "load32 (ram s2) (b + 4) = eip (regs s)" "load32 (ram s2) (b + 12) = eflags"
      by (simp_all add: m_def pushed_words)
  qed
  have "push arg (CLI (push (eip (regs s)) (push cs (push eflags s)))) = s1"
    by (simp add: push_def CLI_def s1_def m_def pushed_def sp add.commute)
  moreover have "regs s2 = (regs s)\<lparr>esp := b\<rparr>"
    using frame by (simp add: device_frame_def s1_def)
  moreover have "(regs s)\<lparr>esp := b + 16\<rparr> = regs s"
    using sp by (cases "regs s") simp
  ultimately have returns: "device_interrupt (handler_call handler arg v) eflags cs s = Some s'"
    using run words
    by (cases "regs s") (simp add: device_interrupt_def handler_call_def upd_regs_def iret_def Let_def s'_def push_def add.assoc)
  have shape: "tasks s' = tasks s" "current s' = current s" "log_inv s'" "heap_idle UNIV s s'"
    using frame kbd by (simp_all add: s'_def s1_def device_frame_def kbd_inv_def log_inv_def con_inv_def heap_idle_def)
  have mem: "ram s' y = ram s y" if "\<not> in_range b 16 y" "\<not> vga y" for y
    using mem2 [OF that(2)] pushed_other [OF that(1)] by (simp add: s'_def m_def)
  have out: "\<And>y. \<not> own_stack s y \<Longrightarrow> \<not> vga y \<Longrightarrow> ram s' y = ram s y"
    using room mem by blast
  have "kernel_inv s' H"
    and fields: "\<And>t off. t \<in> set (tasks s) \<Longrightarrow> t \<noteq> 0 \<Longrightarrow> unat off + 4 \<le> 188 \<Longrightarrow> field (ram s') t off = field (ram s) t off"
    using own_stack_inv(1,4) [OF invs(1) shape(1,2) out shape(4,3)] by simp_all
  moreover have "kbd_inv s'"
    by (rule kbd_inv_cong [OF kbd _ shape(3)]) (simp add: s'_def)
  moreover have "stack_ok s' = stack_ok s"
    using shape by (simp add: stack_ok_def s'_def)
  moreover have "idle_waits s'"
    using invs(5) fields [OF invs(3,2), of tss_esp0] shape by (simp add: idle_waits_def Let_def)
  ultimately have "cpu_inv s' H"
    using invs(2,4) shape(1) by (simp add: cpu_inv_def)
  moreover have "obs s' = eff (obs s)"
    using \<open>obs s2 = eff (obs s1)\<close> by (simp add: s'_def s1_def obs_local)
  ultimately show thesis
    using returns shape(1,2) mem fields run unfolding entry [symmetric] by (intro that [of s' s2]) (simp_all add: s'_def b_def)
qed

lemma interrupt_step:
  assumes inv: "cpu_inv s H" and run: "device_interrupt (handler_call handler arg v) eflags cs s = Some s'"
  shows "cpu_inv s' H" and "ready_tasks s' = ready_tasks s" and "tasks s' = tasks s" and "current s' = current s"
    and "\<And>t off. t \<in> set (tasks s) \<Longrightarrow> t \<noteq> 0 \<Longrightarrow> unat off + 4 \<le> 188 \<Longrightarrow> field (ram s') t off = field (ram s) t off"
proof -
  have "cpu_inv s' H \<and> tasks s' = tasks s \<and> current s' = current s
      \<and> (\<forall>t off. t \<in> set (tasks s) \<longrightarrow> t \<noteq> 0 \<longrightarrow> unat off + 4 \<le> 188 \<longrightarrow> field (ram s') t off = field (ram s) t off)"
    by (rule interrupt_returns [OF inv, of arg v eflags cs]) (use run in simp)
  then show "cpu_inv s' H" "tasks s' = tasks s" "current s' = current s"
    and fields: "\<And>t off. t \<in> set (tasks s) \<Longrightarrow> t \<noteq> 0 \<Longrightarrow> unat off + 4 \<le> 188 \<Longrightarrow> field (ram s') t off = field (ram s) t off"
    by blast+
  then show "ready_tasks s' = ready_tasks s"
    by (intro ready_tasks_cong) (auto dest: in_set_dropD)
qed

end

section \<open>The keyboard and the other devices\<close>

lemma log_frame_device:
  fixes s s' :: "'a cpu_state_scheme"
  assumes "log_frame s s'"
  shows "device_frame s s'"
  using log_frame_task(1,2) [OF assms] log_frame_task(4) [OF assms, of "{}"] log_frame_cpu(1) [OF assms] assms
  by (simp add: device_frame_def log_frame_def outside_vga_same_def)

lemma kbd_frame_device:
  fixes s s' :: "'a cpu_state_scheme"
  assumes "kbd_frame s s'"
  shows "device_frame s s'"
  using log_frame_device [of s "s'\<lparr>keymap := keymap s, capslock_state := capslock_state s,
      scrlock_state := scrlock_state s, numlock_state := numlock_state s, extcode_state := extcode_state s\<rparr>"] assms
  by (simp add: kbd_frame_def device_frame_def heap_idle_def)

interpretation key_device: device_handler "keymap_handler i code :: 'a cpu_state_scheme \<Rightarrow> _" "\<lambda>s. (kbd_abs s, cursor s)"
  "\<lambda>kc. keyboard_step kc code" for i code
proof
  fix s :: "'a cpu_state_scheme"
  assume "kbd_inv s"
  then show "\<exists>s'. keymap_handler i code s = Some s' \<and> kbd_inv s' \<and> device_frame s s'
      \<and> (kbd_abs s', cursor s') = keyboard_step (kbd_abs s, cursor s) code"
    using keymap_handler_step [of s i code] kbd_frame_device by (auto simp: keyboard_step_def)
qed (simp_all add: kbd_abs_def cursor_def)

definition device_text :: "u8 list" where
  "device_text = cstr ''interrupt handler ...'' @ [10]"

interpretation other_device: device_handler "print_message device_text [] :: 'a cpu_state_scheme \<Rightarrow> _"
  "\<lambda>s. (kbd_abs s, cursor s)" "\<lambda>(k, c). (k, foldl cursor_step c device_text)"
proof
  fix s :: "'a cpu_state_scheme"
  assume inv: "kbd_inv s"
  have "vsprintf (ram s) device_text [] = Some (device_text, ram s)"
    by (rule vsprintf_text) (simp add: device_text_def)
  from printk_step [OF _ this] inv obtain s' where s': "print_message device_text [] s = Some s'" "log_inv s'" "log_frame s s'"
    and cur: "cursor s' = foldl cursor_step (cursor s) device_text"
    by (auto simp: kbd_inv_def device_text_def print_message_def)
  have same: "keymap s' = keymap s" "capslock_state s' = capslock_state s" "scrlock_state s' = scrlock_state s"
    "numlock_state s' = numlock_state s" "extcode_state s' = extcode_state s"
    using s'(3) printk_more_keyboard [of s' s] by (simp_all add: log_frame_def)
  then show "\<exists>s'. print_message device_text [] s = Some s' \<and> kbd_inv s' \<and> device_frame s s'
      \<and> (kbd_abs s', cursor s') = (case (kbd_abs s, cursor s) of (k, c) \<Rightarrow> (k, foldl cursor_step c device_text))"
    using s'(1) cur kbd_inv_cong [OF inv same(1) s'(2)] same log_frame_device [OF s'(3)] by (auto simp: kbd_abs_def)
qed (simp_all add: kbd_abs_def cursor_def)

lemmas keymap_entry_step = key_device.interrupt_step [of _ _ "0x21" _ "0x21", folded keymap_entry_def]

lemmas interrupt_entry_step = other_device.interrupt_step [unfolded device_text_def, folded interrupt_entry_def]

end
