(* ===== verification/Kernel_Steps.thy ===== *)
theory Kernel_Steps
  imports Device_Interrupts
begin

text \<open>
  The running kernel as a step relation: code on the stack of the current task, messages, interrupts of
  the clock, the keyboard and other devices, creation of tasks, and the end of the current task. Every
  step keeps the invariant, and no interrupt is undefined under it.
\<close>

section \<open>Steps\<close>

definition literal_at :: "mem \<Rightarrow> u32 \<Rightarrow> bool" where
  "literal_at m name \<longleftrightarrow> (\<exists>nm. c_string m name nm \<and> length nm \<le> 31 \<and> unat name + length nm + 1 \<le> 0x10000)"

datatype kernel_event = Run | Log | Tick | Key u8 | Irq | Create u32 | Leave

inductive kernel_step :: "u32 \<Rightarrow> kernel_event \<Rightarrow> 'a cpu_state_scheme \<Rightarrow> 'a cpu_state_scheme \<Rightarrow> bool" for xh where
  run: "(\<forall>y. \<not> own_stack s y \<longrightarrow> m y = ram s y) \<Longrightarrow> stack_ok (s\<lparr>regs := r\<rparr>) \<Longrightarrow>
    kernel_step xh Run s (s\<lparr>ram := m, regs := r, iflag := f\<rparr>)"
| log: "vsprintf (ram s) fmt args = Some (out, ram s) \<Longrightarrow> length out \<le> 1023 \<Longrightarrow> print_message fmt args s = Some s' \<Longrightarrow>
    kernel_step xh Log s s'"
| tick: "iflag s \<Longrightarrow> clock_interrupt xh eflags cs s = Some s' \<Longrightarrow> kernel_step xh Tick s s'"
| key: "iflag s \<Longrightarrow> device_interrupt (keymap_entry byte v) eflags cs s = Some s' \<Longrightarrow> kernel_step xh (Key byte) s s'"
| irq: "iflag s \<Longrightarrow> device_interrupt (interrupt_entry msg v) eflags cs s = Some s' \<Longrightarrow> kernel_step xh Irq s s'"
| create: "literal_at (ram s) name \<Longrightarrow> create_task name func prio s = Some (t, s') \<Longrightarrow> kernel_step xh (Create t) s s'"
| leave: "current s \<in> set (drop 1 (tasks s)) \<Longrightarrow> current s \<noteq> 0 \<Longrightarrow> task_exit_handler xh s = Some s' \<Longrightarrow>
    kernel_step xh Leave s s'"

inductive_cases run_step: "kernel_step xh Run s s'"
inductive_cases log_step: "kernel_step xh Log s s'"
inductive_cases tick_step: "kernel_step xh Tick s s'"
inductive_cases key_step: "kernel_step xh (Key byte) s s'"
inductive_cases irq_step: "kernel_step xh Irq s s'"
inductive_cases create_step: "kernel_step xh (Create t) s s'"
inductive_cases leave_step: "kernel_step xh Leave s s'"

inductive kernel_run :: "u32 \<Rightarrow> kernel_event list \<Rightarrow> 'a cpu_state_scheme \<Rightarrow> 'a cpu_state_scheme \<Rightarrow> bool" for xh where
  start: "kernel_run xh [] s s"
| next_step: "kernel_run xh es s u \<Longrightarrow> kernel_step xh e u s' \<Longrightarrow> kernel_run xh (es @ [e]) s s'"

inductive_simps kernel_run_Nil: "kernel_run xh [] s s'"
inductive_simps kernel_run_snoc: "kernel_run xh (es @ [e]) s s'"

section \<open>Scheduling\<close>

lemma scheduled_cases:
  assumes "scheduled xh s s'"
  obtains "ready_tasks s = []" "current s' = tasks s ! 0" "ram s' = ram s"
      "regs s' = resume_regs (ram s) (tasks s ! 0) (field (ram s) (tasks s ! 0) tss_esp0)"
  | "ready_tasks s \<noteq> []" "current s' = hd (ready_tasks s)" "ram s' = dispatch_mem xh (hd (ready_tasks s)) (ram s)"
      "regs s' = resume_regs (ram s) (hd (ready_tasks s)) (start_sp (hd (ready_tasks s)) (ram s))"
proof -
  have "ready_tasks s \<noteq> [] \<Longrightarrow> hd (ready_tasks s) \<noteq> 0"
    using ready_tasks_member(3) [of "hd (ready_tasks s)" s] by simp
  then show thesis
    using assms that unfolding scheduled_def first_ready_hd by (cases "ready_tasks s = []") (auto simp: Let_def)
qed

lemma sched_states:
  assumes inv: "kernel_inv s H" and run: "scheduled xh s s'" and t: "t \<in> set (tasks s)" "t \<noteq> 0"
  shows "field (ram s') t off_state = (if ready_tasks s \<noteq> [] \<and> t = hd (ready_tasks s) then TASK_RUNNING else field (ram s) t off_state)"
    and "t \<noteq> current s' \<Longrightarrow> page_of y = t \<Longrightarrow> ram s' y = ram s y"
proof -
  note page = task_page(1) [OF inv]
  have "field (ram s') t off_state = (if ready_tasks s \<noteq> [] \<and> t = hd (ready_tasks s) then TASK_RUNNING else field (ram s) t off_state)
      \<and> (t \<noteq> current s' \<longrightarrow> (\<forall>y. page_of y = t \<longrightarrow> ram s' y = ram s y))"
    using run
  proof (cases rule: scheduled_cases)
    case 2
    then have n: "hd (ready_tasks s) \<in> set (tasks s)" "hd (ready_tasks s) \<noteq> 0"
      using ready_tasks_member(2,3) [of "hd (ready_tasks s)" s] by simp_all
    have same: "ram s' y = ram s y" if "page_of y = t" "t \<noteq> hd (ready_tasks s)" for y
      using dispatch_mem_same(2) [OF page [OF n], of y] that 2(3) by simp
    then have "field (ram s') t off_state = field (ram s) t off_state" if "t \<noteq> hd (ready_tasks s)"
      using that by (intro field_cong [OF page [OF t]]) simp_all
    then show ?thesis
      using 2 same dispatch_mem_fields(2) by (cases "t = hd (ready_tasks s)") simp_all
  qed simp
  then show "field (ram s') t off_state = (if ready_tasks s \<noteq> [] \<and> t = hd (ready_tasks s) then TASK_RUNNING else field (ram s) t off_state)"
    "t \<noteq> current s' \<Longrightarrow> page_of y = t \<Longrightarrow> ram s' y = ram s y"
    by blast+
qed

lemma sched_queue:
  assumes inv: "kernel_inv s H" and run: "scheduled xh s s'"
  shows "ready_tasks s' = tl (ready_tasks s)"
    and "current s' = (if ready_tasks s = [] then tasks s ! 0 else hd (ready_tasks s))"
proof -
  show "current s' = (if ready_tasks s = [] then tasks s ! 0 else hd (ready_tasks s))"
    using run by (cases rule: scheduled_cases) simp_all
  have tasks: "tasks s' = tasks s"
    using run by (simp add: scheduled_def)
  show "ready_tasks s' = tl (ready_tasks s)"
  proof (cases "ready_tasks s = []")
    case True
    show ?thesis
      using run by (cases rule: scheduled_cases) (use ready_tasks_cong [of s' s] tasks True in simp_all)
  next
    case False
    have "ready_tasks s' = filter (\<lambda>t. t \<noteq> hd (ready_tasks s)) (ready_tasks s)"
      unfolding ready_tasks_def [of s'] tasks
      by (subst (2) ready_tasks_def)
        (auto simp: filter_filter sched_states(1) [OF inv run, simplified] False dest: in_set_dropD intro!: filter_cong
          split: if_splits)
    then show ?thesis
      using filter_neq_hd [OF distinct_ready_tasks [OF inv] False] by simp
  qed
qed

lemma sched_cpu_inv:
  fixes s :: "'a cpu_state_scheme"
  assumes inv: "kernel_inv s H" and idle: "tasks s ! 0 \<noteq> 0"
    and waits: "field (ram s) (tasks s ! 0) tss_esp0 = tasks s ! 0 + k" "208 \<le> unat k" "unat k \<le> 4096" and kbd: "kbd_inv s"
  shows "\<exists>s'. sched xh s = Some s' \<and> cpu_inv s' H \<and> objects s' H = objects s H \<and> avail s' = avail s \<and> scheduled xh s s'"
proof -
  obtain s' where s': "sched xh s = Some s'" "kernel_inv s' H" "objects s' H = objects s H" "avail s' = avail s"
    and run: "scheduled xh s s'"
    using sched_inv [OF inv idle, of xh] by blast
  have mem: "tasks s ! 0 \<in> set (tasks s)"
    using kernel_invD(2) [OF inv] by simp
  have tasks: "tasks s' = tasks s"
    using run by (simp add: scheduled_def)
  have "stack_ok s'"
    using run
  proof (cases rule: scheduled_cases)
    case 1
    then show ?thesis
      using waits idle by (auto simp: stack_ok_def resume_regs_def)
  next
    case 2
    then have "hd (ready_tasks s) \<noteq> 0"
      using ready_tasks_member(3) [of "hd (ready_tasks s)" s] by simp
    then show ?thesis
      using 2 by (auto simp: stack_ok_def resume_regs_def start_sp_def intro: exI [of _ 4092] exI [of _ 4096])
  qed
  moreover have "idle_waits s'"
  proof -
    have "field (ram s') (tasks s ! 0) tss_esp0 = field (ram s) (tasks s ! 0) tss_esp0" if "current s' \<noteq> tasks s ! 0"
      using sched_states(2) [OF inv run mem idle] that task_page(1) [OF inv mem idle] by (intro field_cong) auto
    then show ?thesis
      using waits tasks by (auto simp: idle_waits_def Let_def)
  qed
  moreover have "kbd_inv s'"
    using kbd_inv_cong [OF kbd _ kernel_invD(7) [OF s'(2)]] run by (simp add: scheduled_def)
  ultimately show ?thesis
    using s' run idle tasks by (auto simp: cpu_inv_def)
qed

section \<open>Every step keeps the invariant\<close>

lemma interrupted_other:
  assumes inv: "kernel_inv s H" and int: "interrupted s s1" and t: "t \<in> set (tasks s)" "t \<noteq> 0" "t \<noteq> current s" and y: "page_of y = t"
  shows "ram s1 y = ram s y"
proof -
  have "\<not> own_memory s y"
    using task_page(4) [OF inv t(1,2)] low_memory_page [of y] t(3) y by (auto simp: own_memory_def)
  then show ?thesis
    using int task_page(6) [OF inv t(1,2) y] by (simp add: interrupted_def)
qed

lemma interrupted_states:
  assumes inv: "kernel_inv s H" and int: "interrupted s s1" and t: "t \<in> set (tasks s)" "t \<noteq> 0"
  shows "field (ram s1) t off_state = field (ram s) t off_state"
proof (cases "t = current s")
  case True
  then show ?thesis
    using int t(2) by (auto simp: interrupted_def Let_def)
next
  case False
  then show ?thesis
    using interrupted_other [OF inv int t] by (intro field_cong [OF task_page(1) [OF inv t]]) simp_all
qed

lemma interrupted_queue:
  assumes "kernel_inv s H" and "interrupted s s1"
  shows "ready_tasks s1 = ready_tasks s"
  using assms interrupted_states [OF assms] by (intro ready_tasks_cong) (auto simp: interrupted_def dest: in_set_dropD)

text \<open>An interrupt is defined, and leaves the state the next task starts from.\<close>

lemma tick_ok:
  fixes s :: "'a cpu_state_scheme"
  assumes inv: "cpu_inv s H"
  obtains s1 s' where "clock_interrupt xh eflags cs s = Some s'" and "kernel_inv s1 H" and "interrupted s s1"
    and "scheduled xh s1 s'" and "cpu_inv s' H" and "objects s' H = objects s H" and "avail s' = avail s"
proof -
  note invs = cpu_invD [OF inv]
  from clock_interrupt_inv [OF invs(1,4), of xh eflags cs] obtain s1
    where s1: "clock_interrupt xh eflags cs s = sched xh s1" "kernel_inv s1 H" "interrupted s s1"
      "objects s1 H = objects s H" "avail s1 = avail s"
    by blast
  have tasks: "tasks s1 = tasks s"
    using s1(3) by (simp add: interrupted_def)
  have "\<exists>k. field (ram s1) (tasks s ! 0) tss_esp0 = tasks s ! 0 + k \<and> 208 \<le> unat k \<and> unat k \<le> 4096"
  proof (cases "current s = tasks s ! 0")
    case True
    then have "field (ram s1) (tasks s ! 0) tss_esp0 = esp (regs s)"
      using s1(3) invs(2) by (simp add: interrupted_def saved_block_def Let_def)
    then show ?thesis
      using invs(2,4) True by (simp add: stack_ok_def)
  next
    case False
    then have "field (ram s1) (tasks s ! 0) tss_esp0 = field (ram s) (tasks s ! 0) tss_esp0"
      using interrupted_other [OF invs(1) s1(3) invs(3,2)]
      by (intro field_cong [OF task_page(1) [OF invs(1,3,2)]]) simp_all
    then show ?thesis
      using invs(5) False by (simp add: idle_waits_def Let_def)
  qed
  then obtain k where k: "field (ram s1) (tasks s1 ! 0) tss_esp0 = tasks s1 ! 0 + k" "208 \<le> unat k" "unat k \<le> 4096"
    using tasks by auto
  have "kbd_inv s1"
    using kbd_inv_cong [OF invs(6) _ kernel_invD(7) [OF s1(2)]] s1(3) by (simp add: interrupted_def)
  from sched_cpu_inv [OF s1(2) _ k this, of xh] invs(2) tasks obtain s'
    where "sched xh s1 = Some s'" "cpu_inv s' H" "objects s' H = objects s1 H" "avail s' = avail s1" "scheduled xh s1 s'"
    by auto
  then show thesis
    using that s1 by simp
qed

lemma tick_result:
  assumes inv: "cpu_inv s H" and run: "clock_interrupt xh eflags cs s = Some s'"
  obtains s1 where "kernel_inv s1 H" and "interrupted s s1" and "scheduled xh s1 s'" and "cpu_inv s' H"
proof (rule tick_ok [OF inv, of xh eflags cs])
  fix s1 u
  assume u: "clock_interrupt xh eflags cs s = Some u" and r: "kernel_inv s1 H" "interrupted s s1" "scheduled xh s1 u" "cpu_inv u H"
  have "u = s'"
    using u run by simp
  then show thesis
    using that [OF r(1,2)] r(3,4) by simp
qed

text \<open>A ready task has never been current, so its block is as its creator left it.\<close>

lemma ready_not_current:
  assumes inv: "kernel_inv s H" and t: "t \<in> set (ready_tasks s)"
  shows "t \<noteq> current s"
proof
  assume cur: "t = current s"
  note ready = ready_tasks_member [OF t]
  have "field (ram s) t off_state = TASK_RUNNING"
    using kernel_invD(9) [OF inv] tasks_tail(2) [OF inv ready(1,3)] ready(3) cur by simp
  then show False
    using ready(4) by simp
qed

lemma interrupted_ready_block:
  assumes inv: "kernel_inv s H" and int: "interrupted s s1" and t: "t \<in> set (ready_tasks s)" and off: "unat off + 4 \<le> 4096"
  shows "field (ram s1) t off = field (ram s) t off"
  using interrupted_other [OF inv int ready_tasks_member(2,3) [OF t] ready_not_current [OF inv t]]
  by (intro field_cong [OF task_page(1) [OF inv ready_tasks_member(2,3) [OF t]] off])

lemma more_cpu:
  "task_state.more s = task_state.more (t :: 'a cpu_state_scheme) \<Longrightarrow> regs s = regs t \<and> cpu_ticks s = cpu_ticks t"
  by (cases s rule: cpu_state.cases_scheme, cases t rule: cpu_state.cases_scheme) simp

lemma create_inv:
  fixes s s' :: "'a cpu_state_scheme"
  assumes inv: "cpu_inv s H" and name: "literal_at (ram s) name" and run: "create_task name func prio s = Some (t, s')"
  obtains i H' where "cpu_inv s' H'" and "0 < i" and "i < 64" and "tasks s ! i = 0" and "tasks s' = (tasks s)[i := t]"
    and "t \<notin> set (tasks s)" and "t \<noteq> 0" and "current s' = current s" and "field (ram s') t off_state = TASK_READY"
    and "\<And>u y. u \<in> set (tasks s) \<Longrightarrow> u \<noteq> 0 \<Longrightarrow> page_of y = u \<Longrightarrow> ram s' y = ram s y"
    and "empty_slot (tasks s) 0 = Some i"
proof -
  note invs = cpu_invD [OF inv]
  obtain nm where "c_string (ram s) name nm" "length nm \<le> 31" "unat name + length nm + 1 \<le> 0x10000"
    using name by (auto simp: literal_at_def)
  from create_task_result [OF invs(1) run this] obtain i H'
    where slot: "empty_slot (tasks s) 0 = Some i" and made: "task_created s H i nm func t s' H'"
    by blast
  have i: "i < 64" "tasks s ! i = 0"
    using empty_slot_Some [OF slot] kernel_invD(2) [OF invs(1)] by simp_all
  then have "0 < i"
    using invs(2) by (cases i) simp_all
  have inv': "kernel_inv s' H'" and new: "(t, 4096) \<notin> objects s H" and tasks: "tasks s' = (tasks s)[i := t]"
    and objs: "objects s' H' = insert (t, 4096) (objects s H)" and cur: "current s' = current s"
    and keep: "\<And>y. untouched s H y \<Longrightarrow> page_of y \<noteq> t \<Longrightarrow> ram s' y = ram s y" and state: "field (ram s') t off_state = TASK_READY"
    using made by (simp_all add: task_created_def)
  have regs: "regs s' = regs s"
    using made more_cpu [of s' s] by (simp add: task_created_def)
  have t: "t \<noteq> 0"
    using page_object(5) [OF kernel_invD(1) [OF inv'], of t] objs by simp
  have fresh: "t \<notin> set (tasks s)"
    using kernel_invD(3) [OF invs(1), of t] t new by blast
  have same: "ram s' y = ram s y" if "u \<in> set (tasks s)" "u \<noteq> 0" "page_of y = u" for u y
    using keep [OF task_page(5) [OF invs(1) that]] that fresh by metis
  have "field (ram s') (tasks s ! 0) tss_esp0 = field (ram s) (tasks s ! 0) tss_esp0"
    using same [OF invs(3,2)] by (intro field_cong [OF task_page(1) [OF invs(1,3,2)]]) simp_all
  moreover have "kbd_inv s'"
    using kbd_inv_cong [OF invs(6) _ kernel_invD(7) [OF inv']] made by (simp add: task_created_def)
  ultimately have "cpu_inv s' H'"
    using inv' invs \<open>0 < i\<close> tasks cur regs by (simp add: cpu_inv_def stack_ok_def idle_waits_def Let_def)
  then show thesis
    using that [of H' i] \<open>0 < i\<close> i tasks fresh t cur state same slot by blast
qed

lemma stack_write_own:
  assumes "current s = t" and "t \<noteq> 0" and "188 \<le> unat j" and "unat j + 4 \<le> 4096" and "\<not> own_stack s y"
  shows "set_field t j v m y = m y"
proof -
  have at: "t + j = t + 188 + of_nat (unat j - 188)"
    using assms(3) by (simp add: of_nat_diff)
  have "unat j - 188 + 4 \<le> 3908"
    using assms(4) by simp
  then have "\<not> in_range (t + 188 + of_nat (unat j - 188)) 4 y"
    using in_range_sub [of "t + 188" "unat j - 188" 4 y 3908] assms(1,2,5) unfolding own_stack_def by auto
  then have "\<not> in_range (t + j) 4 y"
    unfolding at .
  then show ?thesis
    by (simp add: set_field_def store32_other)
qed

lemma leave_ok:
  fixes s :: "'a cpu_state_scheme"
  assumes inv: "cpu_inv s H" and cur: "current s \<in> set (drop 1 (tasks s))" "current s \<noteq> 0"
  obtains i u s' H' where "task_exit_handler xh s = Some s'" and "1 \<le> i" and "i < 64" and "tasks s ! i = current s"
    and "tasks u = (tasks s)[i := 0]" and "kernel_inv u H'" and "scheduled xh u s'" and "cpu_inv s' H'"
    and "objects s' H' = objects s H - {(current s, 4096)}"
    and "\<And>t. t \<in> set (tasks s) \<Longrightarrow> t \<noteq> 0 \<Longrightarrow> t \<noteq> current s \<Longrightarrow> field (ram u) t off_state = field (ram s) t off_state"
proof -
  note invs = cpu_invD [OF inv]
  define t where "t = current s"
  have t: "t \<in> set (drop 1 (tasks s))" "t \<noteq> 0" "current s = t"
    using cur by (simp_all add: t_def)
  note mem_t = tasks_tail [OF invs(1) t(1,2)]
  obtain k where k: "esp (regs s) = t + k" "208 \<le> unat k" "unat k \<le> 4096"
    using invs(4) t(2,3) by (auto simp: stack_ok_def)
  note offs = stack_offset [OF k(2,3)]
  define s0 where "s0 = push 0 (push t (upd_regs (\<lambda>r. r\<lparr>eax := t\<rparr>) s))"
  have s0: "s0 = s\<lparr>ram := set_field t (k - 8) 0 (set_field t (k - 4) t (ram s)), regs := (regs s)\<lparr>eax := t, esp := t + (k - 8)\<rparr>\<rparr>"
    by (simp add: s0_def upd_regs_def push_at [of _ t k] push_at [of _ t "k - 4"] k(1))
  have "ram s0 y = ram s y" if "\<not> own_stack s y" for y
    using stack_write_own [OF t(3,2) _ _ that] offs by (simp add: s0)
  moreover have "log_inv s0" "heap_idle UNIV s s0" "tasks s0 = tasks s" "current s0 = current s"
    using kernel_invD(7) [OF invs(1)] by (simp_all add: s0 log_inv_def con_inv_def heap_idle_def)
  ultimately have inv0: "kernel_inv s0 H" and objs0: "objects s0 H = objects s H"
    and fields0: "\<And>u off. u \<in> set (tasks s) \<Longrightarrow> u \<noteq> 0 \<Longrightarrow> unat off + 4 \<le> 188 \<Longrightarrow> field (ram s0) u off = field (ram s) u off"
    using own_stack_inv [OF invs(1), of s0] by blast+
  have tasks0: "tasks s0 = tasks s"
    by (simp add: s0)
  obtain i where i: "1 \<le> i" "i < 64" "tasks s ! i = t"
  proof -
    obtain j where "j < 63" "drop 1 (tasks s) ! j = t"
      using t(1) kernel_invD(2) [OF invs(1)] by (auto simp: in_set_conv_nth)
    then show thesis
      using that [of "j + 1"] kernel_invD(2) [OF invs(1)] by simp
  qed
  obtain s1 H' where exit: "task_exit 0 t s0 = Some s1" and inv1: "kernel_inv s1 H'"
    and s1: "objects s1 H' = objects s0 H - {(t, 4096)}" "tasks s1 = (tasks s)[i := 0]" "current s1 = 0"
      "\<forall>y. untouched s0 H y \<longrightarrow> page_of y \<noteq> t \<longrightarrow> ram s1 y = ram s0 y" "keymap s1 = keymap s0"
    using task_exit_ok [OF inv0 i(1,2) _ t(2), of 0] i(3) tasks0 by auto
  have fields1: "field (ram s1) u off = field (ram s) u off"
    if u: "u \<in> set (tasks s)" "u \<noteq> 0" "u \<noteq> t" "unat off + 4 \<le> 188" for u off
  proof -
    have u0: "u \<in> set (tasks s0)"
      using u(1) tasks0 by simp
    have "ram s1 y = ram s0 y" if "page_of y = u" for y
      using s1(4) task_page(5) [OF inv0 u0 u(2) that] that u(3) by blast
    then have "field (ram s1) u off = field (ram s0) u off"
      using u(4) by (intro field_cong [OF task_page(1) [OF inv0 u0 u(2)]]) simp_all
    then show ?thesis
      using fields0 u by simp
  qed
  define u where "u = upd_regs (\<lambda>r. r\<lparr>esp := esp r + 8\<rparr>) s1"
  have "tasks u = tasks s1" "current u = current s1" "heap_idle UNIV s1 u" "log_inv u" "ram u = ram s1"
    using kernel_invD(7) [OF inv1] by (simp_all add: u_def upd_regs_def heap_idle_def log_inv_def con_inv_def)
  then have inv_u: "kernel_inv u H'" and objs_u: "objects u H' = objects s1 H'" and u: "tasks u = (tasks s)[i := 0]" "ram u = ram s1"
    using own_stack_inv [OF inv1, of u] s1(2) by simp_all
  have idle: "tasks u ! 0 = tasks s ! 0"
    using i(1) u(1) by simp
  obtain k' where "field (ram s) (tasks s ! 0) tss_esp0 = tasks s ! 0 + k'" "208 \<le> unat k'" "unat k' \<le> 4096"
    using invs(5) mem_t(2) t(3) by (auto simp: idle_waits_def Let_def)
  then have k': "field (ram u) (tasks u ! 0) tss_esp0 = tasks u ! 0 + k'" "208 \<le> unat k'" "unat k' \<le> 4096"
    using fields1 [OF invs(3,2), of tss_esp0] mem_t(2) idle u(2) by simp_all
  have "kbd_inv u"
    using kbd_inv_cong [OF invs(6) _ kernel_invD(7) [OF inv_u]] s1(5) by (simp add: u_def upd_regs_def s0)
  from sched_cpu_inv [OF inv_u _ k' this, of xh] invs(2) idle obtain s'
    where s': "sched xh u = Some s'" "cpu_inv s' H'" "objects s' H' = objects u H'" "scheduled xh u s'"
    by auto
  have run: "task_exit_handler xh s = Some s'"
  proof -
    have "eax (regs s0) = t"
      by (simp add: s0)
    moreover have "upd_regs (\<lambda>r. r\<lparr>eax := current s\<rparr>) s = upd_regs (\<lambda>r. r\<lparr>eax := t\<rparr>) s"
      using t(3) by simp
    moreover have "eax (regs (upd_regs (\<lambda>r. r\<lparr>eax := t\<rparr>) s)) = t"
      by (simp add: upd_regs_def)
    ultimately show ?thesis
      unfolding task_exit_handler_def Let_def using exit s'(1) by (simp add: s0_def [symmetric] u_def)
  qed
  show thesis
    using that [OF run i(1,2) _ u(1) inv_u s'(4,2)] i(3) t(3) s'(3) objs_u s1(1) objs0 fields1 u(2) by simp
qed

lemma leave_result:
  fixes s :: "'a cpu_state_scheme"
  assumes inv: "cpu_inv s H" and cur: "current s \<in> set (drop 1 (tasks s))" "current s \<noteq> 0" and run: "task_exit_handler xh s = Some s'"
  obtains i u H' where "1 \<le> i" and "i < 64" and "tasks s ! i = current s" and "tasks u = (tasks s)[i := 0]" and "kernel_inv u H'"
    and "scheduled xh u s'" and "cpu_inv s' H'"
    and "\<And>t. t \<in> set (tasks s) \<Longrightarrow> t \<noteq> 0 \<Longrightarrow> t \<noteq> current s \<Longrightarrow> field (ram u) t off_state = field (ram s) t off_state"
proof (rule leave_ok [OF inv cur, of xh])
  fix i u s2 H'
  assume s2: "task_exit_handler xh s = Some s2"
    and r: "1 \<le> i" "i < 64" "tasks s ! i = current s" "tasks u = (tasks s)[i := 0]" "kernel_inv u H'" "scheduled xh u s2" "cpu_inv s2 H'"
      "\<And>t. t \<in> set (tasks s) \<Longrightarrow> t \<noteq> 0 \<Longrightarrow> t \<noteq> current s \<Longrightarrow> field (ram u) t off_state = field (ram s) t off_state"
  have "s2 = s'"
    using s2 run by simp
  then show thesis
    using that [OF r(1-5) _ _ r(8)] r(6,7) by simp
qed

lemma kernel_step_inv:
  assumes "kernel_step xh e s s'" and inv: "cpu_inv s H"
  shows "\<exists>H'. cpu_inv s' H'"
  using assms(1)
proof (cases rule: kernel_step.cases)
  case run
  then show ?thesis
    using own_code_inv(1) [OF inv] by blast
next
  case log
  then show ?thesis
    using log_inv_step(1) [OF inv] by blast
next
  case (tick eflags cs)
  then show ?thesis
    using tick_result [OF inv] by blast
next
  case (key byte v eflags cs)
  then show ?thesis
    using keymap_entry_step(1) [OF inv] by blast
next
  case (irq msg v eflags cs)
  then show ?thesis
    using interrupt_entry_step(1) [OF inv] by blast
next
  case (create name func prio t)
  from create_inv [OF inv create(2,3)] show ?thesis
    by blast
next
  case leave
  then show ?thesis
    using leave_result [OF inv] by blast
qed

lemma kernel_run_inv: "kernel_run xh es s s' \<Longrightarrow> cpu_inv s H \<Longrightarrow> \<exists>H'. cpu_inv s' H'"
  by (induction rule: kernel_run.induct) (use kernel_step_inv in blast)+

section \<open>The queue over a run\<close>

abbreviation quiet :: "kernel_event set" where
  "quiet \<equiv> {Run, Log, Tick, Irq} \<union> range Key"

text \<open>Without creation and exit, every clock interrupt takes the head of the queue and nothing else touches it.\<close>

lemma quiet_step_queue:
  assumes "kernel_step xh e s s'" and inv: "cpu_inv s H" and "e \<in> quiet"
  shows "cpu_inv s' H \<and> tasks s' = tasks s \<and> ready_tasks s' = (if e = Tick then tl (ready_tasks s) else ready_tasks s)
    \<and> (e = Tick \<longrightarrow> current s' = (if ready_tasks s = [] then tasks s ! 0 else hd (ready_tasks s)))"
  using assms(1)
proof (cases rule: kernel_step.cases)
  case run
  then show ?thesis
    using own_code_inv(1,2) [OF inv] by simp
next
  case log
  then show ?thesis
    using log_inv_step(1,2,3) [OF inv] by simp
next
  case (tick eflags cs)
  from tick_result [OF inv tick(3)] obtain s1 where "kernel_inv s1 H" "interrupted s s1" "scheduled xh s1 s'" "cpu_inv s' H"
    by blast
  then show ?thesis
    using tick(1) sched_queue [of s1 H xh s'] interrupted_queue [OF cpu_invD(1) [OF inv]]
    by (simp add: scheduled_def interrupted_def)
next
  case (key byte v eflags cs)
  then show ?thesis
    using keymap_entry_step(1,2,3) [OF inv] by simp
next
  case (irq msg v eflags cs)
  then show ?thesis
    using interrupt_entry_step(1,2,3) [OF inv] by simp
qed (use assms(3) in auto)

text \<open>The clock can always interrupt a task that has interrupts enabled.\<close>

lemma next_tick:
  assumes inv: "cpu_inv s H" and flag: "iflag s"
  obtains s' where "kernel_step xh Tick s s'" and "cpu_inv s' H" and "iflag s'" and "tasks s' = tasks s"
    and "ready_tasks s' = tl (ready_tasks s)"
    and "current s' = (if ready_tasks s = [] then tasks s ! 0 else hd (ready_tasks s))"
proof (rule tick_ok [OF inv, of xh 0 0])
  fix s1 s'
  assume run: "clock_interrupt xh 0 0 s = Some s'" and s': "scheduled xh s1 s'"
  have step: "kernel_step xh Tick s s'"
    by (rule kernel_step.tick [OF flag run])
  with quiet_step_queue [OF step inv] s' show thesis
    by (intro that [of s']) (simp_all add: scheduled_def)
qed

lemma quiet_run_queue:
  "kernel_run xh es s s' \<Longrightarrow> cpu_inv s H \<Longrightarrow> set es \<subseteq> quiet \<Longrightarrow>
   cpu_inv s' H \<and> tasks s' = tasks s \<and> ready_tasks s' = drop (count_list es Tick) (ready_tasks s)"
proof (induction rule: kernel_run.induct)
  case (next_step es s u e s')
  then have u: "cpu_inv u H" "tasks u = tasks s" "ready_tasks u = drop (count_list es Tick) (ready_tasks s)" and e: "e \<in> quiet"
    by auto
  show ?case
    using quiet_step_queue [OF next_step.hyps(2) u(1) e] u(2,3) by (auto simp: drop_Suc tl_drop)
qed simp

section \<open>Preempted tasks\<close>

definition parked :: "'a task_state_scheme \<Rightarrow> u32 \<Rightarrow> bool" where
  "parked s t \<longleftrightarrow> t \<in> set (drop 1 (tasks s)) \<and> t \<noteq> 0 \<and> current s \<noteq> t \<and> field (ram s) t off_state = TASK_RUNNING"

lemma drop_1_update: "t \<in> set (drop 1 xs) \<Longrightarrow> xs ! i \<noteq> t \<Longrightarrow> t \<in> set (drop 1 (xs[i := x]))"
proof -
  assume "t \<in> set (drop 1 xs)" and i: "xs ! i \<noteq> t"
  then obtain j where "j < length xs - 1" "xs ! (j + 1) = t"
    by (auto simp: in_set_conv_nth)
  moreover from this have "j + 1 \<noteq> i"
    using i by blast
  ultimately have "drop 1 (xs[i := x]) ! j = t" "j < length (drop 1 (xs[i := x]))"
    by simp_all
  then show ?thesis
    using nth_mem by metis
qed

lemma sched_parked:
  assumes inv: "kernel_inv s H" and run: "scheduled xh s s'" and t: "t \<in> set (drop 1 (tasks s))" "t \<noteq> 0"
    and state: "field (ram s) t off_state = TASK_RUNNING"
  shows "parked s' t"
proof -
  have "t \<notin> set (ready_tasks s)"
    using state by (auto simp: ready_tasks_def)
  then have not_next: "\<not> (ready_tasks s \<noteq> [] \<and> t = hd (ready_tasks s))"
    by auto
  then have "current s' \<noteq> t"
    using sched_queue(2) [OF inv run] tasks_tail(2) [OF inv t] by auto
  then show ?thesis
    using sched_states(1) [OF inv run tasks_tail(1) [OF inv t] t(2)] not_next t state run
    by (simp add: parked_def scheduled_def)
qed

lemma kernel_step_parked:
  assumes "kernel_step xh e s s'" and inv: "cpu_inv s H" and parked: "parked s t"
  shows "parked s' t"
proof -
  note invs = cpu_invD [OF inv]
  have t: "t \<in> set (drop 1 (tasks s))" "t \<noteq> 0" "current s \<noteq> t" "field (ram s) t off_state = TASK_RUNNING"
    using parked by (simp_all add: parked_def)
  note mem = tasks_tail [OF invs(1) t(1,2)]
  show ?thesis
    using assms(1)
  proof (cases rule: kernel_step.cases)
    case run
    then show ?thesis
      using own_code_inv(3) [OF inv run(3,4) mem(1) t(2), of off_state] t by (simp add: parked_def)
  next
    case log
    then show ?thesis
      using log_inv_step(3,4,5) [OF inv log(2,3,4)] mem(1) t by (simp add: parked_def)
  next
    case (tick eflags cs)
    from tick_result [OF inv tick(3)] obtain s1 where s1: "kernel_inv s1 H" "interrupted s s1" "scheduled xh s1 s'"
      by blast
    then show ?thesis
      using interrupted_states [OF invs(1) s1(2) mem(1) t(2)] t by (intro sched_parked [OF s1(1,3)]) (simp_all add: interrupted_def)
  next
    case (key byte v eflags cs)
    then show ?thesis
      using keymap_entry_step(3,4,5) [OF inv key(3)] mem(1) t by (simp add: parked_def)
  next
    case (irq msg v eflags cs)
    then show ?thesis
      using interrupt_entry_step(3,4,5) [OF inv irq(3)] mem(1) t by (simp add: parked_def)
  next
    case (create name func prio u)
    from create_inv [OF inv create(2,3)] obtain i where i: "tasks s ! i = 0" "tasks s' = (tasks s)[i := u]" "current s' = current s"
      and same: "\<And>u y. u \<in> set (tasks s) \<Longrightarrow> u \<noteq> 0 \<Longrightarrow> page_of y = u \<Longrightarrow> ram s' y = ram s y"
      by metis
    have "field (ram s') t off_state = field (ram s) t off_state"
      using same [OF mem(1) t(2)] by (intro field_cong [OF task_page(1) [OF invs(1) mem(1) t(2)]]) simp_all
    then show ?thesis
      using t i drop_1_update [OF t(1), of i u] by (simp add: parked_def)
  next
    case leave
    show ?thesis
    proof (rule leave_result [OF inv leave(2,3,4)])
      fix i u H'
      assume u: "tasks s ! i = current s" "tasks u = (tasks s)[i := 0]" "kernel_inv u H'" "scheduled xh u s'"
        and states: "\<And>t. t \<in> set (tasks s) \<Longrightarrow> t \<noteq> 0 \<Longrightarrow> t \<noteq> current s \<Longrightarrow>
          field (ram u) t off_state = field (ram s) t off_state"
      show ?thesis
        using u(1,2) t states [OF mem(1) t(2)] drop_1_update [OF t(1), of i 0] by (intro sched_parked [OF u(3,4)]) simp_all
    qed
  qed
qed

lemma kernel_run_parked:
  "kernel_run xh es s s' \<Longrightarrow> cpu_inv s H \<Longrightarrow> parked s t \<Longrightarrow> parked s' t"
proof (induction rule: kernel_run.induct)
  case (next_step es s u e s')
  then show ?case
    using kernel_run_inv kernel_step_parked by blast
qed simp

section \<open>The tasks of the kernel itself\<close>

text \<open>What \<open>idle\<close> and \<open>t1_fun\<close> do between two interrupts are steps of the relation.\<close>

lemma log_text_step:
  fixes s :: "'a cpu_state_scheme"
  assumes "cpu_inv s H" and "ch CHR ''%'' \<notin> set f" and "length f \<le> 1023"
  shows "\<exists>s'. print_message f [] s = Some s' \<and> kernel_step xh Log s s' \<and> STI s' = s'"
proof -
  obtain s' where s': "print_message f [] s = Some s'" "iflag s'"
    by (rule text_message [OF kernel_invD(7) [OF cpu_invD(1) [OF assms(1)]] assms(2,3)])
  moreover from this have "STI s' = s'"
    by (cases s' rule: machine.cases_scheme) (simp add: STI_def)
  ultimately show ?thesis
    using kernel_step.log [OF vsprintf_text [OF assms(2)] assms(3) s'(1)] by blast
qed

lemma t1_round_step: "cpu_inv s H \<Longrightarrow> \<exists>s'. t1_round s = Some s' \<and> kernel_step xh Log s s'"
  using log_text_step [of s H "cstr ''t1 task running...'' @ [10]" xh] by (auto simp: t1_round_def)

lemma idle_round_step: "cpu_inv s H \<Longrightarrow> \<exists>s'. idle_round s = Some s' \<and> kernel_step xh Log s s'"
  using log_text_step [of s H "cstr ''idle task running...'' @ [10]" xh] by (auto simp: idle_round_def)

lemma idle_start_step:
  "idle_start name func s = Some s' \<Longrightarrow> literal_at (ram s) name \<Longrightarrow> \<exists>t. kernel_step xh (Create t) s s'"
  by (auto simp: idle_start_def intro: kernel_step.create)

end
