(* ===== verification/Task_Props.thy ===== *)
theory Task_Props
  imports Task_Spec
begin

text \<open>
  What creating and ending a task do to the table, the heap and the tasks that are there, and how both
  fail. The state the witnesses start from has five free pages and no task.
\<close>

section \<open>A state without tasks\<close>

definition sample_cpu :: cpu_state where
  "sample_cpu = task_state.extend
     (keyboard_state.extend sample_keyboard (task_state.fields (replicate 64 0) 0))
     (cpu_state.fields 0 \<lparr>eax = 0, ecx = 0, edx = 0, ebx = 0, esp = 0x9000, ebp = 0x9000, esi = 0, edi = 0, eip = 0x2000\<rparr>)"

lemma sample_cpu_simps [simp]:
  "ram sample_cpu = (\<lambda>_. 0)" "tasks sample_cpu = replicate 64 0" "current sample_cpu = 0"
  by (simp_all add: sample_cpu_def task_state.extend_def keyboard_state.extend_def task_state.fields_def
      cpu_state.fields_def sample_keyboard_def keyboard_state.fields_def table_state.extend_def sample_tables_def
      malloc_state.extend_def table_state.fields_def del: replicate_numeral)

lemma sample_cpu_inv [simp]: "kernel_inv sample_cpu empty_view" "card (avail sample_cpu) = 5"
proof -
  have log: "log_inv sample_cpu"
    using sample_keyboard_inv(1)
    by (simp add: sample_cpu_def task_state.extend_def keyboard_state.extend_def kbd_inv_def log_inv_def con_inv_def)
  have "heap_idle (task_pages (sample_heap (\<lambda>_. 0) 0) empty_view) (sample_heap (\<lambda>_. 0) 0) sample_cpu"
    by (simp add: heap_idle_def)
      (simp add: sample_cpu_def task_state.extend_def keyboard_state.extend_def sample_keyboard_def
        table_state.extend_def sample_tables_def malloc_state.extend_def)
  from heap_idle_rep [OF sample_heap_rep(1) this log] sample_heap_avail
  show "kernel_inv sample_cpu empty_view" "card (avail sample_cpu) = 5"
    by (simp_all add: kernel_inv_def del: replicate_numeral)
qed

section \<open>Creation\<close>

text \<open>
  C27: with an empty entry in the table and two pages left, \<open>create_task\<close> makes a new object of the heap
  the task of the lowest empty entry: ready, never scheduled, with the entry's number as pid, the pid
  of the running task (0 without one) as parent, a copy of the name, the function as the address to
  start at and an empty stack. Every other entry, the running task, the pages of all objects and the
  kernel's own memory stay as they are, and the invariant of tables and heap holds again.
\<close>

theorem create_task_registers:
  fixes s :: "'a task_state_scheme"
  assumes inv: "kernel_inv s H" and two: "2 \<le> card (avail s)" and slot: "empty_slot (tasks s) 0 = Some i"
    and name: "c_string (ram s) name nm" "length nm \<le> 31" "unat name + length nm + 1 \<le> 0x10000"
  shows "\<exists>t s' H'. create_task name func prio s = Some (t, s') \<and> kernel_inv s' H'
    \<and> (t, 4096) \<notin> objects s H \<and> objects s' H' = insert (t, 4096) (objects s H) \<and> card (avail s) \<le> card (avail s') + 2
    \<and> tasks s' = (tasks s)[i := t] \<and> current s' = current s \<and> task_state.more s' = task_state.more s \<and> iflag s'
    \<and> field (ram s') t off_pid = of_nat i
    \<and> field (ram s') t off_ppid = (if current s = 0 then 0 else field (ram s) (current s) off_pid)
    \<and> field (ram s') t off_state = TASK_READY \<and> field (ram s') t off_scheduling_times = 0
    \<and> field (ram s') t tss_eip = func \<and> field (ram s') t tss_esp0 = t + PAGE_SIZE
    \<and> c_string (ram s') (t + off_name) nm
    \<and> (\<forall>y. untouched s H y \<longrightarrow> page_of y \<noteq> t \<longrightarrow> ram s' y = ram s y)"
  using create_task_ok [OF assms] unfolding task_created_def by blast

theorem create_task_registers_witness:
  "\<exists>t s'. create_task 0x5000 0x3000 1 sample_cpu = Some (t, s') \<and> tasks s' ! 0 = t \<and> field (ram s') t tss_eip = 0x3000
     \<and> field (ram s') t off_state = TASK_READY"
proof -
  have slot: "empty_slot (tasks sample_cpu) 0 = Some 0"
    by simp
  obtain t s' where run: "create_task 0x5000 0x3000 1 sample_cpu = Some (t, s')"
    and t: "tasks s' = (tasks sample_cpu)[0 := t]" "field (ram s') t tss_eip = 0x3000" "field (ram s') t off_state = TASK_READY"
    using create_task_registers [OF sample_cpu_inv(1) _ slot, of "0x5000" "[]" "0x3000" 1] by auto
  have "tasks s' ! 0 = t"
    unfolding t(1) by simp
  then show ?thesis
    using run t by blast
qed

text \<open>
  Without an empty entry \<open>find_empty_process\<close> logs and answers -1, and \<open>create_task\<close> uses the
  answer as an index of the table: it does not complete, whatever memory is left.
\<close>

theorem create_task_table_full:
  fixes s :: "'a task_state_scheme"
  assumes heap: "heap_rep s H" and full: "length (tasks s) = 64" "0 \<notin> set (tasks s)"
    and name: "c_string (ram s) name nm" "length nm \<le> 31" "unat name + length nm + 1 \<le> 0x10000"
  shows "create_task name func prio s = None"
  by (rule create_task_full [OF assms])

theorem create_task_table_full_witness:
  "create_task 0x5000 0x3000 1 (sample_cpu\<lparr>tasks := replicate 64 0x100000\<rparr>) = None"
proof -
  let ?s = "sample_cpu\<lparr>tasks := replicate 64 0x100000\<rparr>"
  have "log_inv ?s"
    using kernel_invD(7) [OF sample_cpu_inv(1)] by (simp add: log_inv_def con_inv_def)
  then have "heap_rep ?s empty_view"
    using heap_idle_rep(1) [OF kernel_invD(1) [OF sample_cpu_inv(1)], of ?s] by (simp add: heap_idle_def)
  then show ?thesis
    by (rule create_task_table_full [where name = "0x5000" and nm = "[]"]) (simp_all del: replicate_numeral)
qed

section \<open>Exit\<close>

text \<open>The machine of the witnesses with the idle task and \<open>t1\<close>, as \<open>task_init\<close> and \<open>idle\<close> create them.\<close>

lemma sample_two_tasks:
  obtains t0 t1 s0 s H where "create_task 0x5000 0x3000 1 sample_cpu = Some (t0, s0)"
    and "create_task 0x5000 0x4000 1 s0 = Some (t1, s)" and "kernel_inv s H"
    and "tasks s = t0 # t1 # replicate 62 0" and "t0 \<noteq> 0" and "t1 \<noteq> 0" and "t0 \<noteq> t1" and "current s = 0"
    and "task_state.more s = task_state.more sample_cpu" and "iflag s"
    and "field (ram s) t1 off_state = TASK_READY" and "field (ram s) t1 tss_eip = 0x4000"
    and "field (ram s) t1 off_ppid = 0" and "field (ram s) t0 tss_esp0 = t0 + 4096" and "keymap s = keymap sample_cpu"
proof -
  have zeros: "replicate 64 0 = 0 # 0 # replicate 62 (0 :: u32)"
    by (simp flip: replicate_Suc)
  have first: "empty_slot (tasks sample_cpu) 0 = Some 0"
    by simp
  obtain t0 s0 H0 where run0: "create_task 0x5000 0x3000 1 sample_cpu = Some (t0, s0)" and inv0: "kernel_inv s0 H0"
    and s0: "objects s0 H0 = insert (t0, 4096) (objects sample_cpu empty_view)" "card (avail sample_cpu) \<le> card (avail s0) + 2"
      "tasks s0 = (tasks sample_cpu)[0 := t0]" "current s0 = 0" "task_state.more s0 = task_state.more sample_cpu"
      "\<forall>y. untouched sample_cpu empty_view y \<longrightarrow> page_of y \<noteq> t0 \<longrightarrow> ram s0 y = ram sample_cpu y"
      "field (ram s0) t0 tss_esp0 = t0 + 4096" "keymap s0 = keymap sample_cpu"
    using create_task_ok [OF sample_cpu_inv(1) _ first, of "0x5000" "[]" "0x3000" 1] by (auto simp: task_created_def)
  have tasks0: "tasks s0 = t0 # 0 # replicate 62 0"
    unfolding s0(3) by (simp add: zeros del: replicate_numeral)
  have t0: "t0 \<noteq> 0" "page_of t0 = t0" "0x100000 \<le> unat t0"
    using page_object [OF kernel_invD(1) [OF inv0], of t0] s0(1) by simp_all
  have "ram s0 0x5000 = ram sample_cpu 0x5000"
  proof (rule s0(6) [rule_format])
    show "untouched sample_cpu empty_view 0x5000"
      by (simp add: untouched_def low_memory_def vga_nat in_range_def)
    show "page_of 0x5000 \<noteq> t0"
      using t0(3) by (auto simp: unat_page_of)
  qed
  then have name: "c_string (ram s0) 0x5000 []"
    by simp
  have second: "empty_slot (tasks s0) 0 = Some 1"
    using t0(1) by (simp add: tasks0 del: replicate_numeral)
  have pages: "2 \<le> card (avail s0)"
    using s0(2) by simp
  obtain t1 s H where run1: "create_task 0x5000 0x4000 1 s0 = Some (t1, s)" and inv: "kernel_inv s H"
    and s: "(t1, 4096) \<notin> objects s0 H0" "objects s H = insert (t1, 4096) (objects s0 H0)" "tasks s = (tasks s0)[1 := t1]"
      "current s = 0" "task_state.more s = task_state.more s0" "iflag s" "field (ram s) t1 off_state = TASK_READY"
      "field (ram s) t1 tss_eip = 0x4000" "field (ram s) t1 off_ppid = 0"
      "\<forall>y. untouched s0 H0 y \<longrightarrow> page_of y \<noteq> t1 \<longrightarrow> ram s y = ram s0 y" "keymap s = keymap s0"
    using create_task_ok [OF inv0 pages second name, of "0x4000" 1] s0(4) by (auto simp: task_created_def)
  have tasks: "tasks s = t0 # t1 # replicate 62 0"
    unfolding s(3) tasks0 by (simp del: replicate_numeral)
  have t1: "t1 \<noteq> 0" "t0 \<noteq> t1"
    using page_object(5) [OF kernel_invD(1) [OF inv], of t1] s(1,2) s0(1) by auto
  have "ram s y = ram s0 y" if "page_of y = t0" for y
    using s(10) task_page(5) [OF inv0 _ t0(1) that] that t1(2) tasks0 by simp
  then have "field (ram s) t0 tss_esp0 = t0 + 4096"
    using field_cong [OF t0(2), of tss_esp0 "ram s" "ram s0"] s0(7) by simp
  then show thesis
    by (intro that [OF run0 run1 inv tasks t0(1) t1 s(4) _ s(6-9)]) (simp_all add: s(5,11) s0(5,8))
qed

text \<open>
  C28: \<open>task_exit\<close> on a task of an entry from 1 on empties that entry, clears \<open>current\<close> (whichever task
  was running) and gives the page back: the object is no longer in use, every other object, entry and
  task page and the kernel's own memory stay, and the invariant holds again.
\<close>

theorem task_exit_removes_task:
  fixes s :: "'a task_state_scheme"
  assumes "kernel_inv s H" and "1 \<le> i" and "i < 64" and "tasks s ! i = t" and "t \<noteq> 0"
  shows "\<exists>s' H'. task_exit code t s = Some s' \<and> kernel_inv s' H' \<and> objects s' H' = objects s H - {(t, 4096)}
    \<and> tasks s' = (tasks s)[i := 0] \<and> current s' = 0 \<and> task_state.more s' = task_state.more s \<and> iflag s'
    \<and> (\<forall>y. untouched s H y \<longrightarrow> page_of y \<noteq> t \<longrightarrow> ram s' y = ram s y)"
  using task_exit_ok [OF assms, of code] by blast

theorem task_exit_removes_task_witness:
  "\<exists>t0 t1 s0 s s'. create_task 0x5000 0x3000 1 sample_cpu = Some (t0, s0) \<and> create_task 0x5000 0x4000 1 s0 = Some (t1, s)
     \<and> task_exit 7 t1 s = Some s' \<and> tasks s' = t0 # replicate 63 0"
proof -
  obtain t0 t1 s0 s H where s: "create_task 0x5000 0x3000 1 sample_cpu = Some (t0, s0)"
    "create_task 0x5000 0x4000 1 s0 = Some (t1, s)" "kernel_inv s H" "tasks s = t0 # t1 # replicate 62 0" "t1 \<noteq> 0"
    by (rule sample_two_tasks)
  have "tasks s ! 1 = t1" "(tasks s)[1 := 0] = t0 # replicate 63 0"
    by (simp_all add: s(4) del: replicate_numeral) (simp flip: replicate_Suc)
  then show ?thesis
    using task_exit_removes_task [OF s(3), of 1 t1 7] s by auto
qed

text \<open>
  \<open>current_task_exit\<close> compares \<open>current\<close> with the entries without asking whether there is a current
  task: without one, the first empty entry from 1 on matches and its name is read through the null
  pointer.
\<close>

theorem current_task_exit_without_current:
  fixes s :: "'a task_state_scheme"
  assumes "current s = 0" and "0 \<in> set (drop 1 (tasks s))"
  shows "current_task_exit code s = None"
proof -
  obtain i where i: "find_task (drop 1 (tasks s)) 0 1 = Some i"
    using assms(2) find_task_None [of "drop 1 (tasks s)" 0 1] by (cases "find_task (drop 1 (tasks s)) 0 1") auto
  then have "tasks s ! i = 0"
    using find_task_Some [OF i] nth_drop [of 1 "tasks s" "i - 1"] by (cases i) (auto simp: less_diff_conv)
  then show ?thesis
    using i assms(1) by (simp add: current_task_exit_def clear_task_def)
qed

theorem current_task_exit_without_current_witness: "current_task_exit 0 sample_cpu = None"
  by (rule current_task_exit_without_current) simp_all

end
