(* ===== verification/Sched_Props.thy ===== *)
theory Sched_Props
  imports Kernel_Steps Task_Props
begin

text \<open>
  What the steps of the running kernel add up to: the invariant over every run, what one clock interrupt
  does, the order in which ready tasks get the processor, and what becomes of a task that lost it.
\<close>

section \<open>A running machine\<close>

text \<open>The state of \<open>sample_two_tasks\<close>: nothing runs yet, \<open>t1\<close> is ready.\<close>

lemma sample_running:
  obtains s H t0 t1 where "cpu_inv (s :: cpu_state) H" and "iflag s" and "tasks s ! 0 = t0" and "ready_tasks s = [t1]"
    and "t0 \<noteq> t1" and "current s = 0" and "field (ram s) t1 off_ppid = 0" and "field (ram s) t1 tss_eip = 0x4000"
proof -
  obtain t0 t1 s H where s: "kernel_inv s H" "tasks s = t0 # t1 # replicate 62 0" "t0 \<noteq> 0" "t1 \<noteq> 0" "t0 \<noteq> t1" "current s = 0"
    "task_state.more s = task_state.more sample_cpu" "iflag s" "field (ram s) t1 off_state = TASK_READY"
    "field (ram s) t1 tss_eip = 0x4000" "field (ram s) t1 off_ppid = 0" "field (ram s) t0 tss_esp0 = t0 + 4096"
    "keymap s = keymap sample_cpu"
    by (rule sample_two_tasks)
  have "esp (regs s) = 0x9000"
    using more_cpu [OF s(7)] by (simp add: sample_cpu_def task_state.extend_def cpu_state.fields_def)
  moreover have "low_memory y" if "in_range (0x9000 - 20) 20 y" for y
    using that in_range_nat [of "0x9000 - 20" 20 y] by (simp add: low_memory_def vga_nat in_range_nat)
  ultimately have "stack_ok s"
    using s(6) by (simp add: stack_ok_def)
  moreover have "idle_waits s"
    using s(2,12) by (auto simp: idle_waits_def simp del: replicate_numeral intro: exI [of _ 4096])
  moreover have "kbd_inv s"
    using kbd_inv_cong [OF sample_keyboard_inv(1) _ kernel_invD(7) [OF s(1)]] s(13)
    by (simp add: sample_cpu_def task_state.extend_def keyboard_state.extend_def sample_keyboard_def)
  ultimately have inv: "cpu_inv s H"
    using s(1,2,3) by (simp add: cpu_inv_def del: replicate_numeral)
  have "ready_tasks s = [t1]"
    using s(2,4,9) by (simp add: ready_tasks_def del: replicate_numeral)
  then show thesis
    using that [OF inv s(8) _ _ s(5,6,11,10)] s(2) by (simp del: replicate_numeral)
qed

text \<open>Two interrupts later \<open>t1\<close> has run and the idle task runs.\<close>

lemma sample_ticks:
  obtains s u v H t1 where "cpu_inv (s :: cpu_state) H" and "current s = t1" and "t1 \<noteq> 0" and "t1 \<noteq> tasks s ! 0"
    and "kernel_step 0x7000 Tick s u" and "cpu_inv u H" and "current u = tasks u ! 0" and "ready_tasks u = []"
proof -
  obtain r H t0 t1 where r: "cpu_inv (r :: cpu_state) H" "iflag r" "tasks r ! 0 = t0" "ready_tasks r = [t1]" "t0 \<noteq> t1"
    by (rule sample_running)
  show thesis
  proof (rule next_tick [OF r(1,2), of "0x7000"])
    fix s :: cpu_state
    assume s: "cpu_inv s H" "iflag s" "tasks s = tasks r" "ready_tasks s = tl (ready_tasks r)"
      "current s = (if ready_tasks r = [] then tasks r ! 0 else hd (ready_tasks r))"
    show thesis
    proof (rule next_tick [OF s(1,2), of "0x7000"])
      fix u :: cpu_state
      assume u: "kernel_step 0x7000 Tick s u" "cpu_inv u H" "tasks u = tasks s" "ready_tasks u = tl (ready_tasks s)"
        "current u = (if ready_tasks s = [] then tasks s ! 0 else hd (ready_tasks s))"
      have "t1 \<noteq> 0"
        using ready_tasks_member(3) [of t1 r] r(4) by simp
      then show thesis
        using that [OF s(1) _ _ _ u(1,2)] u s r by simp
    qed
  qed
qed

section \<open>Properties\<close>

text \<open>
  C1: every run keeps the invariant, whatever the tasks run, log, create, when they end, and when the
  clock, the keyboard and other devices interrupt them: the heap stays well formed, the tasks of the table are different objects in
  use with their entry's number as pid, a task that is ready has an empty stack, and the current task
  is null, the idle task or one in state running.
\<close>

theorem kernel_runs_keep_invariant:
  assumes "cpu_inv s H" and "kernel_run xh es s s'"
  shows "\<exists>H'. cpu_inv s' H' \<and> heap_rep s' H' \<and> distinct (filter (\<lambda>t. t \<noteq> 0) (tasks s'))
    \<and> (\<forall>i<64. tasks s' ! i \<noteq> 0 \<longrightarrow> (tasks s' ! i, 4096) \<in> objects s' H' \<and> get_task_pid (tasks s' ! i) s' = of_nat i)"
proof -
  obtain H' where inv: "cpu_inv s' H'"
    using kernel_run_inv [OF assms(2,1)] by blast
  note kernel = kernel_invD [OF cpu_invD(1) [OF inv]]
  have "(tasks s' ! i, 4096) \<in> objects s' H' \<and> get_task_pid (tasks s' ! i) s' = of_nat i" if "i < 64" "tasks s' ! i \<noteq> 0" for i
    using kernel(3) [of "tasks s' ! i"] kernel(8) [OF that] that kernel(2) by (simp add: get_task_pid_def control_block_def)
  then show ?thesis
    using inv kernel(1,4) by blast
qed

theorem kernel_runs_keep_invariant_witness:
  "\<exists>s s' H'. kernel_run 0x7000 [Tick] s (s' :: cpu_state) \<and> cpu_inv s' H' \<and> tasks s' ! 0 \<noteq> 0"
proof (rule sample_ticks)
  fix s u :: cpu_state and H
  assume s: "cpu_inv s H" and step: "kernel_step 0x7000 Tick s u"
  have run: "kernel_run 0x7000 [Tick] s u"
    using kernel_run.next_step [OF kernel_run.start step] by simp
  then show ?thesis
    using kernel_runs_keep_invariant [OF s run] cpu_invD(2) by blast
qed

text \<open>
  C7: a clock interrupt is always defined. It saves the interrupted task's registers in its control
  block, counts, gives the processor to the first ready task of the table, or else to the idle task,
  and enables interrupts. A ready task starts at its function, as running, on an empty stack; with
  parent 0 the address of \<open>task_exit_handler\<close> is on it as the return address.
\<close>

theorem clock_tick_dispatches:
  assumes inv: "cpu_inv s H"
  shows "\<exists>s'. clock_interrupt xh eflags cs s = Some s' \<and> cpu_inv s' H \<and> objects s' H = objects s H \<and> tasks s' = tasks s
    \<and> cpu_ticks s' = cpu_ticks s + 1 \<and> iflag s' \<and> ready_tasks s' = tl (ready_tasks s)
    \<and> (case ready_tasks s of
         [] \<Rightarrow> current s' = tasks s ! 0
       | t # _ \<Rightarrow> current s' = t \<and> field (ram s') t off_state = TASK_RUNNING \<and> eip (regs s') = field (ram s) t tss_eip
           \<and> (if field (ram s) t off_ppid = 0 then esp (regs s') = t + 4092 \<and> load32 (ram s') (t + 4092) = xh
              else esp (regs s') = t + 4096))
    \<and> (current s \<noteq> 0 \<and> current s \<noteq> current s' \<longrightarrow> saved_block (ram s') (current s) (regs s))"
proof (rule tick_ok [OF inv, of xh eflags cs])
  fix s1 s'
  assume run: "clock_interrupt xh eflags cs s = Some s'" and s1: "kernel_inv s1 H" "interrupted s s1" "scheduled xh s1 s'"
    and s': "cpu_inv s' H" "objects s' H = objects s H"
  note kernel = cpu_invD(1) [OF inv]
  note queue = interrupted_queue [OF kernel s1(2)] and next_state = sched_queue [OF s1(1,3)]
  have same: "tasks s1 = tasks s" "tasks s' = tasks s" "cpu_ticks s' = cpu_ticks s + 1" "iflag s'" "current s1 = current s"
    using s1(2,3) by (simp_all add: interrupted_def scheduled_def)
  have first: "field (ram s') t off_state = TASK_RUNNING \<and> eip (regs s') = field (ram s) t tss_eip
      \<and> (if field (ram s) t off_ppid = 0 then esp (regs s') = t + 4092 \<and> load32 (ram s') (t + 4092) = xh
         else esp (regs s') = t + 4096)" if q: "ready_tasks s = t # ts" for t ts
  proof -
    have t: "t \<in> set (ready_tasks s)"
      using q by simp
    note block = interrupted_ready_block [OF kernel s1(2) t]
    from s1(3) have "regs s' = resume_regs (ram s1) t (start_sp t (ram s1))" "ram s' = dispatch_mem xh t (ram s1)"
      using q queue by (auto elim: scheduled_cases)
    then show ?thesis
      using block [of tss_eip] block [of off_ppid] dispatch_mem_fields(2,3) [of xh t "ram s1"]
      by (simp add: resume_regs_def start_sp_def field_def)
  qed
  have saved: "saved_block (ram s') (current s) (regs s)" if cur: "current s \<noteq> 0" "current s \<noteq> current s'"
  proof -
    have mem: "current s \<in> set (tasks s1)"
      using kernel_invD(5) [OF kernel] cur(1) same(1) by simp
    have "saved_block (ram s1) (current s) (regs s)"
      using s1(2) cur(1) by (simp add: interrupted_def Let_def)
    moreover have "field (ram s') (current s) off = field (ram s1) (current s) off" if "unat off + 4 \<le> 4096" for off
      using sched_states(2) [OF s1(1,3) mem cur] by (intro field_cong [OF task_page(1) [OF s1(1) mem cur(1)] that])
    ultimately show ?thesis
      by (simp add: saved_block_def)
  qed
  show ?thesis
    using run s' same next_state queue first saved by (auto split: list.split)
qed

theorem clock_tick_dispatches_witness:
  "\<exists>s s' t. current (s :: cpu_state) = 0 \<and> ready_tasks s = [t] \<and> clock_interrupt 0x7000 2 8 s = Some s' \<and> current s' = t
     \<and> eip (regs s') = 0x4000 \<and> load32 (ram s') (esp (regs s')) = 0x7000"
proof -
  obtain s H t0 t1 where s: "cpu_inv (s :: cpu_state) H" "ready_tasks s = [t1]" "current s = 0" "field (ram s) t1 off_ppid = 0"
    "field (ram s) t1 tss_eip = 0x4000"
    by (rule sample_running)
  then show ?thesis
    using clock_tick_dispatches [OF s(1), of "0x7000" 2 8] by auto
qed

text \<open>
  C8: without creation and exit, and whatever devices interrupt, the ready tasks get the processor in the order of the table: the clock
  can always interrupt again, and in every run the interrupt number \<open>k + 1\<close> dispatches the \<open>k\<close>-th of
  the tasks that were ready at the start, and the idle task when they are used up.
\<close>

theorem ready_tasks_served_in_order:
  assumes inv: "cpu_inv s H" and flag: "iflag s"
  shows "(\<exists>s'. kernel_run xh (replicate (Suc k) Tick) s s')
    \<and> (\<forall>es s'. kernel_run xh (es @ [Tick]) s s' \<longrightarrow> set es \<subseteq> quiet \<longrightarrow> count_list es Tick = k \<longrightarrow>
         current s' = (if k < length (ready_tasks s) then ready_tasks s ! k else tasks s ! 0))"
proof (intro conjI allI impI)
  have "\<exists>s'. kernel_run xh (replicate n Tick) s s' \<and> iflag s' \<and> cpu_inv s' H" for n
  proof (induction n)
    case 0
    show ?case
      using inv flag by (auto intro: kernel_run.start)
  next
    case (Suc n)
    then obtain u where u: "kernel_run xh (replicate n Tick) s u" "iflag u" "cpu_inv u H"
      by blast
    obtain s' where "kernel_step xh Tick u s'" "cpu_inv s' H" "iflag s'"
      by (rule next_tick [OF u(3,2), of xh])
    then show ?case
      using kernel_run.next_step [OF u(1)] by (auto simp flip: replicate_append_same)
  qed
  then show "\<exists>s'. kernel_run xh (replicate (Suc k) Tick) s s'"
    by blast
next
  fix es s'
  assume run: "kernel_run xh (es @ [Tick]) s s'" and es: "set es \<subseteq> quiet" "count_list es Tick = k"
  obtain u where u: "kernel_run xh es s u" "kernel_step xh Tick u s'"
    using run by (auto simp: kernel_run_snoc)
  have q: "cpu_inv u H" "tasks u = tasks s" "ready_tasks u = drop k (ready_tasks s)"
    using quiet_run_queue [OF u(1) inv es(1)] es(2) by simp_all
  then show "current s' = (if k < length (ready_tasks s) then ready_tasks s ! k else tasks s ! 0)"
    using quiet_step_queue [OF u(2) q(1)] by (simp add: hd_drop_conv_nth)
qed

theorem ready_tasks_served_in_order_witness:
  "\<exists>s s' t. ready_tasks (s :: cpu_state) = [t] \<and> kernel_run 0x7000 [Tick, Tick] s s' \<and> current s' = tasks s ! 0"
proof -
  obtain s H t0 t1 where s: "cpu_inv (s :: cpu_state) H" "iflag s" "ready_tasks s = [t1]"
    by (rule sample_running)
  from ready_tasks_served_in_order [OF s(1,2), of "0x7000" 1] obtain s' where run: "kernel_run 0x7000 [Tick, Tick] s s'"
    by auto
  then have "kernel_run 0x7000 ([Tick] @ [Tick]) s s'"
    by simp
  then have "current s' = tasks s ! 0"
    using ready_tasks_served_in_order [OF s(1,2), of "0x7000" 1, THEN conjunct2, rule_format, of "[Tick]" s'] s(3) by simp
  then show ?thesis
    using s(3) run by blast
qed

text \<open>
  C9: a task other than the idle task runs for one time slice only. After the clock interrupts it, it
  stays in state running, is never current again in any run, and keeps its entry and its page.
\<close>

theorem interrupted_task_never_resumes:
  assumes inv: "cpu_inv s H" and t: "current s = t" "t \<noteq> 0" "t \<noteq> tasks s ! 0"
    and tick: "kernel_step xh Tick s u" and run: "kernel_run xh es u s'"
  shows "current s' \<noteq> t \<and> t \<in> set (tasks s') \<and> field (ram s') t off_state = TASK_RUNNING"
proof -
  note kernel = cpu_invD(1) [OF inv]
  have mem: "t \<in> set (tasks s)"
    using kernel_invD(5) [OF kernel] t by simp
  then have slot: "t \<in> set (drop 1 (tasks s))"
    using t(3) by (cases "tasks s") auto
  have state: "field (ram s) t off_state = TASK_RUNNING"
    using kernel_invD(9) [OF kernel] t by simp
  from tick obtain eflags cs where "clock_interrupt xh eflags cs s = Some u"
    by (rule tick_step)
  then obtain s1 where s1: "kernel_inv s1 H" "interrupted s s1" "scheduled xh s1 u" "cpu_inv u H"
    using tick_result [OF inv] by metis
  have "parked u t"
    using slot state interrupted_states [OF kernel s1(2) mem t(2)] s1(2) t(2)
    by (intro sched_parked [OF s1(1,3)]) (simp_all add: interrupted_def)
  then have "parked s' t"
    by (rule kernel_run_parked [OF run s1(4)])
  then show ?thesis
    using in_set_dropD by (auto simp: parked_def)
qed

theorem interrupted_task_never_resumes_witness:
  "\<exists>s u t. current (s :: cpu_state) = t \<and> t \<noteq> 0 \<and> kernel_step 0x7000 Tick s u
     \<and> (\<forall>es s'. kernel_run 0x7000 es u s' \<longrightarrow> current s' \<noteq> t)"
proof -
  obtain s u H t1 where s: "cpu_inv (s :: cpu_state) H" "current s = t1" "t1 \<noteq> 0" "t1 \<noteq> tasks s ! 0" "kernel_step 0x7000 Tick s u"
    by (rule sample_ticks)
  then show ?thesis
    using interrupted_task_never_resumes [OF s] by blast
qed

text \<open>
  C10: interrupting the idle task when no task is ready and resuming it is the identity on its stack
  and its registers, except for \<open>eax\<close>, through which it is resumed.
\<close>

theorem idle_task_resumes:
  assumes inv: "cpu_inv s H" and idle: "current s = tasks s ! 0" and none: "ready_tasks s = []"
  shows "\<exists>s'. clock_interrupt xh eflags cs s = Some s' \<and> current s' = current s \<and> regs s' = (regs s)\<lparr>eax := eip (regs s)\<rparr>
    \<and> (\<forall>y. in_range (esp (regs s)) (4096 - unat (esp (regs s) - current s)) y \<longrightarrow> ram s' y = ram s y)"
proof (rule tick_ok [OF inv, of xh eflags cs])
  fix s1 s'
  assume run: "clock_interrupt xh eflags cs s = Some s'" and s1: "kernel_inv s1 H" "interrupted s s1" "scheduled xh s1 s'"
  have queue: "ready_tasks s1 = []"
    using interrupted_queue [OF cpu_invD(1) [OF inv] s1(2)] none by simp
  have "tasks s1 = tasks s" and saved: "saved_block (ram s1) (current s) (regs s)"
    and stack: "\<forall>y. in_range (esp (regs s)) (4096 - unat (esp (regs s) - current s)) y \<longrightarrow> ram s1 y = ram s y"
    using s1(2) cpu_invD(2) [OF inv] idle by (simp_all add: interrupted_def Let_def)
  then have next_state: "current s' = current s" "ram s' = ram s1"
    "regs s' = resume_regs (ram s1) (current s) (field (ram s1) (current s) tss_esp0)"
    using s1(3) queue idle by (auto elim: scheduled_cases)
  have "regs s' = (regs s)\<lparr>eax := eip (regs s)\<rparr>"
    using saved unfolding next_state(3) by (cases "regs s") (simp add: saved_block_def resume_regs_def)
  then show ?thesis
    using run next_state(1,2) stack by simp
qed

theorem idle_task_resumes_witness:
  "\<exists>s s'. current (s :: cpu_state) \<noteq> 0 \<and> clock_interrupt 0x7000 2 8 s = Some s' \<and> regs s' = (regs s)\<lparr>eax := eip (regs s)\<rparr>"
proof -
  obtain u H where u: "cpu_inv (u :: cpu_state) H" "current u = tasks u ! 0" "ready_tasks u = []"
    by (rule sample_ticks)
  then show ?thesis
    using idle_task_resumes [OF u, of "0x7000" 2 8] cpu_invD(2) [OF u(1)] by metis
qed

text \<open>
  C11: a key interrupt returns in every state of the invariant. It does to the keyboard and the cursor
  what the abstract keyboard does on that byte, and shows the characters the abstract keyboard types for
  it, with \<open>printk\<close>, from a state \<open>t\<close> that has the memory at the handler's entry: apart from the registers
  and the interrupt flag the state after the interrupt is the one after showing them. It keeps the invariant, the tasks, the current one and the
  ready queue, and goes on where it interrupted, with the interrupt flag of the saved EFLAGS; but
  \<open>eax\<close>, \<open>ecx\<close> and \<open>edx\<close> are those of the handler. Memory changes at most in the video window and in
  the 16 bytes below the stack pointer.
\<close>

theorem key_interrupt_returns:
  fixes s :: "'a cpu_state_scheme"
  assumes inv: "cpu_inv s H"
  shows "\<exists>s'. device_interrupt (keymap_entry byte v) eflags cs s = Some s' \<and> cpu_inv s' H
    \<and> tasks s' = tasks s \<and> current s' = current s \<and> ready_tasks s' = ready_tasks s \<and> iflag s' = bit eflags 9
    \<and> regs s' = (regs s)\<lparr>eax := v_eax v, ecx := v_ecx v, edx := v_edx v\<rparr>
    \<and> (kbd_abs s', cursor s') = keyboard_step (kbd_abs s, cursor s) byte
    \<and> (\<exists>t u. ram t = pushed (esp (regs s) - 16) eflags cs (eip (regs s)) 0x21 (ram s) \<and> cursor t = cursor s
         \<and> kbd_abs t = kbd_abs s' \<and> show_typed (typed (kbd_abs s) byte) t = Some u
         \<and> s' = u\<lparr>iflag := iflag s', regs := regs s'\<rparr>)
    \<and> (\<forall>y. \<not> in_range (esp (regs s) - 16) 16 y \<longrightarrow> \<not> vga y \<longrightarrow> ram s' y = ram s y)"
proof -
  let ?e = "entered 0x21 eflags cs s"
  obtain s' s2 where run: "device_interrupt (keymap_entry byte v) eflags cs s = Some s'"
    and s': "regs s' = (regs s)\<lparr>eax := v_eax v, ecx := v_ecx v, edx := v_edx v\<rparr>" "iflag s' = bit eflags 9"
      "(kbd_abs s', cursor s') = keyboard_step (kbd_abs s, cursor s) byte"
      "\<forall>y. \<not> in_range (esp (regs s) - 16) 16 y \<longrightarrow> \<not> vga y \<longrightarrow> ram s' y = ram s y"
    and s2: "keymap_handler 0x21 byte ?e = Some s2" "s' = s2\<lparr>iflag := iflag s', regs := regs s'\<rparr>"
    unfolding keymap_entry_def
    by (rule key_device.interrupt_returns [OF inv, of "0x21" byte "0x21" v eflags cs])
  have same: "kbd_abs ?e = kbd_abs s" "cursor ?e = cursor s"
    "ram ?e = pushed (esp (regs s) - 16) eflags cs (eip (regs s)) 0x21 (ram s)"
    by (simp_all add: entered_def kbd_abs_def cursor_def)
  obtain t where t: "ram t = ram ?e" "cursor t = cursor s" "kbd_abs t = kbd_step (kbd_abs s) byte"
    "show_typed (typed (kbd_abs s) byte) t = Some s2"
    using keymap_handler_step [OF entered_kbd_inv [OF inv], of "0x21" byte "0x21" eflags cs] s2(1) unfolding same(1,2) by auto
  have "kbd_abs t = kbd_abs s'"
    using s'(3) t(3) by (simp add: keyboard_step_def)
  then show ?thesis
    using keymap_entry_step(1-4) [OF inv run] run s' s2(2) t unfolding same(3) by blast
qed

lemma cpu_update_ram: "s' = u\<lparr>iflag := f, regs := r\<rparr> \<Longrightarrow> ram s' = ram (u :: 'a cpu_state_scheme)"
  by simp

theorem key_interrupt_returns_witness:
  "\<exists>(s :: cpu_state) s'. device_interrupt (keymap_entry 0x1e \<lparr>v_eax = 1, v_ecx = 2, v_edx = 3\<rparr>) 0x202 8 s = Some s'
     \<and> iflag s' \<and> eip (regs s') = eip (regs s) \<and> esp (regs s') = esp (regs s) \<and> eax (regs s') = 1
     \<and> (\<exists>t u :: cpu_state. show_typed (typed (kbd_abs s) 0x1e) t = Some u \<and> ram s' = ram u)"
proof -
  obtain s H where s: "cpu_inv (s :: cpu_state) H"
    by (rule sample_running)
  let ?v = "\<lparr>v_eax = 1, v_ecx = 2, v_edx = 3\<rparr>"
  obtain s' t u where run: "device_interrupt (keymap_entry 0x1e ?v) 0x202 8 s = Some s'" "iflag s' = bit (0x202 :: u32) 9"
      "regs s' = (regs s)\<lparr>eax := v_eax ?v, ecx := v_ecx ?v, edx := v_edx ?v\<rparr>"
    and typed: "show_typed (typed (kbd_abs s) 0x1e) t = Some u" and u: "s' = u\<lparr>iflag := iflag s', regs := regs s'\<rparr>"
    using key_interrupt_returns [OF s, of "0x1e" ?v "0x202" 8] by blast
  have "iflag s' \<and> eip (regs s') = eip (regs s) \<and> esp (regs s') = esp (regs s) \<and> eax (regs s') = 1"
    using run(2,3) by simp
  then show ?thesis
    using run(1) typed cpu_update_ram [OF u] by blast
qed

end
