(* ===== verification/Kernel_Main.thy ===== *)
theory Kernel_Main
  imports Sched Traps
begin

text \<open>
  \<open>kernel_main\<close> of \<open>kernel/init/main.c\<close>: the order in which the kernel sets itself up. The addresses the
  linker gives to static objects, functions and strings are fields of a record; what the loader
  \<open>setup.asm\<close> and the initial values of the static objects provide is stated as a predicate on the
  state at entry.
\<close>

section \<open>The code\<close>

record kernel_layout =
  l_gdt :: u32
  l_idt :: u32
  l_entries :: entry_points
  l_src_file :: "u8 list"
  l_idle_name :: u32
  l_idle :: u32

text \<open>Up to the call of \<open>task_init\<close>; and all of it, up to the endless loop at the end.\<close>

definition early_main :: "kernel_layout \<Rightarrow> 'a task_state_scheme \<Rightarrow> 'a task_state_scheme option" where
  "early_main L s =
     do { let s = console_init s;
          s \<leftarrow> gdt_init (l_gdt L) s;
          let s = idt_init (l_entries L) (l_idt L) s;
          s \<leftarrow> print_message (cstr ''init gdt success ...'' @ [10]) [] s;
          s \<leftarrow> print_message (cstr ''init idt success ...'' @ [10]) [] s;
          let s = clock_init s;
          s \<leftarrow> print_message (cstr ''Hello FunsizeOS ...'' @ [10]) [] s;
          s \<leftarrow> print_check_memory_info s;
          s \<leftarrow> memory_init (l_src_file L) s;
          memory_map_int (l_src_file L) s }"

definition kernel_main :: "kernel_layout \<Rightarrow> 'a task_state_scheme \<Rightarrow> 'a task_state_scheme option" where
  "kernel_main L s =
     do { s \<leftarrow> early_main L s;
          s \<leftarrow> task_init (l_idle_name L) (l_idle L) s;
          Some (STI s) }"

section \<open>The state at entry\<close>

text \<open>
  The initial values of the static objects, and the descriptor table of \<open>setup.asm\<close>: four entries, with
  their size as limit.
\<close>

definition boot_static :: "'a task_state_scheme \<Rightarrow> bool" where
  "boot_static s \<longleftrightarrow> length (printk_buf s) = 1024 \<and> bitmap_item_used (g_physics_memory_map s) = 0
     \<and> bucket_dir s = initial_bucket_dir \<and> free_bucket_desc s = 0 \<and> tasks s = replicate 64 0 \<and> current s = 0
     \<and> keymap s = initial_keymap \<and> xdt_limit (gdtr s) = 32"

text \<open>
  The layout: the kernel is loaded at \<open>0x1200\<close>; both tables and the name of the idle task are apart from
  each other and below the page map at \<open>0x10000\<close>.
\<close>

definition between :: "nat \<Rightarrow> nat \<Rightarrow> u32 \<Rightarrow> nat \<Rightarrow> bool" where
  "between lo hi a n \<longleftrightarrow> lo \<le> unat a \<and> unat a + n \<le> hi"

definition apart :: "u32 \<Rightarrow> nat \<Rightarrow> u32 \<Rightarrow> nat \<Rightarrow> bool" where
  "apart a n b k \<longleftrightarrow> unat a + n \<le> unat b \<or> unat b + k \<le> unat a"

definition boot_layout :: "kernel_layout \<Rightarrow> u8 list \<Rightarrow> 'a task_state_scheme \<Rightarrow> bool" where
  "boot_layout L nm s \<longleftrightarrow> between 0x1200 0x10000 (l_gdt L) 2048 \<and> between 0x1200 0x10000 (l_idt L) 2048
     \<and> between 0x1200 0x10000 (l_idle_name L) (length nm + 1) \<and> unat (xdt_base (gdtr s)) + 32 \<le> 0x1200
     \<and> apart (l_gdt L) 2048 (l_idt L) 2048
     \<and> apart (l_gdt L) 2048 (l_idle_name L) (length nm + 1) \<and> apart (l_idt L) 2048 (l_idle_name L) (length nm + 1)
     \<and> c_string (ram s) (l_idle_name L) nm \<and> length nm \<le> 31"

text \<open>
  The memory map the loader got from the BIOS, below the kernel: item \<open>k\<close> is the usable zone at 1 MB,
  of two pages at least and less than 256 MB (the page map has one byte per page and 64 KiB).
\<close>

definition boot_zone :: "mem \<Rightarrow> nat \<Rightarrow> bool" where
  "boot_zone m k \<longleftrightarrow> check_memory_times m \<le> 12 \<and> k < check_memory_times m
     \<and> base_addr_low (check_memory_item_at m k) = VALID_MEMORY_FROM \<and> item_type (check_memory_item_at m k) = ZONE_VALID
     \<and> (\<forall>j<k. base_addr_low (check_memory_item_at m j) \<noteq> VALID_MEMORY_FROM)
     \<and> 0x2000 \<le> unat (length_low (check_memory_item_at m k)) \<and> unat (length_low (check_memory_item_at m k)) < 0x10000000"

definition boot_ok :: "kernel_layout \<Rightarrow> u8 list \<Rightarrow> nat \<Rightarrow> 'a task_state_scheme \<Rightarrow> bool" where
  "boot_ok L nm k s \<longleftrightarrow> boot_static s \<and> boot_layout L nm s \<and> boot_zone (ram s) k"

end
