(* ===== verification/Boot_Spec.thy ===== *)
theory Boot_Spec
  imports Kernel_Main Kernel_Steps Task_Props
begin

text \<open>
  What \<open>kernel_main\<close> makes of the state at entry, component by component: console and tables, the
  messages, the page allocator over the zone the BIOS reports, the empty heap and the first task.
\<close>

section \<open>Memory the boot steps leave alone\<close>

lemma between_low:
  assumes "between 0x1200 0x10000 a n" and "in_range a n y"
  shows "low_memory y"
  using assms in_range_nat [of a n y] by (simp add: between_def low_memory_def vga_nat in_range_nat)

lemma apart_range:
  assumes "between 0x1200 0x10000 a n" and "between 0x1200 0x10000 b k" and "apart a n b k" and "in_range a n y"
  shows "\<not> in_range b k y"
  using assms in_range_nat [of a n y] in_range_nat [of b k y] by (auto simp: between_def apart_def)

lemma bios_low: "in_range 0x1100 256 y \<Longrightarrow> low_memory y \<and> \<not> vga y"
  by (simp add: in_range_nat low_memory_def vga_nat)

lemma bios_not_table: "between 0x1200 0x10000 a n \<Longrightarrow> in_range 0x1100 256 y \<Longrightarrow> \<not> in_range a n y"
  using in_range_nat [of a n y] by (simp add: in_range_nat between_def)

lemma bios_map_cong:
  assumes "\<And>y. in_range 0x1100 256 y \<Longrightarrow> m' y = m y"
  shows "check_memory_times m' = check_memory_times m"
    and "i < 12 \<Longrightarrow> check_memory_item_at m' i = check_memory_item_at m i"
proof -
  have "load16 m' 0x1100 = load16 m 0x1100"
    using assms in_range_weaken [of "0x1100" 2 _ 256] by (intro load16_cong) simp
  then show "check_memory_times m' = check_memory_times m"
    by (simp add: check_memory_times_def)
  assume i: "i < 12"
  have "load32 m' (0x1102 + of_nat (20 * i) + of_nat k) = load32 m (0x1102 + of_nat (20 * i) + of_nat k)" if "k \<le> 16" for k
  proof (rule load32_cong)
    fix y
    assume "in_range (0x1102 + of_nat (20 * i) + of_nat k) 4 y"
    then have "in_range (0x1100 + of_nat (2 + 20 * i + k)) 4 y"
      by (simp add: add.assoc)
    then show "m' y = m y"
      using in_range_sub [of "0x1100" "2 + 20 * i + k" 4 y 256] i that assms by simp
  qed
  from this [of 0] this [of 4] this [of 8] this [of 12] this [of 16]
  show "check_memory_item_at m' i = check_memory_item_at m i"
    by (simp add: check_memory_item_at_def Let_def)
qed

lemma boot_zone_cong:
  assumes "boot_zone m k" and "\<And>y. in_range 0x1100 256 y \<Longrightarrow> m' y = m y"
  shows "boot_zone m' k"
proof -
  have "i < 12 \<Longrightarrow> check_memory_item_at m' i = check_memory_item_at m i" for i
    by (rule bios_map_cong(2) [OF assms(2)])
  then show ?thesis
    using assms(1) bios_map_cong(1) [of m' m, OF assms(2)] by (simp add: boot_zone_def)
qed

section \<open>Console and tables\<close>

lemma console_init_frame:
  shows "con_inv (console_init s)" and "outside_vga_same (ram s) (ram (console_init s))"
    and "console.more (console_init s) = console.more s"
proof -
  have blank: "ram (console_init s) = mem_write (ram s) MEM_BASE (concat (replicate 8192 [0x20, 0x07]))"
    and inv: "con_inv (console_init s)"
    using console_init_blank [of s] by blast+
  show "con_inv (console_init s)"
    by (rule inv)
  have "length (concat (replicate 8192 [0x20, 0x07 :: u8])) = 2 * 8192"
    by (simp add: length_concat_replicate del: replicate_numeral)
  then show "outside_vga_same (ram s) (ram (console_init s))"
    unfolding blank by (intro outside_vga_write) (simp_all del: replicate_numeral)
  show "console.more (console_init s) = console.more s"
    by (simp add: console_init_def console_clear_def set_screen_def set_cursor_def out_byte_def Let_def)
qed

lemma load64_shift:
  assumes "\<And>j. j < 8 \<Longrightarrow> m' (a + of_nat j) = m (b + of_nat j)"
  shows "load64 m' a = load64 m b"
  using assms [of 0] assms [of 1] assms [of 2] assms [of 3] assms [of 4] assms [of 5] assms [of 6] assms [of 7]
  by (simp add: load64_def load32_def add.assoc)

text \<open>The tables the processor uses after boot; \<open>m\<close> is the memory and \<open>b\<close> the table of the loader.\<close>

definition tables_ready :: "kernel_layout \<Rightarrow> mem \<Rightarrow> u32 \<Rightarrow> 'a task_state_scheme \<Rightarrow> bool" where
  "tables_ready L m b s \<longleftrightarrow> gdtr s = \<lparr>xdt_limit = 2047, xdt_base = l_gdt L\<rparr>
     \<and> idtr s = \<lparr>xdt_limit = 2048, xdt_base = l_idt L\<rparr>
     \<and> (\<forall>i<4. table_entry (ram s) (l_gdt L) i = table_entry m b i)
     \<and> flat_user_segment 8 (word_gdt_item (table_entry (ram s) (l_gdt L) 4))
     \<and> flat_user_segment 2 (word_gdt_item (table_entry (ram s) (l_gdt L) 5))
     \<and> (\<forall>i<256. gate_target (word_gate (table_entry (ram s) (l_idt L) i)) = gate_handler (l_entries L) i)"

lemma table_entry_cong:
  assumes "\<And>y. in_range tbl 2048 y \<Longrightarrow> m' y = m y" and "i < 256"
  shows "table_entry m' tbl i = table_entry m tbl i"
proof -
  have "in_range tbl 2048 y" if "in_range (tbl + of_nat (8 * i)) 8 y" for y
    using in_range_sub [OF that, of 2048] assms(2) by simp
  then show ?thesis
    unfolding table_entry_def using assms(1) by (intro load64_cong) simp
qed

lemma tables_ready_frame:
  assumes "tables_ready L m b s" and "between 0x1200 0x10000 (l_gdt L) 2048" and "between 0x1200 0x10000 (l_idt L) 2048"
    and "\<And>y. low_memory y \<Longrightarrow> ram s' y = ram s y" and "gdtr s' = gdtr s" and "idtr s' = idtr s"
  shows "tables_ready L m b s'"
proof -
  have "table_entry (ram s') (l_gdt L) i = table_entry (ram s) (l_gdt L) i"
    "table_entry (ram s') (l_idt L) i = table_entry (ram s) (l_idt L) i" if "i < 256" for i
    using between_low [OF assms(2)] between_low [OF assms(3)] assms(4) that by (intro table_entry_cong; simp)+
  then show ?thesis
    using assms(1,5,6) by (simp add: tables_ready_def)
qed

text \<open>What the first three calls leave of everything else.\<close>

definition table_frame :: "kernel_layout \<Rightarrow> 'a task_state_scheme \<Rightarrow> 'a task_state_scheme \<Rightarrow> bool" where
  "table_frame L s s' \<longleftrightarrow> printk_buf s' = printk_buf s \<and> g_physics_memory_map s' = g_physics_memory_map s
     \<and> bucket_dir s' = bucket_dir s \<and> free_bucket_desc s' = free_bucket_desc s \<and> table_state.more s' = table_state.more s
     \<and> (\<forall>y. \<not> vga y \<longrightarrow> \<not> in_range (l_gdt L) 2048 y \<longrightarrow> \<not> in_range (l_idt L) 2048 y \<longrightarrow> ram s' y = ram s y)"

lemma console_init_more:
  fixes s :: "'a task_state_scheme"
  shows "printk_buf (console_init s) = printk_buf s" "g_physics_memory_map (console_init s) = g_physics_memory_map s"
    "bucket_dir (console_init s) = bucket_dir s" "free_bucket_desc (console_init s) = free_bucket_desc s"
    "gdtr (console_init s) = gdtr s" "table_state.more (console_init s) = table_state.more s"
  by (simp_all add: console_init_def console_clear_def set_screen_def set_cursor_def out_byte_def Let_def)

lemma malloc_truncate:
  fixes s s' :: "'a malloc_state_scheme"
  assumes "malloc_state.truncate (s'\<lparr>ram := ram s\<rparr>) = malloc_state.truncate s"
  shows "con_inv s' = con_inv s" "printk_buf s' = printk_buf s" "g_physics_memory_map s' = g_physics_memory_map s"
    "bucket_dir s' = bucket_dir s" "free_bucket_desc s' = free_bucket_desc s"
  using assms by (simp_all add: malloc_state.truncate_def con_inv_def)

lemma idt_init_frame:
  fixes s :: "'a task_state_scheme"
  shows "con_inv (idt_init hs tbl s) = con_inv s" "printk_buf (idt_init hs tbl s) = printk_buf s"
    "g_physics_memory_map (idt_init hs tbl s) = g_physics_memory_map s" "bucket_dir (idt_init hs tbl s) = bucket_dir s"
    "free_bucket_desc (idt_init hs tbl s) = free_bucket_desc s" "gdtr (idt_init hs tbl s) = gdtr s"
    "idtr (idt_init hs tbl s) = \<lparr>xdt_limit = 2048, xdt_base = tbl\<rparr>"
    "table_state.more (idt_init hs tbl s) = table_state.more s"
    "\<not> in_range tbl 2048 y \<Longrightarrow> ram (idt_init hs tbl s) y = ram s y"
  using gate_loop_other [of 256 tbl y hs "ram s"]
  by (simp_all add: idt_init_def Let_def con_inv_def write_xdt_ptr_def)

lemma tables_set_up:
  fixes s :: "'a task_state_scheme"
  assumes static: "boot_static s" and layout: "boot_layout L nm s"
  obtains s2 where "gdt_init (l_gdt L) (console_init s) = Some s2" and "log_inv (idt_init (l_entries L) (l_idt L) s2)"
    and "table_frame L s (idt_init (l_entries L) (l_idt L) s2)"
    and "tables_ready L (ram s) (xdt_base (gdtr s)) (idt_init (l_entries L) (l_idt L) s2)"
proof -
  let ?s1 = "console_init s"
  have limit: "xdt_limit (gdtr ?s1) = 32" and old: "unat (xdt_base (gdtr s)) + 32 \<le> 0x1200"
    and gdt: "between 0x1200 0x10000 (l_gdt L) 2048" and idt: "between 0x1200 0x10000 (l_idt L) 2048"
    and apart: "apart (l_gdt L) 2048 (l_idt L) 2048"
    using static layout by (simp_all add: boot_static_def boot_layout_def console_init_more)
  have "unat (l_gdt L - xdt_base (gdtr ?s1)) = unat (l_gdt L) - unat (xdt_base (gdtr s))"
    using old gdt by (subst unat_sub_small) (simp_all add: between_def console_init_more)
  then have far: "32 \<le> unat (l_gdt L - xdt_base (gdtr ?s1))"
    using old gdt unfolding between_def by linarith
  obtain s2 where run: "gdt_init (l_gdt L) ?s1 = Some s2" and s2: "gdtr s2 = \<lparr>xdt_limit = 2047, xdt_base = l_gdt L\<rparr>"
      "mem_bytes (ram s2) (l_gdt L) 32 = mem_bytes (ram ?s1) (xdt_base (gdtr s)) 32"
      "flat_user_segment 8 (word_gdt_item (table_entry (ram s2) (l_gdt L) 4))"
      "flat_user_segment 2 (word_gdt_item (table_entry (ram s2) (l_gdt L) 5))"
      "\<And>x. \<not> in_range (l_gdt L) 48 x \<Longrightarrow> ram s2 x = ram ?s1 x"
    and same: "malloc_state.truncate (s2\<lparr>ram := ram ?s1\<rparr>) = malloc_state.truncate ?s1" "table_state.more s2 = table_state.more ?s1"
    using gdt_init_ok [of ?s1 "l_gdt L"] limit far by (auto simp: console_init_more)
  let ?s3 = "idt_init (l_entries L) (l_idt L) s2"
  note fields = malloc_truncate [OF same(1)]
  have "log_inv ?s3"
    using static console_init_frame(1) [of s] fields
    by (simp add: log_inv_def boot_static_def idt_init_frame console_init_more)
  moreover have "table_frame L s ?s3"
  proof -
    have "ram ?s3 y = ram s y" if "\<not> vga y" "\<not> in_range (l_gdt L) 2048 y" "\<not> in_range (l_idt L) 2048 y" for y
      using that idt_init_frame(9) [OF that(3), of "l_entries L" s2] s2(5) [of y] console_init_frame(2) [of s] in_range_weaken [of "l_gdt L" 48 y 2048]
      by (auto simp: outside_vga_same_def)
    then show ?thesis
      using fields same(2) by (simp add: table_frame_def idt_init_frame console_init_more)
  qed
  moreover have "tables_ready L (ram s) (xdt_base (gdtr s)) ?s3"
  proof -
    have gdt3: "table_entry (ram ?s3) (l_gdt L) i = table_entry (ram s2) (l_gdt L) i" if "i < 256" for i
      using apart_range [OF gdt idt apart] that by (intro table_entry_cong) (simp_all add: idt_init_frame)
    have "table_entry (ram s2) (l_gdt L) i = table_entry (ram s) (xdt_base (gdtr s)) i" if "i < 4" for i
      unfolding table_entry_def
    proof (rule load64_shift)
      fix j :: nat
      assume j: "j < 8"
      have "ram s2 (l_gdt L + of_nat (8 * i + j)) = mem_bytes (ram s2) (l_gdt L) 32 ! (8 * i + j)"
        using that j by (subst nth_mem_bytes) simp_all
      also have "\<dots> = ram ?s1 (xdt_base (gdtr s) + of_nat (8 * i + j))"
        unfolding s2(2) using that j by (subst nth_mem_bytes) simp_all
      also have "\<dots> = ram s (xdt_base (gdtr s) + of_nat (8 * i + j))"
      proof -
        have "unat (xdt_base (gdtr s) + of_nat (8 * i + j)) = unat (xdt_base (gdtr s)) + (8 * i + j)"
          using old that j by (intro unat_add_small) simp
        then have "\<not> vga (xdt_base (gdtr s) + of_nat (8 * i + j))"
          using old that j by (simp add: vga_nat)
        then show ?thesis
          using console_init_frame(2) [of s] by (simp add: outside_vga_same_def)
      qed
      finally show "ram s2 (l_gdt L + of_nat (8 * i) + of_nat j) = ram s (xdt_base (gdtr s) + of_nat (8 * i) + of_nat j)"
        by (simp add: add.assoc)
    qed
    then show ?thesis
      using gdt3 s2(1,3,4) by (simp add: tables_ready_def idt_init_gate set_gate_target idt_init_frame)
  qed
  ultimately show thesis
    using run that by blast
qed

section \<open>Messages\<close>

lemma item_text:
  "\<exists>out. vsprintf m (cstr ''%x, %x, %x, %x, %d'' @ [10]) [Slot a, Slot b, Slot c, Slot d, Slot e] = Some (out, m)
    \<and> length out \<le> 1023"
  using length_hex_lower [of a] length_hex_lower [of b] length_hex_lower [of c] length_hex_lower [of d] length_dec_signed [of e]
  by (simp add: vsprintf_def format_simps [simplified])

lemma print_items_log:
  "log_inv s \<Longrightarrow> iflag s \<Longrightarrow> \<exists>s'. print_items i n s = Some s' \<and> log_inv s' \<and> log_frame s s' \<and> iflag s'"
proof (induction n arbitrary: i s)
  case (Suc n)
  let ?t = "check_memory_item_at (ram s) i"
  obtain s1 where s1: "print_message (cstr ''%x, %x, %x, %x, %d'' @ [10])
      [Slot (base_addr_high ?t), Slot (base_addr_low ?t), Slot (length_high ?t), Slot (length_low ?t), Slot (item_type ?t)] s = Some s1"
    "log_inv s1" "log_frame s s1" "iflag s1"
    using item_text [of "ram s"] printk_message [OF Suc.prems(1)] by metis
  obtain s' where "print_items (i + 1) n s1 = Some s'" "log_inv s'" "log_frame s1 s'" "iflag s'"
    using Suc.IH [OF s1(2,4)] by blast
  then show ?case
    using s1 log_frame_trans by (auto simp: Let_def)
qed simp

text \<open>What the boot steps between the tables and the page allocator keep.\<close>

definition boot_frame :: "'a memory_state_scheme \<Rightarrow> 'a memory_state_scheme \<Rightarrow> bool" where
  "boot_frame s s' \<longleftrightarrow> memory_state.more s' = memory_state.more s \<and> g_physics_memory_map s' = g_physics_memory_map s
     \<and> (\<forall>y. \<not> vga y \<longrightarrow> ram s' y = ram s y)"

lemma boot_frame_trans: "boot_frame s t \<Longrightarrow> boot_frame t u \<Longrightarrow> boot_frame s u"
  by (simp add: boot_frame_def)

lemma log_frame_boot: "log_frame s s' \<Longrightarrow> boot_frame s s'"
  using log_frame_memory [of s s'] by (simp add: boot_frame_def log_frame_def outside_vga_same_def)

lemma boot_message:
  assumes "log_inv s" and "ch CHR ''%'' \<notin> set f" and "length f \<le> 1023"
  obtains s' where "print_message f [] s = Some s'" and "log_inv s'" and "boot_frame s s'" and "iflag s'"
  by (rule text_message [OF assms]) (use log_frame_boot that in blast)

lemma clock_init_boot:
  fixes s :: "'a memory_state_scheme"
  shows "log_inv (clock_init s) = log_inv s" "boot_frame s (clock_init s)"
  by (simp_all add: clock_init_def out_byte_def Let_def log_inv_def con_inv_def boot_frame_def)

text \<open>All of the messages: \<open>s\<close> is the state after \<open>idt_init\<close>.\<close>

lemma boot_messages:
  fixes s :: "'a task_state_scheme"
  assumes "log_inv s"
  obtains s5 s6 s7 s8 where "print_message (cstr ''init gdt success ...'' @ [10]) [] s = Some s5"
    and "print_message (cstr ''init idt success ...'' @ [10]) [] s5 = Some s6"
    and "print_message (cstr ''Hello FunsizeOS ...'' @ [10]) [] (clock_init s6) = Some s7"
    and "print_check_memory_info s7 = Some s8" and "log_inv s8" and "boot_frame s s8" and "iflag s8"
proof -
  obtain s5 where s5: "print_message (cstr ''init gdt success ...'' @ [10]) [] s = Some s5" "log_inv s5" "boot_frame s s5"
    by (rule boot_message [OF assms, of "cstr ''init gdt success ...'' @ [10]"]) auto
  obtain s6 where s6: "print_message (cstr ''init idt success ...'' @ [10]) [] s5 = Some s6" "log_inv s6" "boot_frame s5 s6"
    by (rule boot_message [OF s5(2), of "cstr ''init idt success ...'' @ [10]"]) auto
  have clock: "log_inv (clock_init s6)" "boot_frame s6 (clock_init s6)"
    using s6(2) clock_init_boot [of s6] by simp_all
  obtain s7 where s7: "print_message (cstr ''Hello FunsizeOS ...'' @ [10]) [] (clock_init s6) = Some s7" "log_inv s7"
      "boot_frame (clock_init s6) s7" "iflag s7"
    by (rule boot_message [OF clock(1), of "cstr ''Hello FunsizeOS ...'' @ [10]"]) auto
  obtain s8 where s8: "print_check_memory_info s7 = Some s8" "log_inv s8" "log_frame s7 s8" "iflag s8"
    using print_items_log [OF s7(2,4), of 0 "check_memory_times (ram s7)"] by (auto simp: print_check_memory_info_def)
  have "boot_frame s s8"
    using s5(3) s6(3) clock(2) s7(3) log_frame_boot [OF s8(3)] boot_frame_trans by blast
  then show thesis
    using that s5 s6 s7 s8 by blast
qed

section \<open>Up to the first task\<close>

text \<open>The state in which \<open>task_init\<close> is called.\<close>

definition early_done :: "kernel_layout \<Rightarrow> u8 list \<Rightarrow> nat \<Rightarrow> 'a task_state_scheme \<Rightarrow> 'a task_state_scheme \<Rightarrow> bool" where
  "early_done L nm k s s' \<longleftrightarrow> mem_ok s' \<and> allocated s' = {} \<and> used s' = 0
     \<and> npages s' = unat (length_low (check_memory_item_at (ram s) k)) div 4096
     \<and> bucket_dir s' = initial_bucket_dir \<and> free_bucket_desc s' = 0
     \<and> tasks s' = replicate 64 0 \<and> current s' = 0 \<and> keymap s' = keymap s
     \<and> task_state.more s' = task_state.more s \<and> iflag s' \<and> c_string (ram s') (l_idle_name L) nm \<and> tables_ready L (ram s) (xdt_base (gdtr s)) s'"

lemma early_memory:
  assumes zone: "boot_zone (ram s) k" and layout: "boot_layout L nm s" and frame: "table_frame L s s3" "boot_frame s3 s8"
    and log: "log_inv s8"
  obtains s9 s10 where "memory_init (l_src_file L) s8 = Some s9" and "memory_map_int (l_src_file L) s9 = Some s10"
    and "mem_wf s10" and "npages s10 = unat (length_low (check_memory_item_at (ram s) k)) div 4096"
    and "allocated s10 = {}" and "used s10 = used s" and "memory_state.more s10 = memory_state.more s8"
    and "iflag s10 = iflag s8" and "\<forall>y. low_memory y \<longrightarrow> ram s10 y = ram s3 y"
proof -
  have tables: "between 0x1200 0x10000 (l_gdt L) 2048" "between 0x1200 0x10000 (l_idt L) 2048"
    using layout by (simp_all add: boot_layout_def)
  have bios: "ram s8 y = ram s y" if "in_range 0x1100 256 y" for y
    using frame bios_low [OF that] bios_not_table [OF tables(1) that] bios_not_table [OF tables(2) that]
    by (simp add: table_frame_def boot_frame_def)
  have item: "check_memory_item_at (ram s8) k = check_memory_item_at (ram s) k"
    using bios_map_cong(2) [of "ram s8" "ram s" k, OF bios] zone by (simp add: boot_zone_def)
  have zone8: "boot_zone (ram s8) k"
    by (rule boot_zone_cong [OF zone bios])
  have args: "k < check_memory_times (ram s8)" "base_addr_low (check_memory_item_at (ram s8) k) = VALID_MEMORY_FROM"
    "item_type (check_memory_item_at (ram s8) k) = ZONE_VALID"
    "\<And>j. j < k \<Longrightarrow> base_addr_low (check_memory_item_at (ram s8) j) \<noteq> VALID_MEMORY_FROM"
    "length_low (check_memory_item_at (ram s8) k) < 0x10000000"
    using zone8 by (simp_all add: boot_zone_def word_less_nat_alt)
  obtain s9 s10 where run: "memory_init (l_src_file L) s8 = Some s9" "memory_map_int (l_src_file L) s9 = Some s10"
    and s10: "mem_wf s10" "npages s10 = unat (length_low (check_memory_item_at (ram s8) k)) div 4096" "allocated s10 = {}"
      "used s10 = used s8" "\<forall>x. \<not> in_range 0x10000 0x10000 x \<longrightarrow> ram s10 x = ram s8 x"
      "memory_state.more s10 = memory_state.more s8" "iflag s10 = iflag s8"
    using memory_ready [OF log args, of "l_src_file L"] by blast
  have "used s8 = used s"
    using frame by (simp add: used_def table_frame_def boot_frame_def)
  moreover have "ram s10 y = ram s3 y" if "low_memory y" for y
    using s10(5) that frame(2) by (simp add: low_memory_def boot_frame_def)
  ultimately show thesis
    using that run s10 item by simp
qed

lemma early_main_ok:
  fixes s :: "'a task_state_scheme"
  assumes "boot_ok L nm k s"
  shows "\<exists>s'. early_main L s = Some s' \<and> early_done L nm k s s'"
proof -
  have static: "boot_static s" and layout: "boot_layout L nm s" and zone: "boot_zone (ram s) k"
    using assms by (simp_all add: boot_ok_def)
  obtain s2 where gdt: "gdt_init (l_gdt L) (console_init s) = Some s2" and log: "log_inv (idt_init (l_entries L) (l_idt L) s2)"
    and frame: "table_frame L s (idt_init (l_entries L) (l_idt L) s2)"
    and ready: "tables_ready L (ram s) (xdt_base (gdtr s)) (idt_init (l_entries L) (l_idt L) s2)"
    by (rule tables_set_up [OF static layout])
  define s3 where "s3 = idt_init (l_entries L) (l_idt L) s2"
  note log = log [folded s3_def] and frame = frame [folded s3_def] and ready = ready [folded s3_def]
  obtain s5 s6 s7 s8 where logs: "print_message (cstr ''init gdt success ...'' @ [10]) [] s3 = Some s5"
    "print_message (cstr ''init idt success ...'' @ [10]) [] s5 = Some s6"
    "print_message (cstr ''Hello FunsizeOS ...'' @ [10]) [] (clock_init s6) = Some s7"
    "print_check_memory_info s7 = Some s8" and s8: "log_inv s8" "boot_frame s3 s8" "iflag s8"
    by (rule boot_messages [OF log])
  obtain s9 s10 where mem: "memory_init (l_src_file L) s8 = Some s9" "memory_map_int (l_src_file L) s9 = Some s10"
    and s10: "mem_wf s10" "npages s10 = unat (length_low (check_memory_item_at (ram s) k)) div 4096" "allocated s10 = {}"
      "used s10 = used s" "memory_state.more s10 = memory_state.more s8" "iflag s10 = iflag s8"
      "\<forall>y. low_memory y \<longrightarrow> ram s10 y = ram s3 y"
    by (rule early_memory [OF zone layout frame s8(2,1)])
  have more: "memory_state.more s10 = memory_state.more s3"
    using s10(5) s8(2) by (simp add: boot_frame_def)
  then have fields: "bucket_dir s10 = bucket_dir s3" "free_bucket_desc s10 = free_bucket_desc s3" "gdtr s10 = gdtr s3"
    "idtr s10 = idtr s3" "table_state.more s10 = table_state.more s3"
    by (cases s10 rule: table_state.cases_scheme, cases s3 rule: table_state.cases_scheme, simp)+
  have tasks: "tasks s10 = tasks s" "current s10 = current s" "keymap s10 = keymap s" "task_state.more s10 = task_state.more s"
    using fields(5) frame
    by (cases s10 rule: task_state.cases_scheme, cases s rule: task_state.cases_scheme, simp add: table_frame_def)+
  have "early_main L s = Some s10"
    using gdt logs mem by (simp add: early_main_def Let_def s3_def)
  moreover have "c_string (ram s10) (l_idle_name L) nm"
  proof -
    have "ram s10 y = ram s y" if y: "in_range (l_idle_name L) (length nm + 1) y" for y
    proof -
      have "low_memory y" "\<not> in_range (l_gdt L) 2048 y" "\<not> in_range (l_idt L) 2048 y"
        using layout y between_low [of "l_idle_name L" "length nm + 1" y]
          apart_range [of "l_idle_name L" "length nm + 1" "l_gdt L" 2048 y]
          apart_range [of "l_idle_name L" "length nm + 1" "l_idt L" 2048 y]
        by (auto simp: boot_layout_def apart_def)
      then show ?thesis
        using s10(7) frame by (simp add: table_frame_def low_memory_def)
    qed
    then show ?thesis
      using layout c_string_cong [of "l_idle_name L" nm "ram s10" "ram s"] by (simp add: boot_layout_def)
  qed
  moreover have "tables_ready L (ram s) (xdt_base (gdtr s)) s10"
    by (rule tables_ready_frame [OF ready]) (use layout s10(7) fields in \<open>simp_all add: boot_layout_def\<close>)
  moreover have "used s = 0"
    using static by (simp add: boot_static_def used_def)
  ultimately show ?thesis
    using s10 s8(3) static fields tasks frame
    by (simp add: early_done_def mem_ok_def boot_static_def table_frame_def)
qed

lemma early_kernel_inv:
  fixes s :: "'a task_state_scheme"
  assumes "early_done L nm k s0 s"
  shows "kernel_inv s empty_view" and "objects s empty_view = {}"
proof -
  have own: "owned_pages s = {}" and ok: "mem_ok s" and dir: "bucket_dir s = initial_bucket_dir" "free_bucket_desc s = 0"
    and tasks: "tasks s = replicate 64 0" "current s = 0"
    using assms by (simp_all add: early_done_def owned_pages_def)
  have "heap_rep s empty_view"
    using ok own dir by (simp add: heap_rep_def empty_view_heap)
  then show "kernel_inv s empty_view"
    using tasks by (simp add: kernel_inv_def del: replicate_numeral)
  show "objects s empty_view = {}"
    by (simp add: objects_def live_def empty_view_def in_chain_def)
qed

text \<open>The state \<open>kernel_main\<close> ends in, with the idle task \<open>t\<close>.\<close>

definition kernel_up :: "kernel_layout \<Rightarrow> u8 list \<Rightarrow> 'a task_state_scheme \<Rightarrow> 'a task_state_scheme \<Rightarrow> u32 \<Rightarrow> heap_view \<Rightarrow> bool" where
  "kernel_up L nm s s' t H \<longleftrightarrow> kernel_inv s' H \<and> objects s' H = {(t, 4096)} \<and> t \<noteq> 0 \<and> tasks s' = t # replicate 63 0
     \<and> current s' = 0 \<and> keymap s' = keymap s \<and> iflag s' \<and> task_state.more s' = task_state.more s
     \<and> field (ram s') t off_pid = 0 \<and> field (ram s') t off_ppid = 0 \<and> field (ram s') t off_state = TASK_READY
     \<and> field (ram s') t tss_eip = l_idle L \<and> field (ram s') t tss_esp0 = t + PAGE_SIZE
     \<and> c_string (ram s') (t + off_name) nm \<and> tables_ready L (ram s) (xdt_base (gdtr s)) s'"

lemma kernel_main_ok:
  fixes s :: "'a task_state_scheme"
  assumes "boot_ok L nm k s"
  obtains s' t H where "kernel_main L s = Some s'" and "kernel_up L nm s s' t H"
proof -
  have layout: "boot_layout L nm s" and zone: "boot_zone (ram s) k"
    using assms by (simp_all add: boot_ok_def)
  obtain s1 where early: "early_main L s = Some s1" and s1: "early_done L nm k s s1"
    using early_main_ok [OF assms] by blast
  note inv = early_kernel_inv [OF s1]
  have "avail s1 = {0..<npages s1}" "2 \<le> npages s1"
    using s1 zone by (simp_all add: early_done_def avail_def boot_zone_def less_eq_div_iff_mult_less_eq)
  then have two: "2 \<le> card (avail s1)"
    by simp
  have slot: "empty_slot (tasks s1) 0 = Some 0"
    using s1 by (simp add: early_done_def)
  have name: "c_string (ram s1) (l_idle_name L) nm" "length nm \<le> 31" "unat (l_idle_name L) + length nm + 1 \<le> 0x10000"
    using s1 layout by (simp_all add: early_done_def boot_layout_def between_def)
  obtain t s' H where run: "create_task (l_idle_name L) (l_idle L) 1 s1 = Some (t, s')"
    and made: "task_created s1 empty_view 0 nm (l_idle L) t s' H"
    using create_task_ok [OF inv(1) two slot name] by blast
  have page: "t \<noteq> 0" "0x100000 \<le> unat t"
    using page_object(4,5) [of s' H t] made inv(2) kernel_invD(1) by (auto simp: task_created_def)
  have low: "ram s' y = ram s1 y" if "low_memory y" for y
    using made that page(2) low_memory_page [OF that] by (auto simp: task_created_def untouched_def)
  have "tables_ready L (ram s) (xdt_base (gdtr s)) s'"
    by (rule tables_ready_frame [of L "ram s" "xdt_base (gdtr s)" s1])
      (use s1 layout low made in \<open>simp_all add: early_done_def boot_layout_def task_created_def\<close>)
  moreover have "tasks s' = t # replicate 63 0"
  proof -
    have "replicate 64 0 = 0 # replicate 63 (0 :: u32)"
      by (simp flip: replicate_Suc)
    then show ?thesis
      using made s1 by (simp add: task_created_def early_done_def del: replicate_numeral)
  qed
  ultimately have "kernel_up L nm s s' t H"
    using made inv(2) s1 page(1) unfolding kernel_up_def task_created_def early_done_def by simp
  moreover have "kernel_main L s = Some s'"
    using early run made by (simp add: kernel_main_def task_init_def task_created_def STI_def)
  ultimately show thesis
    using that by blast
qed

end
