(* ===== verification/Boot_Props.thy ===== *)
theory Boot_Props
  imports Boot_Spec
begin

text \<open>
  The properties of the kernel from its entry on: what \<open>kernel_main\<close> sets up, the first clock interrupts
  after it, every run from there, and a clock interrupt that comes too early.
\<close>

section \<open>From boot to the first step\<close>

lemma boot_cpu_inv:
  fixes s :: "'a cpu_state_scheme"
  assumes boot: "boot_ok L nm k s" and up: "kernel_up L nm s s' t H" and stack: "\<forall>y. in_range (esp (regs s) - 20) 20 y \<longrightarrow> low_memory y"
  shows "cpu_inv s' H" and "ready_tasks s' = []" and "tasks s' ! 0 = t"
proof -
  have tasks: "tasks s' = t # replicate 63 0" and cur: "current s' = 0"
    using up by (simp_all add: kernel_up_def)
  have "regs s' = regs s"
    using up more_cpu [of s' s] by (simp add: kernel_up_def)
  then have "stack_ok s'"
    using stack cur by (simp add: stack_ok_def)
  moreover have "idle_waits s'"
    using up tasks by (auto simp: idle_waits_def kernel_up_def intro!: exI [of _ PAGE_SIZE])
  moreover have "kbd_inv s'"
    using boot up kbd_inv_cong [OF sample_keyboard_inv(1), of s'] kernel_invD(7) [of s' H]
    by (simp add: kernel_up_def boot_ok_def boot_static_def sample_keyboard_def table_state.extend_def keyboard_state.fields_def)
  ultimately show "cpu_inv s' H"
    using up tasks by (simp add: cpu_inv_def kernel_up_def)
  show "ready_tasks s' = []" "tasks s' ! 0 = t"
    using tasks by (simp_all add: ready_tasks_def del: replicate_numeral)
qed

lemma kernel_main_up:
  fixes s :: "'a cpu_state_scheme"
  assumes "boot_ok L nm k s" and "kernel_main L s = Some s'"
  obtains t H where "kernel_up L nm s s' t H"
proof (rule kernel_main_ok [OF assms(1)])
  fix u t H
  assume "kernel_main L s = Some u" and "kernel_up L nm s u t H"
  then show thesis
    using that assms(2) by simp
qed

text \<open>The machine of the witnesses: two pages, both tables and the name below \<open>0x10000\<close>.\<close>

definition sample_layout :: kernel_layout where
  "sample_layout = \<lparr>l_gdt = 0x6000, l_idt = 0x7000, l_entries = \<lparr>interrupt_handler_entry = 0x8000,
     interrupt_handler_table = (\<lambda>i. 0x9000 + of_nat i), clock_handler_entry = 0xA000, keymap_handler_entry = 0xB000\<rparr>,
     l_src_file = cstr ''memory.c'', l_idle_name = 0x5000, l_idle = 0x2000\<rparr>"

definition sample_boot :: cpu_state where
  "sample_boot = sample_cpu\<lparr>ram := ards_memory, gdtr := \<lparr>xdt_limit = 32, xdt_base = 0x900\<rparr>\<rparr>"

lemma ards_memory_map:
  "check_memory_times ards_memory = 1"
  "check_memory_item_at ards_memory 0 = \<lparr>base_addr_low = 0x100000, base_addr_high = 0, length_low = 0x2000,
     length_high = 0, item_type = 1\<rparr>"
  by (simp_all add: check_memory_times_def check_memory_item_at_def load16_def load32_def ards_memory_def mem_write_def
      in_range_def Let_def)

lemma sample_boot_ok: "boot_ok sample_layout [] 0 sample_boot"
proof -
  have "boot_static sample_boot"
    using sample_cpu_inv(1)
    by (simp add: boot_static_def sample_boot_def sample_cpu_def task_state.extend_def keyboard_state.extend_def
        task_state.fields_def cpu_state.fields_def sample_keyboard_def keyboard_state.fields_def table_state.extend_def
        sample_tables_def malloc_state.extend_def table_state.fields_def sample_heap_def memory_state.extend_def
        malloc_state.fields_def sample_memory_def del: replicate_numeral)
  moreover have "boot_layout sample_layout [] sample_boot"
    by (simp add: boot_layout_def sample_layout_def sample_boot_def between_def apart_def ards_memory_def mem_write_def in_range_def)
  moreover have "boot_zone (ram sample_boot) 0"
    by (simp add: boot_zone_def sample_boot_def ards_memory_map)
  ultimately show ?thesis
    by (simp add: boot_ok_def)
qed

lemma sample_boot_stack: "\<forall>y. in_range (esp (regs sample_boot) - 20) 20 y \<longrightarrow> low_memory y"
proof -
  have "esp (regs sample_boot) = 0x9000"
    by (simp add: sample_boot_def sample_cpu_def task_state.extend_def cpu_state.fields_def)
  then show ?thesis
    by (auto simp: low_memory_def vga_nat in_range_nat)
qed

section \<open>Properties\<close>

text \<open>
  C3: from the state the loader hands over, \<open>kernel_main\<close> returns to its endless loop with exactly one
  object in the heap: the idle task in entry 0, ready, with pid and parent 0, its name, start address
  and an empty stack; no task is current and interrupts are enabled. The descriptor table holds the
  loader's four segments and the two new ones, all 256 gates lead to their handlers, and the state
  satisfies the invariant every run keeps.
\<close>

theorem kernel_main_boots:
  fixes s :: "'a cpu_state_scheme"
  assumes "boot_ok L nm k s" and "\<forall>y. in_range (esp (regs s) - 20) 20 y \<longrightarrow> low_memory y"
  shows "\<exists>s' t H. kernel_main L s = Some s' \<and> cpu_inv s' H \<and> objects s' H = {(t, 4096)}
    \<and> tasks s' = t # replicate 63 0 \<and> current s' = 0 \<and> iflag s' \<and> regs s' = regs s
    \<and> field (ram s') t off_state = TASK_READY \<and> get_task_pid t s' = 0 \<and> get_task_ppid t s' = 0
    \<and> field (ram s') t tss_eip = l_idle L \<and> field (ram s') t tss_esp0 = t + PAGE_SIZE \<and> c_string (ram s') (t + off_name) nm
    \<and> gdtr s' = \<lparr>xdt_limit = 2047, xdt_base = l_gdt L\<rparr> \<and> idtr s' = \<lparr>xdt_limit = 2048, xdt_base = l_idt L\<rparr>
    \<and> (\<forall>i<4. table_entry (ram s') (l_gdt L) i = table_entry (ram s) (xdt_base (gdtr s)) i)
    \<and> flat_user_segment 8 (word_gdt_item (table_entry (ram s') (l_gdt L) 4))
    \<and> flat_user_segment 2 (word_gdt_item (table_entry (ram s') (l_gdt L) 5))
    \<and> (\<forall>i<256. gate_target (word_gate (table_entry (ram s') (l_idt L) i)) = gate_handler (l_entries L) i)"
proof (rule kernel_main_ok [OF assms(1)])
  fix s' t H
  assume run: "kernel_main L s = Some s'" and up: "kernel_up L nm s s' t H"
  have "regs s' = regs s"
    using up more_cpu [of s' s] by (simp add: kernel_up_def)
  then show ?thesis
    using run up boot_cpu_inv(1) [OF assms(1) up assms(2)]
    by (intro exI [of _ s'] exI [of _ t] exI [of _ H]) (simp add: kernel_up_def tables_ready_def get_task_pid_def get_task_ppid_def)
qed

theorem kernel_main_boots_witness:
  "\<exists>s' t. kernel_main sample_layout sample_boot = Some s' \<and> tasks s' = t # replicate 63 0 \<and> current s' = 0
    \<and> field (ram s') t tss_eip = 0x2000 \<and> gate_target (word_gate (table_entry (ram s') 0x7000 32)) = 0xA000"
proof -
  obtain s' t where "kernel_main sample_layout sample_boot = Some s'" "tasks s' = t # replicate 63 0" "current s' = 0"
    "field (ram s') t tss_eip = l_idle sample_layout"
    "\<forall>i<256. gate_target (word_gate (table_entry (ram s') (l_idt sample_layout) i)) = gate_handler (l_entries sample_layout) i"
    using kernel_main_boots [OF sample_boot_ok sample_boot_stack] by blast
  moreover from this(5) have "gate_target (word_gate (table_entry (ram s') (l_idt sample_layout) 32)) = gate_handler (l_entries sample_layout) 32"
    by simp
  ultimately show ?thesis
    by (simp add: sample_layout_def gate_handler_def Let_def del: replicate_numeral)
qed

text \<open>
  C37: after boot the first clock interrupt enters the idle task at its start address, on an empty stack
  and with interrupts enabled.
\<close>

theorem first_tick_enters_idle:
  fixes s :: "'a cpu_state_scheme"
  assumes "boot_ok L nm k s" and "\<forall>y. in_range (esp (regs s) - 20) 20 y \<longrightarrow> low_memory y" and "kernel_main L s = Some s'"
  shows "\<exists>u. clock_interrupt xh eflags cs s' = Some u \<and> current u = tasks s' ! 0 \<and> tasks u = tasks s' \<and> iflag u
    \<and> eip (regs u) = l_idle L \<and> esp (regs u) = tasks s' ! 0 + PAGE_SIZE"
proof -
  obtain t H where up: "kernel_up L nm s s' t H"
    by (rule kernel_main_up [OF assms(1,3)])
  note boot = boot_cpu_inv [OF assms(1) up assms(2)]
  obtain s1 u where u: "clock_interrupt xh eflags cs s' = Some u" and s1: "kernel_inv s1 H" "interrupted s' s1"
    and run: "scheduled xh s1 u"
    by (rule tick_ok [OF boot(1)])
  have t: "t \<in> set (tasks s')" "t \<noteq> 0" "t \<noteq> current s'"
    using up by (simp_all add: kernel_up_def)
  note inv = cpu_invD(1) [OF boot(1)]
  have block: "field (ram s1) t off = field (ram s') t off" if "unat off + 4 \<le> 4096" for off
    using interrupted_other [OF inv s1(2) t] by (intro field_cong [OF task_page(1) [OF inv t(1,2)] that])
  have tasks: "tasks s1 = tasks s'"
    using s1(2) by (simp add: interrupted_def)
  have none: "ready_tasks s1 = []"
    using interrupted_queue [OF inv s1(2)] boot(2) by simp
  have "current u = t \<and> regs u = resume_regs (ram s1) t (field (ram s1) t tss_esp0)"
    using run by (cases rule: scheduled_cases) (use none tasks boot(3) in simp_all)
  then show ?thesis
    using u run up tasks boot(3) block
    by (intro exI [of _ u]) (simp add: scheduled_def resume_regs_def kernel_up_def)
qed

theorem first_tick_enters_idle_witness:
  "\<exists>s' u. kernel_main sample_layout sample_boot = Some s' \<and> clock_interrupt 0x3000 2 8 s' = Some u \<and> eip (regs u) = 0x2000"
proof (rule kernel_main_ok [OF sample_boot_ok])
  fix s' assume run: "kernel_main sample_layout sample_boot = Some s'"
  show ?thesis
    using run first_tick_enters_idle [OF sample_boot_ok sample_boot_stack run, of "0x3000" 2 8]
    by (auto simp: sample_layout_def)
qed

text \<open>
  C6: in every state the kernel can reach after boot, by any interleaving of task code, messages, interrupts of
  the clock, the keyboard and other devices, creation and exit of tasks, a clock interrupt is defined and leaves a task of the table
  current, with interrupts enabled.
\<close>

theorem tick_defined_after_boot:
  fixes s :: "'a cpu_state_scheme"
  assumes "boot_ok L nm k s" and "\<forall>y. in_range (esp (regs s) - 20) 20 y \<longrightarrow> low_memory y"
    and "kernel_main L s = Some s'" and "kernel_run xh es s' u"
  shows "\<exists>v. clock_interrupt xh eflags cs u = Some v \<and> current v \<noteq> 0 \<and> current v \<in> set (tasks v) \<and> iflag v"
proof -
  obtain t H where up: "kernel_up L nm s s' t H"
    by (rule kernel_main_up [OF assms(1,3)])
  obtain H' where inv: "cpu_inv u H'"
    using kernel_run_inv [OF assms(4) boot_cpu_inv(1) [OF assms(1) up assms(2)]] by blast
  obtain u1 v where v: "clock_interrupt xh eflags cs u = Some v" "cpu_inv v H'" and run: "scheduled xh u1 v"
    by (rule tick_ok [OF inv])
  have "current v \<noteq> 0"
    using run
  proof (cases rule: scheduled_cases)
    case 1
    then show ?thesis
      using run cpu_invD(2) [OF v(2)] by (simp add: scheduled_def)
  next
    case 2
    then show ?thesis
      using ready_tasks_member(3) [of "hd (ready_tasks u1)" u1] by simp
  qed
  then show ?thesis
    using v run kernel_invD(5) [OF cpu_invD(1) [OF v(2)]] by (auto simp: scheduled_def)
qed

theorem tick_defined_after_boot_witness:
  "\<exists>s' u v. kernel_main sample_layout sample_boot = Some s' \<and> kernel_run 0x3000 [Tick] s' u
    \<and> clock_interrupt 0x3000 2 8 u = Some v \<and> current v \<noteq> 0"
proof (rule kernel_main_ok [OF sample_boot_ok])
  fix s' t H
  assume run: "kernel_main sample_layout sample_boot = Some s'" and up: "kernel_up sample_layout [] sample_boot s' t H"
  obtain u where "kernel_step 0x3000 Tick s' u"
    by (rule next_tick [OF boot_cpu_inv(1) [OF sample_boot_ok up sample_boot_stack], of "0x3000"]) (use up in \<open>simp_all add: kernel_up_def\<close>)
  then have "kernel_run 0x3000 [Tick] s' u"
    using kernel_run.next_step [OF kernel_run.start] by fastforce
  then show ?thesis
    using run tick_defined_after_boot [OF sample_boot_ok sample_boot_stack run, of "0x3000" "[Tick]" u 2 8] by blast
qed



text \<open>
  C12: the static data keeps its shape in every state the kernel can reach after boot: the table has 64
  entries, the key map 96 rows of 4 whose first two columns are the characters it was compiled with,
  the buffer of \<open>printk\<close> 1024 bytes, the bucket directory its sizes and the closing 0; the cursor is at
  most at column 80 of 25 rows, at the address that belongs to it in the 16 KiB of text memory.
\<close>

theorem static_data_keeps_shape:
  fixes s :: "'a cpu_state_scheme"
  assumes "boot_ok L nm k s" and "\<forall>y. in_range (esp (regs s) - 20) 20 y \<longrightarrow> low_memory y"
    and "kernel_main L s = Some s'" and "kernel_run xh es s' u"
  shows "length (tasks u) = 64 \<and> length (keymap u) = 96
    \<and> (\<forall>i<96. length (keymap u ! i) = 4 \<and> take 2 (keymap u ! i) = take 2 (initial_keymap ! i))
    \<and> length (printk_buf u) = 1024 \<and> map bucket_size (bucket_dir u) = map bucket_size initial_bucket_dir
    \<and> con_y u < HEIGHT \<and> con_x u \<le> WIDTH \<and> con_pos u = con_screen u + ROW_SIZE * con_y u + 2 * con_x u
    \<and> MEM_BASE \<le> con_screen u \<and> con_pos u \<le> MEM_END"
proof -
  obtain t H where up: "kernel_up L nm s s' t H"
    by (rule kernel_main_up [OF assms(1,3)])
  obtain H' where inv: "cpu_inv u H'"
    using kernel_run_inv [OF assms(4) boot_cpu_inv(1) [OF assms(1) up assms(2)]] by blast
  note kernel = kernel_invD [OF cpu_invD(1) [OF inv]]
  have log: "con_inv u" "length (printk_buf u) = 1024"
    using kernel(7) by (simp_all add: log_inv_def)
  obtain k r c where pos: "k \<le> 77" "r < 25" "c \<le> 80" "con_screen u = of_nat (0xB8000 + 160 * k)"
    "con_pos u = of_nat (0xB8000 + 160 * k + 160 * r + 2 * c)"
    by (rule con_invE [OF log(1)])
  have "unat (con_screen u) = 0xB8000 + 160 * k" "unat (con_pos u) = 0xB8000 + 160 * k + 160 * r + 2 * c"
    unfolding pos(4,5) using pos(1-3) by (intro unat_of_nat_small; simp)+
  then have "MEM_BASE \<le> con_screen u \<and> con_pos u \<le> MEM_END"
    using pos(1-3) by (simp add: word_le_nat_alt)
  moreover have "length (keymap u ! i) = 4 \<and> take 2 (keymap u ! i) = take 2 (initial_keymap ! i)" if "i < 96" for i
  proof -
    have "key_row (keymap u) i" "key_row (keymap sample_keyboard) i"
      using cpu_invD(6) [OF inv] sample_keyboard_inv(1) that by (simp_all add: kbd_inv_def)
    moreover have "keymap sample_keyboard = initial_keymap"
      by (simp add: sample_keyboard_def table_state.extend_def keyboard_state.fields_def)
    ultimately show ?thesis
      by (auto simp: key_row_def)
  qed
  moreover have "length (keymap u) = 96"
    using cpu_invD(6) [OF inv] by (simp add: kbd_inv_def)
  moreover have "map bucket_size (bucket_dir u) = map bucket_size initial_bucket_dir"
    using kernel(1) by (simp add: heap_rep_def heap_mem_def initial_bucket_dir_def)
  ultimately show ?thesis
    using kernel(2) log by (simp add: con_inv_def)
qed

theorem static_data_keeps_shape_witness:
  "\<exists>s' u. kernel_main sample_layout sample_boot = Some s' \<and> kernel_run 0x3000 [] s' u
    \<and> length (keymap u) = 96 \<and> length (tasks u) = 64"
proof (rule kernel_main_ok [OF sample_boot_ok])
  fix s'
  assume run: "kernel_main sample_layout sample_boot = Some s'"
  show ?thesis
    using run static_data_keeps_shape [OF sample_boot_ok sample_boot_stack run kernel_run.start] kernel_run.start
    by metis
qed

end
