(* ===== verification/Sched_Refine.thy ===== *)
theory Sched_Refine
  imports Boot_Props
begin

text \<open>
  The scheduler without memory: entries of the table that are empty, ready or started, and the number
  of the entry that runs. Every step of the kernel does to this view what the event says.
\<close>

section \<open>The abstract scheduler\<close>

datatype task_status = Ready | Started

record sched_view =
  slots :: "task_status option list"
  running :: "nat option"

definition first_slot :: "(task_status option \<Rightarrow> bool) \<Rightarrow> nat \<Rightarrow> task_status option list \<Rightarrow> nat option" where
  "first_slot P k xs = find (\<lambda>i. P (xs ! i)) [k..<length xs]"

text \<open>The first ready entry from 1 on, or else entry 0.\<close>

definition dispatch :: "task_status option list \<Rightarrow> sched_view" where
  "dispatch xs =
     (case first_slot (\<lambda>x. x = Some Ready) 1 xs of
        None \<Rightarrow> \<lparr>slots = xs, running = Some 0\<rparr>
      | Some i \<Rightarrow> \<lparr>slots = xs[i := Some Started], running = Some i\<rparr>)"

fun sched_event :: "sched_view \<Rightarrow> kernel_event \<Rightarrow> sched_view" where
  "sched_event v Tick = dispatch (slots v)"
| "sched_event v (Create t) =
     (case first_slot (\<lambda>x. x = None) 0 (slots v) of
        None \<Rightarrow> v
      | Some i \<Rightarrow> v\<lparr>slots := (slots v)[i := Some Ready]\<rparr>)"
| "sched_event v Leave =
     (case running v of
        None \<Rightarrow> v
      | Some i \<Rightarrow> dispatch ((slots v)[i := None]))"
| "sched_event v _ = v"

definition slot_status :: "mem \<Rightarrow> u32 \<Rightarrow> task_status option" where
  "slot_status m t = (if t = 0 then None else Some (if field m t off_state = TASK_READY then Ready else Started))"

definition sched_abs :: "'a task_state_scheme \<Rightarrow> sched_view" where
  "sched_abs s = \<lparr>slots = map (slot_status (ram s)) (tasks s),
     running = (if current s = 0 then None else Some (unat (get_task_pid (current s) s)))\<rparr>"

section \<open>Entries\<close>

lemma find_filter: "find P xs = (case filter P xs of [] \<Rightarrow> None | x # _ \<Rightarrow> Some x)"
  by (induction xs) auto

lemma filter_drop_1: "filter P (drop 1 xs) = map ((!) xs) (filter (\<lambda>i. P (xs ! i)) [1..<length xs])"
proof -
  have "drop 1 xs = map ((!) xs) [1..<length xs]"
    using map_nth [of xs] by (metis drop_map drop_upt add_0)
  then show ?thesis
    by (simp add: filter_map o_def)
qed

lemma slot_status_simps [simp]:
  "slot_status m t = None \<longleftrightarrow> t = 0"
  "slot_status m t = Some Ready \<longleftrightarrow> t \<noteq> 0 \<and> field m t off_state = TASK_READY"
  by (simp_all add: slot_status_def)

lemma entry_unique:
  assumes "kernel_inv s H" and "i < 64" and "j < 64" and "tasks s ! i = tasks s ! j" and "tasks s ! j \<noteq> 0"
  shows "i = j"
proof -
  have "(of_nat i :: u32) = of_nat j"
    using kernel_invD(8) [OF assms(1,2)] kernel_invD(8) [OF assms(1,3)] assms(4,5) by (simp add: control_block_def)
  then show ?thesis
    using word_offset_unique [of i j "0 :: u32"] assms(2,3) by simp
qed

lemma running_entry:
  assumes "kernel_inv s H" and "i < 64" and "tasks s ! i = current s" and "current s \<noteq> 0"
  shows "running (sched_abs s) = Some i"
  using kernel_invD(8) [OF assms(1,2)] assms(2-4)
  by (simp add: sched_abs_def get_task_pid_def control_block_def unat_of_nat_small)

lemma first_ready_slot:
  assumes "length (tasks s) = 64"
  shows "first_slot (\<lambda>x. x = Some Ready) 1 (map (slot_status (ram s)) (tasks s))
    = (case filter (\<lambda>i. slot_status (ram s) (tasks s ! i) = Some Ready) [1..<64] of [] \<Rightarrow> None | i # _ \<Rightarrow> Some i)"
    and "ready_tasks s = map ((!) (tasks s)) (filter (\<lambda>i. slot_status (ram s) (tasks s ! i) = Some Ready) [1..<64])"
proof -
  have "filter (\<lambda>i. map (slot_status (ram s)) (tasks s) ! i = Some Ready) [1..<64]
      = filter (\<lambda>i. slot_status (ram s) (tasks s ! i) = Some Ready) [1..<64]"
    using assms by (intro filter_cong) simp_all
  then show "first_slot (\<lambda>x. x = Some Ready) 1 (map (slot_status (ram s)) (tasks s))
    = (case filter (\<lambda>i. slot_status (ram s) (tasks s ! i) = Some Ready) [1..<64] of [] \<Rightarrow> None | i # _ \<Rightarrow> Some i)"
    using assms by (simp add: first_slot_def find_filter)
  show "ready_tasks s = map ((!) (tasks s)) (filter (\<lambda>i. slot_status (ram s) (tasks s ! i) = Some Ready) [1..<64])"
    unfolding ready_tasks_def filter_drop_1 using assms by simp
qed

section \<open>Steps\<close>

lemma sched_abs_same:
  assumes inv: "kernel_inv s H" and same: "tasks s' = tasks s" "current s' = current s"
    and fields: "\<And>t off. t \<in> set (tasks s) \<Longrightarrow> t \<noteq> 0 \<Longrightarrow> unat off + 4 \<le> 188 \<Longrightarrow> field (ram s') t off = field (ram s) t off"
  shows "sched_abs s' = sched_abs s"
proof -
  have "slot_status (ram s') t = slot_status (ram s) t" if "t \<in> set (tasks s)" for t
    using fields [OF that, of off_state] by (simp add: slot_status_def)
  moreover have "current s \<noteq> 0 \<Longrightarrow> get_task_pid (current s) s' = get_task_pid (current s) s"
    using kernel_invD(5) [OF inv] fields [of "current s" off_pid] by (auto simp: get_task_pid_def)
  ultimately show ?thesis
    using same by (simp add: sched_abs_def)
qed

lemma sched_dispatch:
  assumes inv: "kernel_inv s H" and run: "scheduled xh s s'" and inv': "cpu_inv s' H'"
  shows "sched_abs s' = dispatch (slots (sched_abs s))"
proof -
  let ?ready = "filter (\<lambda>i. slot_status (ram s) (tasks s ! i) = Some Ready) [1..<64]"
  have len: "length (tasks s) = 64" and tasks: "tasks s' = tasks s"
    using kernel_invD(2) [OF inv] run by (simp_all add: scheduled_def)
  note first = first_ready_slot [OF len] and states = sched_states(1) [OF inv run] and queue = sched_queue(2) [OF inv run]
  note kernel = cpu_invD(1) [OF inv']
  show ?thesis
  proof (cases ?ready)
    case Nil
    then have none: "ready_tasks s = []"
      using first(2) by simp
    have "slot_status (ram s') t = slot_status (ram s) t" if "t \<in> set (tasks s)" for t
      using states [OF that] none by (simp add: slot_status_def)
    moreover have "running (sched_abs s') = Some 0"
      using running_entry [OF kernel, of 0] queue none tasks cpu_invD(2) [OF inv'] by simp
    ultimately show ?thesis
      using first(1) Nil tasks by (simp add: dispatch_def sched_abs_def)
  next
    case (Cons i js)
    then have i: "i < 64" "tasks s ! i \<noteq> 0"
      by (auto dest!: arg_cong [of _ _ set])
    have hd: "ready_tasks s \<noteq> []" "hd (ready_tasks s) = tasks s ! i"
      using first(2) Cons by simp_all
    have "slot_status (ram s') (tasks s ! j) = (if j = i then Some Started else slot_status (ram s) (tasks s ! j))" if "j < 64" for j
      using states [of "tasks s ! j"] hd entry_unique [OF inv that i(1) _ i(2)] that i len by (auto simp: slot_status_def)
    then have "map (slot_status (ram s')) (tasks s) = (map (slot_status (ram s)) (tasks s))[i := Some Started]"
      using len by (intro nth_equalityI) (simp_all add: nth_list_update)
    moreover have "running (sched_abs s') = Some i"
      using running_entry [OF kernel i(1)] queue hd tasks i(2) by simp
    ultimately show ?thesis
      using first(1) Cons tasks by (simp add: dispatch_def sched_abs_def)
  qed
qed

lemma first_empty_slot:
  assumes "empty_slot (tasks s) 0 = Some i"
  shows "first_slot (\<lambda>x. x = None) 0 (map (slot_status m) (tasks s)) = Some i"
  using empty_slot_Some [OF assms] unfolding first_slot_def find_Some_iff by (intro exI [of _ i]) simp

text \<open>Steps that leave the table and the control blocks alone.\<close>

lemma kernel_step_abs:
  assumes "kernel_step xh e s s'" and inv: "cpu_inv s H"
  shows "sched_abs s' = sched_event (sched_abs s) e"
proof -
  note kernel = cpu_invD(1) [OF inv]
  note len = kernel_invD(2) [OF kernel]
  note same = sched_abs_same [OF kernel]
  show ?thesis
    using assms(1)
  proof (cases rule: kernel_step.cases)
    case run
    have "sched_abs s' = sched_abs s"
      unfolding run(2) by (rule same) (use own_code_inv(3) [OF inv run(3,4)] in simp_all)
    then show ?thesis
      using run(1) by simp
  next
    case log
    have "sched_abs s' = sched_abs s"
      by (rule same) (use log_inv_step(3-5) [OF inv log(2-4)] in simp_all)
    then show ?thesis
      using log(1) by simp
  next
    case (key byte v eflags cs)
    have "sched_abs s' = sched_abs s"
      by (rule same) (use keymap_entry_step(3-5) [OF inv key(3)] in simp_all)
    then show ?thesis
      using key(1) by simp
  next
    case (irq msg v eflags cs)
    have "sched_abs s' = sched_abs s"
      by (rule same) (use interrupt_entry_step(3-5) [OF inv irq(3)] in simp_all)
    then show ?thesis
      using irq(1) by simp
  next
    case (tick eflags cs)
    from tick_result [OF inv tick(3)] obtain s1 where s1: "kernel_inv s1 H" "interrupted s s1" "scheduled xh s1 s'" "cpu_inv s' H"
      by blast
    have "slots (sched_abs s1) = slots (sched_abs s)"
      using interrupted_states [OF kernel s1(2)] s1(2) by (auto simp: sched_abs_def slot_status_def interrupted_def)
    then show ?thesis
      using sched_dispatch [OF s1(1,3,4)] tick(1) by simp
  next
    case (create name func prio t)
    obtain i H' where i: "i < 64" "tasks s' = (tasks s)[i := t]" "t \<noteq> 0" "current s' = current s"
        "field (ram s') t off_state = TASK_READY" "empty_slot (tasks s) 0 = Some i"
      and page: "\<forall>u y. u \<in> set (tasks s) \<longrightarrow> u \<noteq> 0 \<longrightarrow> page_of y = u \<longrightarrow> ram s' y = ram s y"
      by (rule create_inv [OF inv create(2,3)]) blast
    have keep: "field (ram s') u off = field (ram s) u off" if "u \<in> set (tasks s)" "u \<noteq> 0" "unat off + 4 \<le> 4096" for u off
      using page that(1,2) by (intro field_cong [OF task_page(1) [OF kernel that(1,2)] that(3)]) blast
    then have status: "slot_status (ram s') u = slot_status (ram s) u" if "u \<in> set (tasks s)" for u
      using that by (simp add: slot_status_def)
    have "get_task_pid (current s) s' = get_task_pid (current s) s" if "current s \<noteq> 0"
      using keep [of "current s" off_pid] kernel_invD(5) [OF kernel] that by (simp add: get_task_pid_def)
    moreover have "map (slot_status (ram s')) (tasks s') = (map (slot_status (ram s)) (tasks s))[i := Some Ready]"
    proof -
      have "slot_status (ram s') t = Some Ready"
        using i(3,5) by simp
      moreover have "map (slot_status (ram s')) (tasks s) = map (slot_status (ram s)) (tasks s)"
        using status by simp
      ultimately show ?thesis
        unfolding i(2) map_update by (simp only:)
    qed
    ultimately show ?thesis
      using i(4) create(1) first_empty_slot [OF i(6)] by (simp add: sched_abs_def)
  next
    case leave
    show ?thesis
    proof (rule leave_result [OF inv leave(2,3,4)])
      fix i u H'
      assume i: "1 \<le> i" "i < 64" "tasks s ! i = current s" and u: "tasks u = (tasks s)[i := 0]" "kernel_inv u H'"
          "scheduled xh u s'" "cpu_inv s' H'"
        and states: "\<And>t. t \<in> set (tasks s) \<Longrightarrow> t \<noteq> 0 \<Longrightarrow> t \<noteq> current s \<Longrightarrow> field (ram u) t off_state = field (ram s) t off_state"
      have "slot_status (ram u) ((tasks s)[i := 0] ! j) = (map (slot_status (ram s)) (tasks s))[i := None] ! j" if "j < 64" for j
      proof (cases "j = i")
        case False
        then have "tasks s ! j \<noteq> current s"
          using entry_unique [OF kernel that i(2)] i(3) leave(3) by metis
        then show ?thesis
          using states [of "tasks s ! j"] that False len by (simp add: slot_status_def)
      qed (use i(2) len in \<open>simp add: slot_status_def\<close>)
      then have "slots (sched_abs u) = (slots (sched_abs s))[i := None]"
        unfolding sched_abs_def u(1) using len by (intro nth_equalityI) simp_all
      then show ?thesis
        using sched_dispatch [OF u(2-4)] running_entry [OF kernel i(2,3) leave(3)] leave(1) by simp
    qed
  qed
qed

lemma kernel_run_abs:
  "kernel_run xh es s s' \<Longrightarrow> cpu_inv s H \<Longrightarrow> sched_abs s' = foldl sched_event (sched_abs s) es"
proof (induction rule: kernel_run.induct)
  case (next_step es s u e s')
  obtain H' where "cpu_inv u H'"
    using kernel_run_inv [OF next_step.hyps(1) next_step.prems] by blast
  then show ?case
    using kernel_step_abs [OF next_step.hyps(2)] next_step by simp
qed simp

section \<open>The refinement\<close>

definition booted_view :: sched_view where
  "booted_view = \<lparr>slots = Some Ready # replicate 63 None, running = None\<rparr>"

lemma boot_sched_abs:
  assumes "kernel_up L nm s s' t H"
  shows "sched_abs s' = booted_view"
proof -
  have "slot_status (ram s') t = Some Ready"
    using assms by (simp add: kernel_up_def)
  moreover have "slot_status (ram s') 0 = None"
    by simp
  ultimately show ?thesis
    using assms by (simp add: kernel_up_def sched_abs_def booted_view_def del: replicate_numeral slot_status_simps)
qed

lemma booted_dispatch: "dispatch (slots booted_view) = booted_view\<lparr>running := Some 0\<rparr>"
proof -
  have "first_slot (\<lambda>x. x = Some Ready) 1 (slots booted_view) = None"
    unfolding first_slot_def find_None_iff by (auto simp: booted_view_def nth_Cons' simp del: replicate_numeral)
  then show ?thesis
    by (simp add: dispatch_def booted_view_def del: replicate_numeral)
qed

text \<open>
  C2: the kernel implements the abstract scheduler. Over every run after boot the table and the current
  task are what the events make of them there: a clock interrupt starts the first ready entry from 1 on,
  or goes to entry 0; creation takes the first empty entry; the end of a task empties its entry and
  dispatches; code, messages and other interrupts change nothing.
\<close>

theorem kernel_refines_scheduler:
  fixes s :: "'a cpu_state_scheme"
  assumes "boot_ok L nm k s" and "\<forall>y. in_range (esp (regs s) - 20) 20 y \<longrightarrow> low_memory y"
    and "kernel_main L s = Some s'" and "kernel_run xh es s' u"
  shows "sched_abs u = foldl sched_event booted_view es"
proof -
  obtain t H where up: "kernel_up L nm s s' t H"
    by (rule kernel_main_up [OF assms(1,3)])
  show ?thesis
    using kernel_run_abs [OF assms(4) boot_cpu_inv(1) [OF assms(1) up assms(2)]] boot_sched_abs [OF up] by simp
qed

theorem kernel_refines_scheduler_witness:
  "\<exists>s' u. kernel_main sample_layout sample_boot = Some s' \<and> kernel_run 0x3000 [Tick] s' u
     \<and> slots (sched_abs u) = Some Ready # replicate 63 None \<and> running (sched_abs u) = Some 0"
proof (rule kernel_main_ok [OF sample_boot_ok])
  fix s' t H
  assume run: "kernel_main sample_layout sample_boot = Some s'" and up: "kernel_up sample_layout [] sample_boot s' t H"
  show ?thesis
  proof (rule next_tick [OF boot_cpu_inv(1) [OF sample_boot_ok up sample_boot_stack], of "0x3000"])
    show "iflag s'"
      using up by (simp add: kernel_up_def)
    fix u
    assume "kernel_step 0x3000 Tick s' u"
    then have tick: "kernel_run 0x3000 [Tick] s' u"
      using kernel_run.next_step [OF kernel_run.start] by fastforce
    have "sched_abs u = booted_view\<lparr>running := Some 0\<rparr>"
      using kernel_refines_scheduler [OF sample_boot_ok sample_boot_stack run tick] booted_dispatch by simp
    then show ?thesis
      using run tick by (auto simp: booted_view_def simp del: replicate_numeral)
  qed
qed

end
