(* ===== verification/Format_Lang.thy ===== *)
theory Format_Lang
  imports Format_Spec
begin

text \<open>
  The format language as data: literal text and directives with flags, width, precision, qualifier and a
  conversion, and the two directives with an asterisk. A format is the concatenation of the texts of its
  pieces; \<open>vsprintf\<close> run on it with their arguments produces the concatenation of what each piece shows.
\<close>

section \<open>Pieces\<close>













section \<open>Text, arguments and meaning of a piece\<close>
























section \<open>The parsers\<close>
















section \<open>The conversions\<close>










section \<open>The whole format\<close>






end
