(* ===== verification/Paging.thy ===== *)
theory Paging
  imports Printk
begin

text \<open>
  The page tables of \<open>kernel/mm/mm_101012.c\<close> and the control registers of \<open>kernel/kernel/kernel.c\<close>.
  \<open>page_walk\<close> is the address translation of the 80386 over tables in memory; the lemmas say what it
  makes of the tables the code builds. The kernel's own accesses stay physical in this model, which the
  first property justifies: below 4 MB translation is the identity, and everything the kernel
  addresses lies there.
\<close>

section \<open>The code\<close>

record paging_state = printk_state +
  cr0 :: u32
  cr3 :: u32

definition get_cr3 :: "'a paging_state_scheme \<Rightarrow> u32" where
  "get_cr3 s = cr3 s"

definition set_cr3 :: "u32 \<Rightarrow> 'a paging_state_scheme \<Rightarrow> 'a paging_state_scheme" where
  "set_cr3 v s = s\<lparr>cr3 := v\<rparr>"

definition enable_page :: "'a paging_state_scheme \<Rightarrow> 'a paging_state_scheme" where
  "enable_page s = s\<lparr>cr0 := cr0 s OR 0x80000000\<rparr>"

definition PDT_START_ADDR :: u32 where
  "PDT_START_ADDR = 0x20000"

text \<open>The inner loop from \<open>j\<close> on, with the number of rounds left; and the loop over the four tables.\<close>

fun fill_table :: "u32 \<Rightarrow> u32 \<Rightarrow> nat \<Rightarrow> mem \<Rightarrow> mem" where
  "fill_table ptt j 0 m = m"
| "fill_table ptt j (Suc n) m =
     (let virtual_addr = j * 0x1000
      in fill_table ptt (j + 1) n (store32 m (ptt + 4 * j) (7 OR virtual_addr)))"

fun table_loop :: "u32 \<Rightarrow> u32 \<Rightarrow> nat \<Rightarrow> mem \<Rightarrow> mem" where
  "table_loop pdt i 0 m = m"
| "table_loop pdt i (Suc n) m =
     (let ptt = PDT_START_ADDR + (i + 1) * 0x1000;
          pde = 7 OR ptt;
          m = store32 m (pdt + 4 * i) pde;
          m = (if i = 0 then fill_table ptt 0 0x400 m else m)
      in table_loop pdt (i + 1) n m)"

definition virtual_memory_init :: "'a paging_state_scheme \<Rightarrow> (u32 \<times> 'a paging_state_scheme) option" where
  "virtual_memory_init s =
     do { let pdt = PDT_START_ADDR;
          let s = s\<lparr>ram := snd (memset (ram s) pdt 0 4096)\<rparr>;
          let s = s\<lparr>ram := table_loop pdt 0 4 (ram s)\<rparr>;
          let s = set_cr3 pdt s;
          let s = enable_page s;
          s \<leftarrow> print_message (cstr ''pdt addr: 0x%p'' @ [10]) [Slot pdt] s;
          Some (pdt, s) }"

section \<open>The translation of the processor\<close>

text \<open>Directory entry, table entry, page: \<open>None\<close> is a page fault. Bit 0 of an entry is \<open>P\<close>.\<close>

definition page_walk :: "mem \<Rightarrow> u32 \<Rightarrow> u32 \<Rightarrow> u32 option" where
  "page_walk m dir va =
     (let pde = load32 m ((dir AND 0xFFFFF000) + 4 * drop_bit 22 va)
      in if \<not> bit pde 0 then None
         else
           (let pte = load32 m ((pde AND 0xFFFFF000) + 4 * (drop_bit 12 va AND 0x3FF))
            in if \<not> bit pte 0 then None else Some ((pte AND 0xFFFFF000) OR (va AND 0xFFF))))"

definition translate :: "'a paging_state_scheme \<Rightarrow> u32 \<Rightarrow> u32 option" where
  "translate s va = (if bit (cr0 s) 31 then page_walk (ram s) (get_cr3 s) va else Some va)"

section \<open>The tables\<close>

lemma fill_table_other:
  assumes "i + n \<le> 1024" and "\<not> in_range (ptt + of_nat (4 * i)) (4 * n) y"
  shows "fill_table ptt (of_nat i) n m y = m y"
  using assms
proof (induction n arbitrary: i m)
  case (Suc n)
  have a: "ptt + of_nat (4 * i) = ptt + 4 * of_nat i"
    by simp
  have "\<not> in_range (ptt + of_nat (4 * i)) 4 y"
    using Suc.prems(2) in_range_weaken [of _ 4 y "4 * Suc n"] by auto
  moreover have "\<not> in_range (ptt + of_nat (4 * Suc i)) (4 * n) y"
    using Suc.prems in_range_sub [of "ptt + of_nat (4 * i)" 4 "4 * n" y "4 * Suc n"] by (auto simp: algebra_simps)
  ultimately show ?case
    using Suc.IH [of "Suc i"] Suc.prems(1) by (simp add: Let_def store32_other ac_simps)
qed simp

lemma fill_table_entry:
  assumes "i \<le> k" and "k < i + n" and "i + n \<le> 1024"
  shows "load32 (fill_table ptt (of_nat i) n m) (ptt + 4 * of_nat k) = 7 OR of_nat k * 0x1000"
  using assms
proof (induction n arbitrary: i m)
  case (Suc n)
  let ?m = "store32 m (ptt + 4 * of_nat i) (7 OR of_nat i * 0x1000)"
  have step: "fill_table ptt (of_nat i) (Suc n) m = fill_table ptt (of_nat (Suc i)) n ?m"
    by (simp add: Let_def ac_simps)
  show ?case
  proof (cases "k = i")
    case True
    have "\<not> in_range (ptt + of_nat (4 * Suc i)) (4 * n) y" if y: "in_range (ptt + 4 * of_nat i) 4 y" for y
    proof
      assume "in_range (ptt + of_nat (4 * Suc i)) (4 * n) y"
      then have "in_range (ptt + 4 * of_nat i + of_nat 4) (4 * n) y"
        by (simp add: algebra_simps)
      then obtain j where "j < 4 * n" "y = ptt + 4 * of_nat i + of_nat 4 + of_nat j"
        by (rule in_rangeE)
      then have "y = (ptt + 4 * of_nat i) + of_nat (4 + j)" "4 + j < 2 ^ 32"
        using Suc.prems by simp_all
      then show False
        using y in_range_offset [of "4 + j" "ptt + 4 * of_nat i" 4] by simp
    qed
    then have "load32 (fill_table ptt (of_nat (Suc i)) n ?m) (ptt + 4 * of_nat i) = load32 ?m (ptt + 4 * of_nat i)"
      using Suc.prems by (intro load32_cong fill_table_other) simp_all
    then show ?thesis
      unfolding step using True by simp
  next
    case False
    then show ?thesis
      unfolding step using Suc.prems by (intro Suc.IH) simp_all
  qed
qed simp

text \<open>The memory the two loops leave, and what is read back from it.\<close>

definition vm_tables :: "mem \<Rightarrow> mem" where
  "vm_tables m = table_loop PDT_START_ADDR 0 4 (snd (memset m PDT_START_ADDR 0 4096))"

lemma vm_tables_eq:
  "vm_tables m = store32 (store32 (store32 (fill_table 0x21000 0 1024 (store32
     (mem_write m 0x20000 (replicate 4096 0)) 0x20000 0x21007)) 0x20004 0x22007) 0x20008 0x23007) 0x2000C 0x24007"
proof -
  have pde: "(7 OR 0x21000 :: u32) = 0x21007" "(7 OR 0x22000 :: u32) = 0x22007" "(7 OR 0x23000 :: u32) = 0x23007"
    "(7 OR 0x24000 :: u32) = 0x24007"
    by simp_all
  have "table_loop 0x20000 0 4 m' = store32 (store32 (store32 (fill_table 0x21000 0 1024 (store32 m' 0x20000 0x21007))
      0x20004 0x22007) 0x20008 0x23007) 0x2000C 0x24007" for m'
  proof -
    have four: "(4 :: nat) = Suc (Suc (Suc (Suc 0)))"
      by simp
    show ?thesis
      unfolding four by (simp add: PDT_START_ADDR_def Let_def pde)
  qed
  then show ?thesis
    by (simp add: vm_tables_def PDT_START_ADDR_def memset_write del: replicate_numeral)
qed

lemma vm_tables_low:
  assumes "\<not> in_range 0x20000 16 y" and "\<not> in_range 0x21000 0x1000 y"
  shows "vm_tables m y = (if in_range 0x20000 0x1000 y then 0 else m y)"
proof -
  have apart: "\<not> in_range 0x20000 4 y" "\<not> in_range 0x20004 4 y" "\<not> in_range 0x20008 4 y" "\<not> in_range 0x2000C 4 y"
    using assms(1) by (auto simp: in_range_nat)
  have "vm_tables m y = mem_write m 0x20000 (replicate 4096 0) y"
    unfolding vm_tables_eq using apart assms(2) fill_table_other [of 0 1024 "0x21000" y]
    by (simp add: store32_other del: replicate_numeral)
  also have "\<dots> = (if in_range 0x20000 0x1000 y then 0 else m y)"
    by (simp add: mem_write_def in_range_def del: replicate_numeral)
  finally show ?thesis .
qed

lemma vm_tables_directory:
  assumes "k < 1024"
  shows "load32 (vm_tables m) (0x20000 + 4 * of_nat k) = (if k < 4 then 0x21007 + of_nat k * 0x1000 else 0)"
proof (cases "k < 4")
  case True
  have "load32 (fill_table 0x21000 0 1024 m') 0x20000 = load32 m' 0x20000" for m'
    using fill_table_other [of 0 1024 "0x21000" _ m'] by (intro load32_cong) (simp add: in_range_nat)
  moreover from True have "k = 0 \<or> k = 1 \<or> k = 2 \<or> k = 3"
    by auto
  ultimately show ?thesis
    unfolding vm_tables_eq
    by (elim disjE) (simp_all add: load32_store32_disjoint disjoint_rangesI del: replicate_numeral)
next
  case False
  have "unat (0x20000 + 4 * of_nat k :: u32) = 0x20000 + 4 * k"
    using unat_add_small [of "0x20000 :: u32" "4 * k"] assms by simp
  then have "vm_tables m y = 0" if "in_range (0x20000 + 4 * of_nat k) 4 y" for y
    using that False assms vm_tables_low [of y m] by (auto simp: in_range_nat)
  then have "load32 (vm_tables m) (0x20000 + 4 * of_nat k) = load32 (\<lambda>_. 0) (0x20000 + 4 * of_nat k)"
    by (intro load32_cong) simp
  then show ?thesis
    using False by (simp add: load32_def)
qed

lemma vm_tables_first:
  assumes "k < 1024"
  shows "load32 (vm_tables m) (0x21000 + 4 * of_nat k) = 7 OR of_nat k * 0x1000"
proof -
  have "unat (0x21000 + 4 * of_nat k :: u32) = 0x21000 + 4 * k"
    using unat_add_small [of "0x21000 :: u32" "4 * k"] assms by simp
  then have "disjoint_ranges (0x21000 + 4 * of_nat k) 4 a 4" if "a \<in> {0x20004, 0x20008, 0x2000C}" for a
    using that assms by (intro disjoint_rangesI) auto
  then show ?thesis
    unfolding vm_tables_eq using fill_table_entry [of 0 k 1024 "0x21000"] assms
    by (simp add: load32_store32_disjoint del: replicate_numeral)
qed

lemma vm_tables_other: "\<not> in_range 0x20000 0x2000 y \<Longrightarrow> vm_tables m y = m y"
  using vm_tables_low [of y m] by (auto simp: in_range_nat)

section \<open>Words of an address\<close>

lemma address_masks: "(0xFFFFF000 :: u32) = NOT (mask 12)" "(0xFFF :: u32) = mask 12" "(0x3FF :: u32) = mask 10"
  by (simp_all add: mask_eq_exp_minus_1)

lemma directory_index: "unat (drop_bit 22 (va :: u32)) = unat va div 0x400000" "unat (drop_bit 22 va) < 1024"
  using unat_less_u32 [of va] by (simp_all add: drop_bit_eq_div unat_div)

lemma directory_four: "unat (drop_bit 22 (va :: u32)) < 4 \<longleftrightarrow> va < 0x1000000"
  by (simp add: directory_index word_less_nat_alt div_less_iff_less_mult)

lemma table_index: "unat (drop_bit 12 (va :: u32) AND 0x3FF) = unat va div 4096 mod 1024"
  by (simp add: address_masks take_bit_eq_mask [symmetric] drop_bit_eq_div take_bit_eq_mod unat_div unat_mod)

lemma page_of_entry: "(7 OR of_nat k * 0x1000 :: u32) AND 0xFFFFF000 = of_nat k * 0x1000"
proof (rule bit_word_eqI)
  fix n
  have "of_nat k * (0x1000 :: u32) = push_bit 12 (of_nat k)"
    by (simp add: push_bit_eq_mult)
  moreover have "\<not> bit (7 :: u32) n" if "12 \<le> n"
  proof -
    have "(7 :: u32) = mask 3"
      by (simp add: mask_eq_exp_minus_1)
    then show ?thesis
      using that by (simp only: bit_mask_iff) simp
  qed
  ultimately show "bit ((7 OR of_nat k * 0x1000 :: u32) AND 0xFFFFF000) n = bit (of_nat k * 0x1000 :: u32) n"
    if "n < LENGTH(32)"
    using that by (auto simp: address_masks bit_simps not_less)
qed

lemma address_parts:
  assumes "va < 0x400000"
  shows "((drop_bit 12 va AND 0x3FF) * 0x1000) OR (va AND 0xFFF) = (va :: u32)"
proof (rule bit_word_eqI)
  fix n
  assume n: "n < LENGTH(32)"
  have "unat (take_bit 22 va) = unat va"
    using assms by (simp add: unsigned_take_bit_eq take_bit_nat_eq_self word_less_nat_alt)
  then have "va = take_bit 22 va"
    by (simp only: word_unat_eq_iff)
  then have "bit va n \<Longrightarrow> n < 22"
    by (metis bit_take_bit_iff)
  moreover have "(drop_bit 12 va AND 0x3FF) * 0x1000 = push_bit 12 (drop_bit 12 va AND 0x3FF)"
    by (simp add: push_bit_eq_mult)
  ultimately show "bit ((drop_bit 12 va AND 0x3FF) * 0x1000 OR (va AND 0xFFF)) n = bit va n"
    using n by (auto simp: address_masks bit_simps not_less)
qed

section \<open>Translation through the tables\<close>

lemma walk_directory:
  "load32 (vm_tables m) (0x20000 + 4 * drop_bit 22 va) = (if va < 0x1000000 then 0x21007 + drop_bit 22 va * 0x1000 else 0)"
  using vm_tables_directory [OF directory_index(2) [of va], of m] by (simp add: directory_four)

lemma walk_table_address:
  assumes "va < 0x1000000"
  shows "(0x21007 + drop_bit 22 va * 0x1000) AND 0xFFFFF000 = 0x21000 + drop_bit 22 (va :: u32) * 0x1000"
    and "bit (0x21007 + drop_bit 22 va * 0x1000) 0"
proof -
  have "unat (drop_bit 22 va) < 4"
    using assms by (simp add: directory_four)
  then have "unat (drop_bit 22 va) = 0 \<or> unat (drop_bit 22 va) = 1 \<or> unat (drop_bit 22 va) = 2 \<or> unat (drop_bit 22 va) = 3"
    by arith
  moreover have "drop_bit 22 va = of_nat (unat (drop_bit 22 va))"
    by simp
  ultimately have "drop_bit 22 va = of_nat 0 \<or> drop_bit 22 va = of_nat 1 \<or> drop_bit 22 va = of_nat 2 \<or> drop_bit 22 va = of_nat 3"
    by metis
  then show "(0x21007 + drop_bit 22 va * 0x1000) AND 0xFFFFF000 = 0x21000 + drop_bit 22 va * 0x1000"
    "bit (0x21007 + drop_bit 22 va * 0x1000) 0"
    by (elim disjE; simp)+
qed

lemma walk_through:
  assumes "load32 m (0x20000 + 4 * drop_bit 22 va) = 0x21007 + drop_bit 22 va * 0x1000" and "va < 0x1000000"
    and "load32 m (0x21000 + drop_bit 22 va * 0x1000 + 4 * (drop_bit 12 va AND 0x3FF)) = pte"
  shows "page_walk m 0x20000 va = (if bit pte 0 then Some ((pte AND 0xFFFFF000) OR (va AND 0xFFF)) else None)"
  using walk_table_address [OF assms(2)] assms unfolding page_walk_def by (simp only: Let_def) simp

lemma walk_none: "0x1000000 \<le> va \<Longrightarrow> page_walk (vm_tables m) 0x20000 va = None"
  using walk_directory [of m va] by (simp add: page_walk_def flip: not_less)

lemma walk_first:
  assumes "va < 0x400000"
  shows "page_walk (vm_tables m) 0x20000 va = Some va"
proof -
  have va: "va < 0x1000000" and "unat (drop_bit 22 va) = 0"
    using assms directory_index(1) [of va] by (simp_all add: word_less_nat_alt)
  then have dir: "drop_bit 22 va = 0"
    by (simp only: unsigned_eq_0_iff)
  define k where "k = unat (drop_bit 12 va AND 0x3FF)"
  have k: "drop_bit 12 va AND 0x3FF = of_nat k" "k < 1024"
    by (simp add: k_def) (simp add: k_def table_index)
  have pte: "load32 (vm_tables m) (0x21000 + 4 * of_nat k) = 7 OR of_nat k * 0x1000"
    by (rule vm_tables_first [OF k(2)])
  have "bit (7 OR of_nat k * 0x1000 :: u32) 0"
    by (simp add: bit_simps)
  moreover have "load32 (vm_tables m) (0x20000 + 4 * drop_bit 22 va) = 0x21007 + drop_bit 22 va * 0x1000"
    using walk_directory [of m va] va by simp
  moreover have "load32 (vm_tables m) (0x21000 + drop_bit 22 va * 0x1000 + 4 * (drop_bit 12 va AND 0x3FF)) = 7 OR of_nat k * 0x1000"
    using pte by (simp add: dir k)
  ultimately show ?thesis
    using walk_through [OF _ va] address_parts [OF assms] k by (simp add: page_of_entry)
qed

lemma unat_table_address:
  assumes "d < 4" and "t < 1024"
  shows "unat (0x21000 + of_nat d * 0x1000 + 4 * of_nat t :: u32) = 0x21000 + d * 0x1000 + 4 * t"
proof -
  have "(0x21000 + of_nat d * 0x1000 + 4 * of_nat t :: u32) = 0x21000 + of_nat (d * 0x1000 + 4 * t)"
    by simp
  then show ?thesis
    using unat_add_small [of "0x21000 :: u32" "d * 0x1000 + 4 * t"] assms by (simp add: add.assoc)
qed

lemma walk_other:
  assumes "0x400000 \<le> va" and "va < 0x1000000"
  shows "page_walk (vm_tables m) 0x20000 va =
    (let pte = load32 m (0x21000 + drop_bit 22 va * 0x1000 + 4 * (drop_bit 12 va AND 0x3FF))
     in if bit pte 0 then Some ((pte AND 0xFFFFF000) OR (va AND 0xFFF)) else None)"
proof -
  define d t where "d = unat (drop_bit 22 va)" and "t = unat (drop_bit 12 va AND 0x3FF)"
  have d: "drop_bit 22 va = of_nat d" "d < 4" and t: "drop_bit 12 va AND 0x3FF = of_nat t"
    using assms(2) by (simp_all add: d_def t_def directory_four)
  have "1 \<le> d" "t < 1024"
    using assms(1) by (simp_all add: d_def t_def table_index directory_index(1) word_le_nat_alt less_eq_div_iff_mult_less_eq)
  have "unat (0x21000 + of_nat d * 0x1000 + 4 * of_nat t :: u32) = 0x21000 + d * 0x1000 + 4 * t"
    using unat_table_address [OF d(2) \<open>t < 1024\<close>] .
  then have "load32 (vm_tables m) (0x21000 + of_nat d * 0x1000 + 4 * of_nat t) = load32 m (0x21000 + of_nat d * 0x1000 + 4 * of_nat t)"
    using d \<open>1 \<le> d\<close> \<open>t < 1024\<close> by (intro load32_cong vm_tables_other) (auto simp: in_range_nat)
  then have "load32 (vm_tables m) (0x21000 + drop_bit 22 va * 0x1000 + 4 * (drop_bit 12 va AND 0x3FF))
      = load32 m (0x21000 + drop_bit 22 va * 0x1000 + 4 * (drop_bit 12 va AND 0x3FF))"
    unfolding d(1) t .
  moreover have "load32 (vm_tables m) (0x20000 + 4 * drop_bit 22 va) = 0x21007 + drop_bit 22 va * 0x1000"
    using walk_directory [of m va] assms(2) by simp
  ultimately show ?thesis
    unfolding Let_def using walk_through [OF _ assms(2)] by blast
qed

text \<open>A write to the video memory changes no translation.\<close>

lemma walk_cong:
  assumes "outside_vga_same (vm_tables m) m'"
  shows "page_walk m' 0x20000 va = page_walk (vm_tables m) 0x20000 va"
proof -
  have same: "load32 m' a = load32 (vm_tables m) a" if "unat a + 4 \<le> 0x26000" for a
    using that assms by (intro load32_cong) (auto simp: outside_vga_same_def in_range_nat vga_nat)
  define d t where "d = unat (drop_bit 22 va)" and "t = unat (drop_bit 12 va AND 0x3FF)"
  have d: "drop_bit 22 va = of_nat d" and t: "drop_bit 12 va AND 0x3FF = of_nat t"
    by (simp_all add: d_def t_def)
  have "d < 1024" "t < 1024"
    using directory_index(2) by (simp_all add: d_def t_def table_index)
  have dir: "load32 m' (0x20000 + 4 * drop_bit 22 va) = load32 (vm_tables m) (0x20000 + 4 * drop_bit 22 va)"
    using unat_add_small [of "0x20000 :: u32" "4 * d"] d \<open>d < 1024\<close> by (intro same) simp
  show ?thesis
  proof (cases "va < 0x1000000")
    case True
    then have "d < 4"
      by (simp add: d_def directory_four)
    then have "load32 m' (0x21000 + of_nat d * 0x1000 + 4 * of_nat t) = load32 (vm_tables m) (0x21000 + of_nat d * 0x1000 + 4 * of_nat t)"
      using unat_table_address [of d t] \<open>t < 1024\<close> by (intro same) simp
    then have "load32 m' (0x21000 + drop_bit 22 va * 0x1000 + 4 * (drop_bit 12 va AND 0x3FF))
        = load32 (vm_tables m) (0x21000 + drop_bit 22 va * 0x1000 + 4 * (drop_bit 12 va AND 0x3FF))"
      unfolding d t .
    moreover have "load32 (vm_tables m) (0x20000 + 4 * drop_bit 22 va) = 0x21007 + drop_bit 22 va * 0x1000"
      using walk_directory [of m va] True by simp
    ultimately show ?thesis
      using walk_through [OF _ True] dir by metis
  next
    case False
    then show ?thesis
      using walk_directory [of m va] dir by (simp add: page_walk_def)
  qed
qed

lemma virtual_memory_init_run:
  assumes "log_inv s"
  obtains s' where "virtual_memory_init s = Some (0x20000, s')" and "log_inv s'" and "get_cr3 s' = 0x20000"
    and "cr0 s' = cr0 s OR 0x80000000" and "outside_vga_same (vm_tables (ram s)) (ram s')"
proof -
  let ?s = "enable_page (set_cr3 0x20000 (s\<lparr>ram := vm_tables (ram s)\<rparr>))"
  have inv: "log_inv ?s"
    using assms by (simp add: log_inv_def con_inv_def enable_page_def set_cr3_def)
  have fmt: "vsprintf (ram ?s) (cstr ''pdt addr: 0x%p'' @ [10]) [Slot 0x20000]
      = Some (cstr ''pdt addr: 0x00020000'' @ [10], ram ?s)"
    by (simp add: format_eval)
  obtain s' where s': "print_message (cstr ''pdt addr: 0x%p'' @ [10]) [Slot 0x20000] ?s = Some s'" "log_inv s'"
    and frame: "log_frame ?s s'"
    by (rule printk_message [OF inv fmt]) simp_all
  have "paging_state.more s' = paging_state.more ?s \<and> cr0 s' = cr0 ?s \<and> cr3 s' = cr3 ?s"
    using frame by (cases s' rule: paging_state.cases_scheme, cases ?s rule: paging_state.cases_scheme) (simp add: log_frame_def)
  then show thesis
    using that [of s'] s' frame
    by (simp add: virtual_memory_init_def vm_tables_def PDT_START_ADDR_def Let_def log_frame_def get_cr3_def
        enable_page_def set_cr3_def)
qed

lemma paging_bit: "bit (c OR 0x80000000 :: u32) 31"
  by (simp add: bit_or_iff)

text \<open>A machine whose memory holds a word where the second table will be.\<close>

definition booted_paging :: paging_state where
  "booted_paging = \<lparr>ram = store32 (\<lambda>_. 0) 0x22000 0x9005, out_log = [], iflag = False, con_screen = 0xB8000,
     con_pos = 0xB8000, con_x = 0, con_y = 0, printk_buf = replicate 1024 0, cr0 = 0x11, cr3 = 0\<rparr>"

lemma booted_paging_inv: "log_inv booted_paging"
  by (simp add: booted_paging_def log_inv_def con_inv_def del: replicate_numeral)

section \<open>Properties\<close>

text \<open>
  C29: \<open>virtual_memory_init\<close> returns the directory with paging on, and from then on every address below
  4 MB translates to itself, none from 16 MB on is mapped, and besides the directory, the first table
  and the video memory no byte has changed.
\<close>

theorem first_table_identity:
  assumes "log_inv s"
  shows "\<exists>s'. virtual_memory_init s = Some (PDT_START_ADDR, s') \<and> get_cr3 s' = PDT_START_ADDR
    \<and> cr0 s' = cr0 s OR 0x80000000
    \<and> (\<forall>va. (va < 0x400000 \<longrightarrow> translate s' va = Some va) \<and> (0x1000000 \<le> va \<longrightarrow> translate s' va = None))
    \<and> (\<forall>y. \<not> in_range PDT_START_ADDR 0x2000 y \<longrightarrow> \<not> vga y \<longrightarrow> ram s' y = ram s y)"
proof (rule virtual_memory_init_run [OF assms])
  fix s'
  assume run: "virtual_memory_init s = Some (0x20000, s')" "get_cr3 s' = 0x20000" "cr0 s' = cr0 s OR 0x80000000"
    and mem: "outside_vga_same (vm_tables (ram s)) (ram s')"
  have "bit (cr0 s') 31"
    unfolding run(3) by (simp add: paging_bit)
  then show ?thesis
    using run walk_first walk_none walk_cong [OF mem] mem vm_tables_other
    by (auto simp: translate_def PDT_START_ADDR_def outside_vga_same_def)
qed

theorem first_table_identity_witness:
  "\<exists>s'. virtual_memory_init booted_paging = Some (PDT_START_ADDR, s') \<and> cr0 s' = 0x80000011
    \<and> translate s' 0xB8000 = Some 0xB8000 \<and> translate s' 0x1000000 = None"
  using first_table_identity [OF booted_paging_inv] by (fastforce simp: booted_paging_def)

text \<open>
  C30: the three tables behind the first are never filled, although the directory marks them present: from
  4 MB to 16 MB the processor takes as page table entries the words memory happened to hold.
\<close>

theorem other_tables_uninitialised:
  assumes "log_inv s" and "0x400000 \<le> va" and "va < 0x1000000" and "virtual_memory_init s = Some (pdt, s')"
  shows "translate s' va =
    (let pte = load32 (ram s) (PDT_START_ADDR + 0x1000 + drop_bit 22 va * 0x1000 + 4 * (drop_bit 12 va AND 0x3FF))
     in if bit pte 0 then Some ((pte AND 0xFFFFF000) OR (va AND 0xFFF)) else None)"
proof (rule virtual_memory_init_run [OF assms(1)])
  fix t
  assume run: "virtual_memory_init s = Some (0x20000, t)" "get_cr3 t = 0x20000" "cr0 t = cr0 s OR 0x80000000"
    and mem: "outside_vga_same (vm_tables (ram s)) (ram t)"
  have "bit (cr0 t) 31" "s' = t"
    using run(1) assms(4) unfolding run(3) by (simp_all add: paging_bit)
  then show ?thesis
    using run(2) walk_other [OF assms(2,3), of "ram s"] walk_cong [OF mem, of va] by (simp add: translate_def PDT_START_ADDR_def)
qed

theorem other_tables_uninitialised_witness:
  "\<exists>s'. virtual_memory_init booted_paging = Some (PDT_START_ADDR, s') \<and> translate s' 0x400123 = Some 0x9123"
proof -
  obtain s' where run: "virtual_memory_init booted_paging = Some (0x20000, s')"
    by (rule virtual_memory_init_run [OF booted_paging_inv])
  have "load32 (ram booted_paging) 0x22000 = 0x9005"
    by (simp add: booted_paging_def)
  then have "translate s' 0x400123 = Some 0x9123"
    using other_tables_uninitialised [OF booted_paging_inv _ _ run, of "0x400123"] by (simp add: PDT_START_ADDR_def)
  then show ?thesis
    using run by (simp add: PDT_START_ADDR_def)
qed

end
