(* ===== verification/String_Props.thy ===== *)
theory String_Props
  imports String_Lib
begin

text \<open>
  When the two unbounded loops of \<open>kernel/lib/string.c\<close> return, and with what: \<open>strlen\<close> stops at the first
  NUL, \<open>strcpy\<close> returns exactly when the destination does not start inside the string.
\<close>

section \<open>strlen\<close>

lemma c_string_bytes:
  assumes "\<forall>i<n. m (a + of_nat i) \<noteq> 0" and "m (a + of_nat n) = 0"
  shows "c_string m a (mem_bytes m a n)"
  using assms
proof (induction n arbitrary: a)
  case (Suc n)
  have "mem_bytes m a (Suc n) = m a # mem_bytes m (a + 1) n"
    by (rule nth_equalityI) (simp_all add: nth_Cons add.assoc split: nat.split)
  moreover have "m (a + 1 + of_nat i) \<noteq> 0" if "i < n" for i
    using Suc.prems(1) [rule_format, of "Suc i"] that by (simp add: add.assoc)
  then have "c_string m (a + 1) (mem_bytes m (a + 1) n)"
    using Suc.prems(2) by (intro Suc.IH) (simp_all add: add.assoc)
  moreover have "m a \<noteq> 0"
    using Suc.prems(1) by auto
  ultimately show ?case by simp
qed (simp add: mem_bytes_def)

section \<open>strcpy inside the string\<close>

text \<open>
  A destination \<open>k\<close> bytes behind the source: as long as the \<open>k\<close> bytes between them are not NUL, the loop
  copies them over and over and never sees one.
\<close>

lemma strcpy_loop_chases:
  assumes "strcpy_loop m ptr src = Some r" and "ptr = src + of_nat k" and "0 < k" and "k < 2 ^ 32"
    and "\<forall>i<k. m (src + of_nat i) \<noteq> 0"
  shows False
proof -
  define gap where "gap m ptr src \<longleftrightarrow> ptr = src + of_nat k \<and> (\<forall>i<k. m (src + of_nat i) \<noteq> 0)" for m :: mem and ptr src :: u32
  have "\<not> gap m ptr src"
  proof (rule strcpy_loop.raw_induct [where P = "\<lambda>m ptr src r. \<not> gap m ptr src", OF _ assms(1)])
    fix f :: "mem \<Rightarrow> u32 \<Rightarrow> u32 \<Rightarrow> mem option" and m ptr src r
    assume IH: "\<And>m ptr src r. f m ptr src = Some r \<Longrightarrow> \<not> gap m ptr src"
      and step: "(let m' = m(ptr := m src) in if m' src = 0 then Some m' else f m' (ptr + 1) (src + 1)) = Some r"
    show "\<not> gap m ptr src"
    proof
      let ?m = "m(ptr := m src)"
      assume gap: "gap m ptr src"
      then have head: "m src \<noteq> 0" and ptr: "ptr = src + of_nat k"
        using assms(3) by (auto simp: gap_def)
      then have "f ?m (ptr + 1) (src + 1) = Some r"
        using step by (simp add: Let_def split: if_splits)
      moreover have "gap ?m (ptr + 1) (src + 1)"
      proof -
        have "?m (src + 1 + of_nat i) \<noteq> 0" if "i < k" for i
          using gap head that by (cases "Suc i = k") (auto simp: gap_def add.assoc dest: spec [of _ "Suc i"])
        then show ?thesis
          using ptr by (simp add: gap_def)
      qed
      ultimately show False
        using IH by blast
    qed
  qed
  then show False
    using assms by (simp add: gap_def)
qed

section \<open>Properties\<close>

text \<open>
  C32: \<open>strlen\<close> returns if there is a NUL anywhere in memory (addresses wrap), and then the distance to the
  first one from the start on; without one it runs for ever.
\<close>

theorem strlen_first_nul:
  "case strlen m a of None \<Rightarrow> \<forall>x. m x \<noteq> 0 | Some r \<Rightarrow> m (a + r) = 0 \<and> (\<forall>i<unat r. m (a + of_nat i) \<noteq> 0)"
proof (cases "\<exists>x. m x = 0")
  case False
  then show ?thesis
    using strlen_loop_stops_at_zero [of m a a] by (cases "strlen_loop m a a") (auto simp: strlen_def)
next
  case True
  then obtain x where "m x = 0" ..
  then have stop: "m (a + of_nat (unat (x - a))) = 0"
    by simp
  define n where "n = (LEAST n. m (a + of_nat n) = 0)"
  have n: "m (a + of_nat n) = 0" "\<forall>i<n. m (a + of_nat i) \<noteq> 0" "n \<le> unat (x - a)"
    unfolding n_def using LeastI [of "\<lambda>n. m (a + of_nat n) = 0", OF stop] not_less_Least
      Least_le [of "\<lambda>n. m (a + of_nat n) = 0", OF stop] by blast+
  have "strlen m a = Some (of_nat n)"
    using strlen_loop_c_string [OF c_string_bytes [OF n(2,1)], of a] by (simp add: strlen_def)
  moreover have "unat (of_nat n :: u32) = n"
    using n(3) unat_less_u32 [of "x - a"] by (intro unat_of_nat_small) simp
  ultimately show ?thesis
    using n by simp
qed

theorem strlen_first_nul_witness: "strlen (\<lambda>_. 1) 0x100 = None"
  using strlen_first_nul [of "\<lambda>_. 1" "0x100"] by (auto split: option.splits)

text \<open>
  C31: for a NUL-terminated source \<open>strcpy\<close> copies the string with its NUL to a destination at its start or
  not inside it; with any other destination it never returns, because it overwrites the NUL before it
  reads it.
\<close>

theorem strcpy_returns_unless_inside:
  assumes "c_string m p s" and "length s + 1 < 2 ^ 32"
  shows "strcpy m d p = (if d = p \<or> length s + 1 \<le> unat (d - p) then Some (d, mem_write m d (s @ [0])) else None)"
proof (cases "d = p \<or> length s + 1 \<le> unat (d - p)")
  case True
  then show ?thesis
    using strcpy_loop_write [OF assms True] by (simp add: strcpy_def)
next
  case False
  then have k: "d = p + of_nat (unat (d - p))" "0 < unat (d - p)" "unat (d - p) \<le> length s"
    by (simp_all add: unat_gt_0)
  have "m (p + of_nat i) \<noteq> 0" if "i < unat (d - p)" for i
    using c_string_nth [OF assms(1), of i] c_string_nonzero [OF assms(1)] that k(3) by (metis nth_mem order_less_le_trans)
  then have "strcpy_loop m d p = None"
    using strcpy_loop_chases [OF _ k(1,2)] unat_less_u32 [of "d - p"] by (cases "strcpy_loop m d p") auto
  then show ?thesis
    using False by (simp add: strcpy_def)
qed

theorem strcpy_returns_unless_inside_witness:
  "strcpy (mem_write (\<lambda>_. 0) 0x100 (cstr ''idle'')) 0x102 0x100 = None"
proof -
  have "c_string (mem_write (\<lambda>_. 0) 0x100 (cstr ''idle'')) 0x100 (cstr ''idle'')"
    by (simp add: mem_write_def in_range_def)
  from strcpy_returns_unless_inside [OF this, of "0x102"] show ?thesis
    by simp
qed

end
