(* ===== verification/Traps_Spec.thy ===== *)
theory Traps_Spec
  imports Traps
begin

text \<open>
  What an exception shows: the report of \<open>exception_handler\<close> as a text over the values the processor
  and the stub left on the stack, for every vector and with the error code some of them push.
\<close>

section \<open>Padded hexadecimal numbers\<close>

definition hex_padded :: "nat \<Rightarrow> u32 \<Rightarrow> u8 list" where
  "hex_padded w n = replicate (w - length (hex_upper n)) (ch CHR ''0'') @ hex_upper n"

lemma number_padded:
  assumes "w < 100"
  shows "number n 16 (of_nat w) (- 1) ZEROPAD = Some (hex_padded w n)"
proof -
  have "sint (of_nat w :: u32) = int w"
    using assms by (intro sint_of_nat_small) simp
  then show ?thesis
    using assms by (simp add: number_refines word_sle_eq number_ref_def number_sign_def number_prefix_def number_body_def
        number_magnitude_def digit_set_def flag_defs Let_def hex_padded_def hex_upper_def)
qed

lemma directive_padded:
  "directive m pos (ch CHR ''0'' # ch CHR ''2'' # ch CHR ''X'' # fmt) (Slot n # args) = Some (hex_padded 2 n, fmt, args, m)"
  "directive m pos (ch CHR ''0'' # ch CHR ''8'' # ch CHR ''X'' # fmt) (Slot n # args) = Some (hex_padded 8 n, fmt, args, m)"
  using number_padded [of 2 n] number_padded [of 8 n]
  by (simp_all add: directive_def is_digit_def word_sle_eq no_store_def conv_number_def)

lemma length_hex_padded: "w \<le> 8 \<Longrightarrow> length (hex_padded w n) \<le> 40"
  using length_hex_upper [of n] by (simp add: hex_padded_def)

section \<open>The report\<close>

definition exception_text :: "u32 \<Rightarrow> u32 \<Rightarrow> u32 \<Rightarrow> u32 \<Rightarrow> u32 \<Rightarrow> u8 list list" where
  "exception_text v sp eip cs eflags =
     [cstr ''EXCEPTION : '' @ cstr (messages ! unat v) @ cstr '' '' @ [10],
      cstr ''   VECTOR : 0x'' @ hex_padded 2 v @ [10],
      cstr ''   EFLAGS : 0x'' @ hex_padded 8 eflags @ [10],
      cstr ''       CS : 0x'' @ hex_padded 2 (scast (ucast cs :: u8)) @ [10],
      cstr ''      EIP : 0x'' @ hex_padded 8 eip @ [10],
      cstr ''      ESP : 0x'' @ hex_padded 8 sp @ [10]]"

lemma message_lengths: "\<forall>t\<in>set messages. length t \<le> 60"
  by (simp add: messages_def)

lemma message_no_nul: "0 \<notin> set (cstr t)" if "t \<in> set messages"
  using that by (auto simp: messages_def)

text \<open>A line put into the buffer of \<open>printk\<close> and written to the console with interrupts off; several lines.\<close>

definition shown_line :: "u8 list \<Rightarrow> 'a printk_state_scheme \<Rightarrow> 'a printk_state_scheme option" where
  "shown_line out s =
     (let buf = out @ [0] @ drop (length out + 1) (printk_buf s)
      in map_option STI (console_write buf (of_nat (length out)) ((CLI s)\<lparr>printk_buf := buf\<rparr>)))"

fun shown_lines :: "u8 list list \<Rightarrow> 'a printk_state_scheme \<Rightarrow> 'a printk_state_scheme option" where
  "shown_lines [] s = Some s"
| "shown_lines (l # ls) s = do { s \<leftarrow> shown_line l s; shown_lines ls s }"

lemma print_message_line:
  assumes "log_inv s" and "vsprintf (ram s) fmt args = Some (out, ram s)" and "length out \<le> 1023"
  shows "print_message fmt args s = shown_line out s"
proof -
  have same: "(CLI s)\<lparr>ram := ram s, printk_buf := b\<rparr> = (CLI s)\<lparr>printk_buf := b\<rparr>" for b
    by (cases s rule: printk_state.cases_scheme) (simp add: CLI_def)
  have "vsprintf (ram (CLI s)) fmt args = Some (out, ram s)"
    using assms(2) by (simp add: CLI_def)
  moreover have "map_option snd (x \<bind> (\<lambda>s. Some (i, STI s))) = map_option STI x" for x :: "'a printk_state_scheme option" and i :: u32
    by (cases x) simp_all
  ultimately show ?thesis
    using assms(1,3) by (simp add: same print_message_def printk_def shown_line_def Let_def log_inv_def)
qed

lemma report_line:
  assumes "log_inv s" and "vsprintf (ram s) fmt args = Some (out, ram s)" and "length out \<le> 1023"
  obtains s' where "print_message fmt args s = Some s'" and "log_inv s'" and "log_frame s s'"
    and "cursor s' = foldl cursor_step (cursor s) out" and "shown_line out s = Some s'"
  using printk_step [OF assms] print_message_line [OF assms] by (auto simp: print_message_def)

lemma name_line:
  assumes "unat v < 22"
  shows "vsprintf m (cstr ''EXCEPTION : %s '' @ [10]) [Lit (cstr (messages ! unat v))] =
      Some (cstr ''EXCEPTION : '' @ cstr (messages ! unat v) @ cstr '' '' @ [10], m)"
    and "length (cstr ''EXCEPTION : '' @ cstr (messages ! unat v) @ cstr '' '' @ [10]) \<le> 1023"
proof -
  have t: "messages ! unat v \<in> set messages"
    using assms by (intro nth_mem) (simp add: messages_def)
  then have "length (messages ! unat v) \<le> 60"
    using message_lengths by blast
  then show "vsprintf m (cstr ''EXCEPTION : %s '' @ [10]) [Lit (cstr (messages ! unat v))] =
      Some (cstr ''EXCEPTION : '' @ cstr (messages ! unat v) @ cstr '' '' @ [10], m)"
    and "length (cstr ''EXCEPTION : '' @ cstr (messages ! unat v) @ cstr '' '' @ [10]) \<le> 1023"
    using message_no_nul [OF t] by (simp_all add: vsprintf_def format_simps [simplified])
qed

lemma value_lines:
  "vsprintf m (cstr ''   VECTOR : 0x%02X'' @ [10]) [Slot n] = Some (cstr ''   VECTOR : 0x'' @ hex_padded 2 n @ [10], m)"
  "vsprintf m (cstr ''   EFLAGS : 0x%08X'' @ [10]) [Slot n] = Some (cstr ''   EFLAGS : 0x'' @ hex_padded 8 n @ [10], m)"
  "vsprintf m (cstr ''       CS : 0x%02X'' @ [10]) [Slot n] = Some (cstr ''       CS : 0x'' @ hex_padded 2 n @ [10], m)"
  "vsprintf m (cstr ''      EIP : 0x%08X'' @ [10]) [Slot n] = Some (cstr ''      EIP : 0x'' @ hex_padded 8 n @ [10], m)"
  "vsprintf m (cstr ''      ESP : 0x%08X'' @ [10]) [Slot n] = Some (cstr ''      ESP : 0x'' @ hex_padded 8 n @ [10], m)"
  by (simp_all add: vsprintf_def directive_padded [simplified])

lemma value_line:
  assumes "log_inv s" and "vsprintf (ram s) fmt [Slot n] = Some (l @ hex_padded w n @ [10], ram s)" and "length l \<le> 20" and "w \<le> 8"
  obtains s' where "print_message fmt [Slot n] s = Some s'" and "log_inv s'" and "log_frame s s'"
    and "cursor s' = foldl cursor_step (cursor s) (l @ hex_padded w n @ [10])" and "shown_line (l @ hex_padded w n @ [10]) s = Some s'"
  by (rule report_line [OF assms(1,2)]) (use assms(3,4) length_hex_padded [of w n] in simp_all)

lemma handler_report:
  fixes s :: "'a printk_state_scheme"
  assumes log: "log_inv s" and v: "unat v < 22"
  obtains s' where "exception_handler v r eip (ucast cs) eflags s = Some s'" and "log_inv s'" and "log_frame s s'"
    and "cursor s' = foldl cursor_step (cursor s) (concat (exception_text v (p_esp r) eip cs eflags))"
    and "shown_lines (exception_text v (p_esp r) eip cs eflags) s = Some s'"
proof -
  obtain s1 where 1: "print_message (cstr ''EXCEPTION : %s '' @ [10]) [Lit (cstr (messages ! unat v))] s = Some s1" "log_inv s1"
    "log_frame s s1" "cursor s1 = foldl cursor_step (cursor s) (cstr ''EXCEPTION : '' @ cstr (messages ! unat v) @ cstr '' '' @ [10])"
    "shown_line (cstr ''EXCEPTION : '' @ cstr (messages ! unat v) @ cstr '' '' @ [10]) s = Some s1"
    by (rule report_line [OF log name_line [OF v]])
  obtain s2 where 2: "print_message (cstr ''   VECTOR : 0x%02X'' @ [10]) [Slot v] s1 = Some s2" "log_inv s2" "log_frame s1 s2"
    "cursor s2 = foldl cursor_step (cursor s1) (cstr ''   VECTOR : 0x'' @ hex_padded 2 v @ [10])"
    "shown_line (cstr ''   VECTOR : 0x'' @ hex_padded 2 v @ [10]) s1 = Some s2"
    by (rule value_line [OF 1(2) value_lines(1)]) simp_all
  obtain s3 where 3: "print_message (cstr ''   EFLAGS : 0x%08X'' @ [10]) [Slot eflags] s2 = Some s3" "log_inv s3" "log_frame s2 s3"
    "cursor s3 = foldl cursor_step (cursor s2) (cstr ''   EFLAGS : 0x'' @ hex_padded 8 eflags @ [10])"
    "shown_line (cstr ''   EFLAGS : 0x'' @ hex_padded 8 eflags @ [10]) s2 = Some s3"
    by (rule value_line [OF 2(2) value_lines(2)]) simp_all
  obtain s4 where 4: "print_message (cstr ''       CS : 0x%02X'' @ [10]) [Slot (scast (ucast cs :: u8))] s3 = Some s4" "log_inv s4"
    "log_frame s3 s4" "cursor s4 = foldl cursor_step (cursor s3) (cstr ''       CS : 0x'' @ hex_padded 2 (scast (ucast cs :: u8)) @ [10])"
    "shown_line (cstr ''       CS : 0x'' @ hex_padded 2 (scast (ucast cs :: u8)) @ [10]) s3 = Some s4"
    by (rule value_line [OF 3(2) value_lines(3)]) simp_all
  obtain s5 where 5: "print_message (cstr ''      EIP : 0x%08X'' @ [10]) [Slot eip] s4 = Some s5" "log_inv s5" "log_frame s4 s5"
    "cursor s5 = foldl cursor_step (cursor s4) (cstr ''      EIP : 0x'' @ hex_padded 8 eip @ [10])"
    "shown_line (cstr ''      EIP : 0x'' @ hex_padded 8 eip @ [10]) s4 = Some s5"
    by (rule value_line [OF 4(2) value_lines(4)]) simp_all
  obtain s6 where 6: "print_message (cstr ''      ESP : 0x%08X'' @ [10]) [Slot (p_esp r)] s5 = Some s6" "log_inv s6" "log_frame s5 s6"
    "cursor s6 = foldl cursor_step (cursor s5) (cstr ''      ESP : 0x'' @ hex_padded 8 (p_esp r) @ [10])"
    "shown_line (cstr ''      ESP : 0x'' @ hex_padded 8 (p_esp r) @ [10]) s5 = Some s6"
    by (rule value_line [OF 5(2) value_lines(5)]) simp_all
  have name: "message v = Some (cstr (messages ! unat v))"
    using v by (simp add: message_def messages_def)
  have "exception_handler v r eip (ucast cs) eflags s = Some s6"
    unfolding exception_handler_def name bind.bind_lunit 1(1) 2(1) 3(1) 4(1) 5(1) 6(1) ..
  moreover have "log_frame s s6"
    using 1(3) 2(3) 3(3) 4(3) 5(3) 6(3) log_frame_trans by blast
  moreover have "cursor s6 = foldl cursor_step (cursor s) (concat (exception_text v (p_esp r) eip cs eflags))"
    unfolding 6(4) 5(4) 4(4) 3(4) 2(4) 1(4) exception_text_def by (simp only: concat.simps append_Nil2 foldl_append)
  moreover have "shown_lines (exception_text v (p_esp r) eip cs eflags) s = Some s6"
    unfolding exception_text_def shown_lines.simps 1(5) 2(5) 3(5) 4(5) 5(5) 6(5) bind.bind_lunit ..
  ultimately show thesis
    using that 6(2) by blast
qed

section \<open>Properties\<close>

text \<open>
  C33: a stub shows the report of its vector, line by line, and stops in exactly the state after the last
  line, with nothing but the console changed. For the vectors without an error code the lines have the
  values the processor saved; for the others the stub takes the error code for EIP, EIP for CS and CS
  for EFLAGS.
\<close>

theorem exception_report_shifted:
  fixes s :: "'a printk_state_scheme"
  assumes "log_inv s" and "unat v < 22"
  shows "\<exists>s' ls. interrupt_stub v r (exception_stack v err eip cs eflags stack) s = Some s' \<and> log_inv s' \<and> log_frame s s'
    \<and> ls = (if has_error_code v then exception_text v (p_esp r) err eip cs else exception_text v (p_esp r) eip cs eflags)
    \<and> shown_lines ls s = Some s' \<and> cursor s' = foldl cursor_step (cursor s) (concat ls)"
proof (cases "has_error_code v")
  case True
  have "interrupt_stub v r (exception_stack v err eip cs eflags stack) s = exception_handler v r err (ucast eip) cs s"
    using True by (simp add: interrupt_stub_def exception_stack_def)
  then show ?thesis
    using True by (auto intro: handler_report [OF assms, of r err eip cs])
next
  case False
  have "interrupt_stub v r (exception_stack v err eip cs eflags stack) s = exception_handler v r eip (ucast cs) eflags s"
    using False by (simp add: interrupt_stub_def exception_stack_def)
  then show ?thesis
    using False by (auto intro: handler_report [OF assms, of r eip cs eflags])
qed

theorem exception_report_shifted_witness:
  "\<exists>s'. interrupt_stub 13 \<lparr>p_edi = 0, p_esi = 0, p_ebp = 0, p_esp = 0x9000, p_ebx = 0, p_edx = 0, p_ecx = 0, p_eax = 0\<rparr>
       (exception_stack 13 0x18 0x1234 8 2 []) booted_log = Some s'
     \<and> shown_lines (exception_text 13 0x9000 0x18 0x1234 8) booted_log = Some s'"
proof -
  have code: "has_error_code 13 = True" and v: "unat (13 :: u32) < 22"
    by (simp_all add: has_error_code_def)
  note report = exception_report_shifted [OF booted_log_inv(1) v, of
      "\<lparr>p_edi = 0, p_esi = 0, p_ebp = 0, p_esp = 0x9000, p_ebx = 0, p_edx = 0, p_ecx = 0, p_eax = 0\<rparr>" "0x18" "0x1234" 8 2 "[]",
      unfolded code if_True pushed_regs.select_convs]
  show ?thesis
    using report by (elim exE conjE) (intro exI conjI; simp only:)
qed

end
