(* ===== verification/Task_Layout.thy ===== *)
theory Task_Layout
  imports Task
begin

text \<open>
  The structures of \<open>kernel/include/linux/task.h\<close> field by field, and the offsets they give: the constants
  \<open>Task\<close> uses, which the assembly code of \<open>sched.asm\<close> and \<open>clock_handler.asm\<close> has as literals, are the
  offsets of the declared fields. Integers and pointers take 4 bytes on the 80386 and no padding arises.
\<close>

text \<open>Name and size of every field; the two bit fields share 16 bits.\<close>

definition tss_fields :: "(string \<times> nat) list" where
  "tss_fields =
     [(''backlink'', 4), (''esp0'', 4), (''ss0'', 4), (''esp1'', 4), (''ss1'', 4), (''esp2'', 4), (''ss2'', 4),
      (''cr3'', 4), (''eip'', 4), (''flags'', 4), (''eax'', 4), (''ecx'', 4), (''edx'', 4), (''ebx'', 4), (''esp'', 4),
      (''ebp'', 4), (''esi'', 4), (''edi'', 4), (''es'', 4), (''cs'', 4), (''ss'', 4), (''ds'', 4), (''fs'', 4), (''gs'', 4),
      (''ldtr'', 4), (''trace, reversed'', 2), (''iobase'', 2), (''ssp'', 4)]"

definition size_of :: "(string \<times> nat) list \<Rightarrow> nat" where
  "size_of fs = sum_list (map snd fs)"

definition task_fields :: "(string \<times> nat) list" where
  "task_fields =
     [(''tss'', size_of tss_fields), (''pid'', 4), (''ppid'', 4), (''name'', 32), (''state'', 4), (''exit_code'', 4),
      (''counter'', 4), (''priority'', 4), (''scheduling_times'', 4), (''esp0'', 4), (''ebp0'', 4), (''esp3'', 4),
      (''ebp3'', 4), (''magic'', 4)]"

text \<open>The enumeration counts from 0.\<close>

definition task_state_t :: "string list" where
  "task_state_t = [''TASK_INIT'', ''TASK_RUNNING'', ''TASK_READY'', ''TASK_BLOCKED'', ''TASK_SLEEPING'', ''TASK_WAITING'', ''TASK_DIED'']"

definition offset_of :: "(string \<times> nat) list \<Rightarrow> string \<Rightarrow> u32" where
  "offset_of fs name = of_nat (size_of (takeWhile (\<lambda>f. fst f \<noteq> name) fs))"

lemma task_offsets:
  "off_pid = offset_of task_fields ''pid''" "off_ppid = offset_of task_fields ''ppid''"
  "off_name = offset_of task_fields ''name''" "off_state = offset_of task_fields ''state''"
  "off_exit_code = offset_of task_fields ''exit_code''" "off_scheduling_times = offset_of task_fields ''scheduling_times''"
  "off_esp0 = offset_of task_fields ''esp0''" "off_ebp0 = offset_of task_fields ''ebp0''"
  "sizeof_task_t = of_nat (size_of task_fields)"
  by (simp_all add: offset_of_def size_of_def task_fields_def tss_fields_def)

lemma tss_offsets:
  "tss_esp0 = offset_of tss_fields ''esp0''" "tss_cr3 = offset_of tss_fields ''cr3''" "tss_eip = offset_of tss_fields ''eip''"
  "tss_eax = offset_of tss_fields ''eax''" "tss_ecx = offset_of tss_fields ''ecx''" "tss_edx = offset_of tss_fields ''edx''"
  "tss_ebx = offset_of tss_fields ''ebx''" "tss_ebp = offset_of tss_fields ''ebp''" "tss_esi = offset_of tss_fields ''esi''"
  "tss_edi = offset_of tss_fields ''edi''"
  by (simp_all add: offset_of_def size_of_def tss_fields_def)

lemma state_codes:
  "task_state_t ! unat TASK_RUNNING = ''TASK_RUNNING''" "task_state_t ! unat TASK_READY = ''TASK_READY''"
  by (simp_all add: task_state_t_def)

text \<open>The control block fits below the stack of its page.\<close>

lemma control_block_in_page: "sizeof_task_t < PAGE_SIZE"
  by (simp add: PAGE_SIZE_def)

end
