(* ===== verification/Ports.thy ===== *)
theory Ports
  imports Machine
begin

text \<open>
  The port functions of \<open>kernel/kernel/asm/io.asm\<close> over an arbitrary device: what an \<open>in\<close> instruction reads
  and what \<open>in\<close> and \<open>out\<close> do to the device are functions of the device, collected in a record. (The
  kernel itself writes bytes only, which \<open>Machine\<close> logs.)
\<close>

record 'd io_bus =
  port_in8 :: "u16 \<Rightarrow> 'd \<Rightarrow> u8 \<times> 'd"
  port_in16 :: "u16 \<Rightarrow> 'd \<Rightarrow> u16 \<times> 'd"
  port_out8 :: "u16 \<Rightarrow> u8 \<Rightarrow> 'd \<Rightarrow> 'd"
  port_out16 :: "u16 \<Rightarrow> u16 \<Rightarrow> 'd \<Rightarrow> 'd"

text \<open>The low part of a register is replaced: \<open>al\<close>, \<open>cl\<close> the lowest byte, \<open>ax\<close>, \<open>cx\<close> the lowest two.\<close>

definition set_low8 :: "u8 \<Rightarrow> 'w::len word \<Rightarrow> 'w word" where
  "set_low8 v r = (r AND NOT (mask 8)) OR ucast v"

definition set_low16 :: "u16 \<Rightarrow> 'w::len word \<Rightarrow> 'w word" where
  "set_low16 v r = (r AND NOT (mask 16)) OR ucast v"

definition in_byte :: "('d, 'a) io_bus_scheme \<Rightarrow> u32 \<Rightarrow> 'd \<Rightarrow> u32 \<times> 'd" where
  "in_byte B port d =
     (let eax = 0;
          edx = port;
          (al, d) = port_in8 B (ucast edx) d
      in (set_low8 al eax, d))"

definition in_word :: "('d, 'a) io_bus_scheme \<Rightarrow> u32 \<Rightarrow> 'd \<Rightarrow> u32 \<times> 'd" where
  "in_word B port d =
     (let eax = 0;
          edx = port;
          (ax, d) = port_in16 B (ucast edx) d
      in (set_low16 ax eax, d))"

definition out_word :: "('d, 'a) io_bus_scheme \<Rightarrow> u32 \<Rightarrow> u32 \<Rightarrow> 'd \<Rightarrow> 'd" where
  "out_word B port v d = (let edx = port; eax = v in port_out16 B (ucast edx) (ucast eax) d)"

lemma set_low8_0 [simp]: "set_low8 v 0 = ucast v"
  by (simp add: set_low8_def)

lemma set_low16_0 [simp]: "set_low16 v 0 = ucast v"
  by (simp add: set_low16_def)

lemma set_low16_small:
  fixes r :: "'w::len word"
  assumes "unat r < 2 ^ 16"
  shows "set_low16 v r = ucast v"
proof -
  have "take_bit 16 r = r"
    using assms by (simp add: word_unat_eq_iff unsigned_take_bit_eq take_bit_nat_eq_self)
  then have "r AND mask 16 = r"
    by (simp add: take_bit_eq_mask)
  then have "r AND NOT (mask 16) = (r AND mask 16) AND NOT (mask 16)"
    by simp
  also have "\<dots> = 0"
    by (simp add: and.assoc)
  finally show ?thesis
    by (simp add: set_low16_def)
qed

lemma unat_ucast_wider:
  fixes w :: "'v::len word"
  assumes "LENGTH('v) \<le> LENGTH('w)"
  shows "unat (ucast w :: 'w::len word) = unat w"
proof -
  have "unat w < 2 ^ LENGTH('w)"
    by (rule less_le_trans [OF unsigned_less]) (use assms in simp)
  then show ?thesis
    by (simp add: unsigned_ucast_eq take_bit_nat_eq_self)
qed

lemmas unat_ucast_u16 = unat_ucast_wider [where 'v = 16 and 'w = 32, simplified]
lemmas unat_ucast_u8 = unat_ucast_wider [where 'v = 8]

lemma ucast_u8_u16: "ucast (ucast (w :: u8) :: u32) = (ucast w :: u16)"
  by (rule bit_word_eqI) (auto simp: bit_simps dest: bit_imp_le_length)

lemma unat_pred_less:
  fixes b :: "'w::len word"
  assumes "b \<noteq> 0"
  shows "unat (b - 1) < unat b"
  using assms unat_sub_small [of 1 b] by (simp add: unat_gt_0 Suc_le_eq)

text \<open>What a C caller sees: the value, zero-extended.\<close>

lemma in_byte_value: "in_byte B port d = (let (v, d) = port_in8 B (ucast port) d in (ucast v, d))"
  by (simp add: in_byte_def)

lemma in_word_value: "in_word B port d = (let (v, d) = port_in16 B (ucast port) d in (ucast v, d))"
  by (simp add: in_word_def)

end
