(* ===== verification/Boot_Loader.thy ===== *)
theory Boot_Loader
  imports Ports Descriptors
begin

text \<open>
  The boot sector \<open>boot/boot.asm\<close> and the loader \<open>boot/setup.asm\<close>. Both read the disk through its ports;
  the loader also asks the BIOS for the memory map, loads a descriptor table and enters protected mode.
  The BIOS services and the devices are a record of functions over a device state; the registers that
  carry values between instructions are arguments and results. Segment registers are 0, then flat, so an
  address is physical. A wait that does not end is \<open>None\<close>. Words that \<open>call\<close> and \<open>push\<close> leave below the
  stack pointer are not kept.
\<close>

section \<open>The platform\<close>

text \<open>\<open>int 0x15\<close> writes bytes at \<open>es:di\<close> and answers in the carry flag, EBX and ECX.\<close>

record int15_result =
  r_carry :: bool
  r_bytes :: "u8 list"
  r_ebx :: u32
  r_ecx :: u32

text \<open>\<open>int10_mode\<close>: \<open>ah = 0\<close>, argument \<open>al\<close>. \<open>int10_teletype\<close>: \<open>ah = 0x0e\<close>, arguments \<open>al\<close>, \<open>bh\<close>, \<open>bl\<close>. \<open>int15\<close>:
  arguments EAX, EBX, ECX, EDX.\<close>

record 'd platform = "'d io_bus" +
  int10_mode :: "u8 \<Rightarrow> 'd \<Rightarrow> 'd"
  int10_teletype :: "u8 \<Rightarrow> u8 \<Rightarrow> u8 \<Rightarrow> 'd \<Rightarrow> 'd"
  int15 :: "u32 \<Rightarrow> u32 \<Rightarrow> u32 \<Rightarrow> u32 \<Rightarrow> 'd \<Rightarrow> int15_result \<times> 'd"

section \<open>Routines of both programs\<close>

text \<open>\<open>print\<close>: SI is 16 bits wide and the data segment is 0.\<close>

partial_function (option) print_loop :: "'d platform \<Rightarrow> u8 \<Rightarrow> u8 \<Rightarrow> mem \<Rightarrow> u16 \<Rightarrow> 'd \<Rightarrow> 'd option" where
  "print_loop P bh bl m si d =
     (let al = m (ucast si)
      in if al = 0 then Some d else print_loop P bh bl m (si + 1) (int10_teletype P al bh bl d))"

definition print :: "'d platform \<Rightarrow> mem \<Rightarrow> u16 \<Rightarrow> 'd \<Rightarrow> 'd option" where
  "print P m si d = print_loop P 0 0x01 m si d"

text \<open>
  The first part of \<open>read_hd\<close>: the number of sectors is in BL, the first sector in ECX. The result is
  ECX, with the count in CL, for the loop that follows.
\<close>

definition select_sectors :: "'d platform \<Rightarrow> u8 \<Rightarrow> u32 \<Rightarrow> 'd \<Rightarrow> u32 \<times> 'd" where
  "select_sectors P bl ecx d =
     (let dx = 0x1f2;
          al = bl;
          d = port_out8 P dx al d;
          dx = dx + 1;
          al = ucast ecx;
          d = port_out8 P dx al d;
          dx = dx + 1;
          al = ucast (drop_bit 8 ecx);
          d = port_out8 P dx al d;
          dx = dx + 1;
          ecx = drop_bit 16 ecx;
          al = ucast ecx;
          d = port_out8 P dx al d;
          dx = dx + 1;
          ecx = drop_bit 8 ecx;
          ecx = set_low8 (ucast ecx AND 0b1111) ecx;
          al = 0b11100000;
          al = al OR ucast ecx;
          d = port_out8 P dx al d;
          dx = dx + 1;
          al = 0x20;
          d = port_out8 P dx al d;
          ecx = set_low8 bl ecx
      in (ecx, d))"

partial_function (option) wait_hd_ready :: "'d platform \<Rightarrow> 'd \<Rightarrow> 'd option" where
  "wait_hd_ready P d =
     (let dx = 0x1f7;
          (al, d) = port_in8 P dx d;
          al = al AND 0b10001000
      in if al = 0b00001000 then Some d else wait_hd_ready P d)"

text \<open>
  The loop of \<open>read_hd_data\<close>. The instruction \<open>loop\<close> counts CX down in 16-bit code and ECX in 32-bit
  code; \<open>c\<close> is that register.
\<close>

function read_word :: "'d platform \<Rightarrow> 'w::len word \<Rightarrow> u32 \<Rightarrow> mem \<Rightarrow> 'd \<Rightarrow> 'w word \<times> u32 \<times> mem \<times> 'd" where
  "read_word P c edi m d =
     (let (ax, d) = port_in16 P 0x1f0 d;
          m = store16 m edi ax;
          edi = edi + 2;
          c = c - 1
      in if c \<noteq> 0 then read_word P c edi m d else (c, edi, m, d))"
  by pat_completeness auto
termination
  by (relation "measure (\<lambda>(P, c, edi, m, d). unat (c - 1))") (auto simp del: diff_diff_left diff_diff_eq intro!: unat_pred_less [of "_ - 1", simplified])

declare read_word.simps [simp del]

definition read_hd_data :: "'d platform \<Rightarrow> 'w::len word \<Rightarrow> u32 \<Rightarrow> mem \<Rightarrow> 'd \<Rightarrow> 'w word \<times> u32 \<times> mem \<times> 'd" where
  "read_hd_data P c edi m d = read_word P (set_low16 256 c) edi m d"

text \<open>The loop over the sectors; only CX is pushed and popped.\<close>

partial_function (option) start_read ::
  "'d platform \<Rightarrow> 'w::len word \<Rightarrow> u32 \<Rightarrow> mem \<Rightarrow> 'd \<Rightarrow> (u32 \<times> mem \<times> 'd) option" where
  "start_read P c edi m d =
     do { let cx = (ucast c :: u16);
          d \<leftarrow> wait_hd_ready P d;
          let (c, edi, m, d) = read_hd_data P c edi m d;
          let c = set_low16 cx c;
          let c = c - 1;
          if c \<noteq> 0 then start_read P c edi m d else Some (edi, m, d) }"

text \<open>\<open>read_hd\<close> of the boot sector, in 16-bit code, and of the loader, in 32-bit code.\<close>

definition read_hd16 :: "'d platform \<Rightarrow> u8 \<Rightarrow> u32 \<Rightarrow> u32 \<Rightarrow> mem \<Rightarrow> 'd \<Rightarrow> (u32 \<times> mem \<times> 'd) option" where
  "read_hd16 P bl ecx edi m d =
     (let (ecx, d) = select_sectors P bl ecx d in start_read P (ucast ecx :: u16) edi m d)"

definition read_hd :: "'d platform \<Rightarrow> u8 \<Rightarrow> u32 \<Rightarrow> u32 \<Rightarrow> mem \<Rightarrow> 'd \<Rightarrow> (u32 \<times> mem \<times> 'd) option" where
  "read_hd P bl ecx edi m d =
     (let (ecx, d) = select_sectors P bl ecx d in start_read P ecx edi m d)"

section \<open>The boot sector\<close>

definition BOOT_MAIN_ADDR :: u32 where [simp]: "BOOT_MAIN_ADDR = 0x500"
definition THE_NUMBER_OF_THE_STARTING_SECTOR :: u32 where [simp]: "THE_NUMBER_OF_THE_STARTING_SECTOR = 1"
definition THE_NUMBER_OF_SECTORS_TO_READ :: u8 where [simp]: "THE_NUMBER_OF_SECTORS_TO_READ = 2"

definition jump_to_setup_message :: "u8 list" where
  "jump_to_setup_message = cstr ''FunSizeOS jump to setup ...'' @ [10, 13, 0]"

text \<open>Up to the jump to \<open>BOOT_MAIN_ADDR\<close>; \<open>msg\<close> is the address of the message.\<close>

definition boot_start :: "'d platform \<Rightarrow> u16 \<Rightarrow> mem \<Rightarrow> 'd \<Rightarrow> (mem \<times> 'd) option" where
  "boot_start P msg m d =
     do { let d = int10_mode P 3 d;
          (_, m, d) \<leftarrow> read_hd16 P THE_NUMBER_OF_SECTORS_TO_READ THE_NUMBER_OF_THE_STARTING_SECTOR BOOT_MAIN_ADDR m d;
          d \<leftarrow> print P m msg d;
          Some (m, d) }"

text \<open>The demonstration \<open>hello/hello.asm\<close> only prints, with the same routine, up to its endless loop.\<close>

definition hello_start :: "'d platform \<Rightarrow> u16 \<Rightarrow> mem \<Rightarrow> 'd \<Rightarrow> 'd option" where
  "hello_start P msg m d = (let d = int10_mode P 3 d in print P m msg d)"

section \<open>The data of the loader\<close>

definition dw :: "u32 \<Rightarrow> u8 list" where
  "dw v = [ucast v, ucast (drop_bit 8 v)]"

definition dd :: "u32 \<Rightarrow> u8 list" where
  "dd v = [ucast v, ucast (drop_bit 8 v), ucast (drop_bit 16 v), ucast (drop_bit 24 v)]"

definition SEG_BASE :: u32 where [simp]: "SEG_BASE = 0"
definition SEG_LIMIT :: u32 where [simp]: "SEG_LIMIT = 0xfffff"
definition B8000_SEG_BASE :: u32 where [simp]: "B8000_SEG_BASE = 0xb8000"
definition B8000_SEG_LIMIT :: u32 where [simp]: "B8000_SEG_LIMIT = 0x7fff"

definition COMPUTE_G_DB_AVL_LIMIT :: "u32 \<Rightarrow> u32 \<Rightarrow> u8" where
  "COMPUTE_G_DB_AVL_LIMIT x y = ucast (x OR (drop_bit 16 y AND 0xf))"

definition gdt_code :: "u8 list" where
  "gdt_code = dw (SEG_LIMIT AND 0xffff) @ dw (SEG_BASE AND 0xffff) @ [ucast (drop_bit 16 SEG_BASE AND 0xff), 0b10011000,
     COMPUTE_G_DB_AVL_LIMIT 0b11000000 SEG_LIMIT, ucast (drop_bit 24 SEG_BASE AND 0xf)]"

definition gdt_data :: "u8 list" where
  "gdt_data = dw (SEG_LIMIT AND 0xffff) @ dw (SEG_BASE AND 0xffff) @ [ucast (drop_bit 16 SEG_BASE AND 0xff), 0b10010010,
     COMPUTE_G_DB_AVL_LIMIT 0b11000000 SEG_LIMIT, ucast (drop_bit 24 SEG_BASE AND 0xf)]"

definition gdt_b8000 :: "u8 list" where
  "gdt_b8000 = dw (B8000_SEG_LIMIT AND 0xffff) @ dw (B8000_SEG_BASE AND 0xffff)
     @ [ucast (drop_bit 16 B8000_SEG_BASE AND 0xff), 0b10010010, COMPUTE_G_DB_AVL_LIMIT 0b01000000 SEG_LIMIT,
        ucast (drop_bit 24 B8000_SEG_BASE AND 0xf)]"

definition setup_gdt :: "u8 list" where
  "setup_gdt = dd 0 @ dd 0 @ gdt_code @ gdt_data @ gdt_b8000"

text \<open>The section \<open>.gdt\<close> at address \<open>a\<close>: the table and the operand of \<open>lgdt\<close>, whose limit is its distance.\<close>

definition gdt_section :: "u32 \<Rightarrow> u8 list" where
  "gdt_section a = setup_gdt @ dw (of_nat (length setup_gdt)) @ dd a"

text \<open>The section \<open>.data\<close>: \<open>ARDS_TIMES\<close> and \<open>CHECK_BUFFER_OFFSET\<close>.\<close>

definition data_section :: "u8 list" where
  "data_section = dw 0 @ dw 0"

definition preparing_to_enter_protected_mode :: "u8 list" where
  "preparing_to_enter_protected_mode = cstr ''FunsizeOS is preparing to enter protected mode ... '' @ [10, 13, 0]"

definition memory_check_error_msg :: "u8 list" where
  "memory_check_error_msg = cstr ''FunsizeOS memory check fail ...'' @ [10, 13, 0]"

definition memory_check_success_msg :: "u8 list" where
  "memory_check_success_msg = cstr ''FunsizeOS memory check success ...'' @ [10, 13, 0]"

text \<open>The addresses the assembler gives to them.\<close>

record setup_layout =
  a_data :: u16
  a_gdt :: u16
  a_preparing :: u16
  a_error :: u16
  a_success :: u16

section \<open>The loader\<close>

definition KERNEL_ADDR :: u32 where [simp]: "KERNEL_ADDR = 0x1200"
definition ARDS_TIMES_BUFFER :: u16 where [simp]: "ARDS_TIMES_BUFFER = 0x1100"
definition ARDS_BUFFER :: u16 where [simp]: "ARDS_BUFFER = 0x1102"

text \<open>The loop of \<open>memory_check\<close>: left to the carry check (\<open>Inl\<close>) or with the map complete (\<open>Inr\<close>, with DI).\<close>

partial_function (option) memory_check_loop ::
  "'d platform \<Rightarrow> u32 \<Rightarrow> u32 \<Rightarrow> u16 \<Rightarrow> mem \<Rightarrow> 'd \<Rightarrow> (mem \<times> 'd + u16 \<times> mem \<times> 'd) option" where
  "memory_check_loop P ards_times ebx di m d =
     (let eax = 0xe820;
          ecx = 20;
          edx = 0x534D4150;
          (r, d) = int15 P eax ebx ecx edx d;
          m = mem_write m (ucast di) (r_bytes r);
          ebx = r_ebx r;
          ecx = r_ecx r
      in if r_carry r then Some (Inl (m, d))
         else
           (let di = di + ucast ecx;
                m = store32 m ards_times (load32 m ards_times + 1)
            in if ebx \<noteq> 0 then memory_check_loop P ards_times ebx di m d else Some (Inr (di, m, d))))"

definition memory_check :: "'d platform \<Rightarrow> setup_layout \<Rightarrow> mem \<Rightarrow> 'd \<Rightarrow> (mem \<times> 'd + mem \<times> 'd) option" where
  "memory_check P A m d =
     do { let ebx = 0;
          let di = ARDS_BUFFER;
          r \<leftarrow> memory_check_loop P (ucast (a_data A)) ebx di m d;
          case r of
            Inl (m, d) \<Rightarrow> Some (Inl (m, d))
          | Inr (di, m, d) \<Rightarrow>
              (let ax = load16 m (ucast (a_data A));
                   m = store16 m (ucast ARDS_TIMES_BUFFER) ax;
                   m = store16 m (ucast (a_data A + 2)) di
               in Some (Inr (m, d))) }"

text \<open>What the processor and the platform are left with.\<close>

record 'd loaded =
  ld_ram :: mem
  ld_dev :: 'd
  ld_gdtr :: xdt_ptr
  ld_cr0 :: u32
  ld_iflag :: bool
  ld_esp :: u32

text \<open>\<open>lgdt\<close> in 16-bit code loads a limit of 16 bits and a base of 24.\<close>

definition lgdt :: "mem \<Rightarrow> u32 \<Rightarrow> xdt_ptr" where
  "lgdt m a = \<lparr>xdt_limit = load16 m a, xdt_base = load32 m (a + 2) AND 0xffffff\<rparr>"

text \<open>Up to the far jump; the stack pointer is set after it.\<close>

definition enter_protected_mode :: "'d platform \<Rightarrow> setup_layout \<Rightarrow> u32 \<Rightarrow> u32 \<Rightarrow> mem \<Rightarrow> 'd \<Rightarrow> 'd loaded" where
  "enter_protected_mode P A cr0 esp m d =
     (let gdtr = lgdt m (ucast (a_gdt A) + of_nat (length setup_gdt));
          (al, d) = port_in8 P 0x92 d;
          al = al OR 0b00000010;
          d = port_out8 P 0x92 al d;
          eax = cr0;
          eax = eax OR 1
      in \<lparr>ld_ram = m, ld_dev = d, ld_gdtr = gdtr, ld_cr0 = eax, ld_iflag = False, ld_esp = esp\<rparr>)"

text \<open>Up to the jump to the kernel.\<close>

definition protected_mode :: "'d platform \<Rightarrow> 'd loaded \<Rightarrow> 'd loaded option" where
  "protected_mode P s =
     do { let s = s\<lparr>ld_esp := 0x9fbff\<rparr>;
          (_, m, d) \<leftarrow> read_hd P 60 3 KERNEL_ADDR (ld_ram s) (ld_dev s);
          Some (s\<lparr>ld_ram := m, ld_dev := d\<rparr>) }"

text \<open>After a failed check the loader stays in the loop \<open>jmp $\<close>, with the memory and the platform in the given states.\<close>

datatype 'd setup_error = Memory_check_error mem 'd

definition setup_start ::
  "'d platform \<Rightarrow> setup_layout \<Rightarrow> u32 \<Rightarrow> u32 \<Rightarrow> mem \<Rightarrow> 'd \<Rightarrow> ('d setup_error + 'd loaded) option" where
  "setup_start P A cr0 esp m d =
     do { d \<leftarrow> print P m (a_preparing A) d;
          r \<leftarrow> memory_check P A m d;
          case r of
            Inl (m, d) \<Rightarrow> do { d \<leftarrow> print P m (a_error A) d; Some (Inl (Memory_check_error m d)) }
          | Inr (m, d) \<Rightarrow>
              do { d \<leftarrow> print P m (a_success A) d;
                   s \<leftarrow> protected_mode P (enter_protected_mode P A cr0 esp m d);
                   Some (Inr s) } }"

end
