(* ===== verification/Boot_Loader_Spec.thy ===== *)
theory Boot_Loader_Spec
  imports Boot_Loader
begin

text \<open>
  What the loader's routines do on a platform that behaves as documented: a drive that becomes ready for
  each sector of a read command and then yields its words, and a BIOS that returns the memory map
  item by item. The contracts of both are stated over the device state only.
\<close>

section \<open>Contracts\<close>

text \<open>The status port reports data and no other activity after finitely many reads.\<close>

inductive drive_ready :: "'d platform \<Rightarrow> 'd \<Rightarrow> 'd \<Rightarrow> bool" for P where
  ready: "port_in8 P 0x1f7 d = (st, d') \<Longrightarrow> st AND 0x88 = 0x08 \<Longrightarrow> drive_ready P d d'"
| busy: "port_in8 P 0x1f7 d = (st, d') \<Longrightarrow> st AND 0x88 \<noteq> 0x08 \<Longrightarrow> drive_ready P d' d'' \<Longrightarrow> drive_ready P d d''"

inductive_cases drive_ready_cases: "drive_ready P d d'"

fun data_words :: "'d platform \<Rightarrow> nat \<Rightarrow> 'd \<Rightarrow> u16 list \<times> 'd" where
  "data_words P 0 d = ([], d)"
| "data_words P (Suc n) d =
     (let (w, d) = port_in16 P 0x1f0 d; (ws, d) = data_words P n d in (w # ws, d))"

fun delivers :: "'d platform \<Rightarrow> u16 list list \<Rightarrow> 'd \<Rightarrow> 'd \<Rightarrow> bool" where
  "delivers P [] d d' \<longleftrightarrow> d' = d"
| "delivers P (ws # wss) d d' \<longleftrightarrow>
     (\<exists>d1 d2. drive_ready P d d1 \<and> data_words P 256 d1 = (ws, d2) \<and> delivers P wss d2 d')"

text \<open>The command READ SECTORS: the count, the 28 bits of the first sector in LBA mode, the command.\<close>

definition read_command :: "'d platform \<Rightarrow> u8 \<Rightarrow> u32 \<Rightarrow> 'd \<Rightarrow> 'd" where
  "read_command P n lba d =
     port_out8 P 0x1f7 0x20 (port_out8 P 0x1f6 (0xE0 OR (ucast (drop_bit 24 lba) AND 0xF))
       (port_out8 P 0x1f5 (ucast (drop_bit 16 lba)) (port_out8 P 0x1f4 (ucast (drop_bit 8 lba))
         (port_out8 P 0x1f3 (ucast lba) (port_out8 P 0x1f2 n d)))))"

definition ata_disk :: "'d platform \<Rightarrow> (nat \<Rightarrow> u16 list) \<Rightarrow> bool" where
  "ata_disk P sectors \<longleftrightarrow>
     (\<forall>d n lba. n \<noteq> 0 \<longrightarrow> unat lba + unat n \<le> 2 ^ 28 \<longrightarrow>
        (\<exists>d'. delivers P (map (\<lambda>i. sectors (unat lba + i)) [0..<unat n]) (read_command P n lba d) d'))"

text \<open>The BIOS returns an item of 20 bytes per call; EBX leads from call to call and is 0 after the last.\<close>

fun e820_items :: "'d platform \<Rightarrow> u32 \<Rightarrow> u8 list list \<Rightarrow> 'd \<Rightarrow> bool" where
  "e820_items P ebx [] d \<longleftrightarrow> False"
| "e820_items P ebx (e # es) d \<longleftrightarrow>
     (let (r, d') = int15 P 0xe820 ebx 20 0x534D4150 d
      in \<not> r_carry r \<and> r_bytes r = e \<and> length e = 20 \<and> r_ecx r = 20
         \<and> (if es = [] then r_ebx r = 0 else r_ebx r \<noteq> 0 \<and> e820_items P (r_ebx r) es d'))"

definition bios_map :: "'d platform \<Rightarrow> u8 list list \<Rightarrow> bool" where
  "bios_map P items \<longleftrightarrow> (\<forall>d. e820_items P 0 items d)"

section \<open>Printing and waiting\<close>

lemma print_loop_runs:
  assumes "c_string m (ucast si) bs" and "unat si + length bs < 2 ^ 16"
  shows "print_loop P bh bl m si d = Some (foldl (\<lambda>d al. int10_teletype P al bh bl d) d bs)"
  using assms
proof (induction bs arbitrary: si d)
  case Nil
  then show ?case
    by (subst print_loop.simps) simp
next
  case (Cons b bs)
  have succ: "ucast (si + 1) = (ucast si + 1 :: u32)" "unat (si + 1) = unat si + 1"
  proof -
    show si: "unat (si + 1) = unat si + 1"
      using Cons.prems(2) unat_add_small [of si 1] by simp
    have "unat (ucast si + 1 :: u32) = unat si + 1"
      using Cons.prems(2) unat_add_small [of "ucast si :: u32" 1] by (simp add: unat_ucast_u16)
    then show "ucast (si + 1) = (ucast si + 1 :: u32)"
      using si by (simp add: word_unat_eq_iff unat_ucast_u16)
  qed
  have "print_loop P bh bl m (si + 1) (int10_teletype P b bh bl d) =
      Some (foldl (\<lambda>d al. int10_teletype P al bh bl d) (int10_teletype P b bh bl d) bs)"
    using Cons.prems succ by (intro Cons.IH) simp_all
  then show ?case
    using Cons.prems by (subst print_loop.simps) (simp add: Let_def)
qed

lemma print_returns:
  assumes "c_string m (ucast si) bs" and "unat si + length bs < 2 ^ 16"
  shows "\<exists>d'. print P m si d = Some d'"
  unfolding print_def by (rule exI, rule print_loop_runs [OF assms])

text \<open>The demonstration shows exactly the string at its message.\<close>

lemma hello_shows:
  assumes "c_string m (ucast msg) bs" and "unat msg + length bs < 2 ^ 16"
  shows "hello_start P msg m d = Some (foldl (\<lambda>d al. int10_teletype P al 0 1 d) (int10_mode P 3 d) bs)"
  unfolding hello_start_def print_def Let_def by (rule print_loop_runs [OF assms])

lemma wait_returns: "drive_ready P d d' \<Longrightarrow> wait_hd_ready P d = Some d'"
  by (induction rule: drive_ready.induct) (subst wait_hd_ready.simps, simp add: Let_def)+

lemma wait_only_ready:
  fixes P :: "'a platform"
  assumes "wait_hd_ready P d = Some d'"
  shows "drive_ready P d d'"
proof (rule wait_hd_ready.raw_induct [where Pa = "\<lambda>Pd. drive_ready (fst Pd) (snd Pd)", unfolded fst_conv snd_conv, OF _ assms])
  fix f and P :: "'a platform" and d d' :: 'a
  assume IH: "\<And>P d d'. f P d = Some d' \<Longrightarrow> drive_ready P d d'"
    and step: "(let dx = 0x1f7; (al, d) = port_in8 P dx d; al = al AND 0x88 in if al = 0x08 then Some d else f P d) = Some d'"
  obtain st d1 where st: "port_in8 P 0x1f7 d = (st, d1)"
    by (cases "port_in8 P 0x1f7 d")
  show "drive_ready P d d'"
  proof (cases "st AND 0x88 = 0x08")
    case True
    then show ?thesis
      using step st drive_ready.ready [OF st] by simp
  next
    case False
    then have "f P d1 = Some d'"
      using step st by simp
    then show ?thesis
      using drive_ready.busy [OF st False] IH by blast
  qed
qed

lemma wait_iff: "wait_hd_ready P d = Some d' \<longleftrightarrow> drive_ready P d d'"
  by (rule iffI) (erule wait_only_ready, erule wait_returns)

section \<open>Reading sectors\<close>

definition le_bytes :: "u16 list \<Rightarrow> u8 list" where
  "le_bytes ws = concat (map (\<lambda>w. [ucast w, ucast (drop_bit 8 w)]) ws)"

lemma le_bytes_simps [simp]:
  "le_bytes [] = []" "le_bytes (w # ws) = ucast w # ucast (drop_bit 8 w) # le_bytes ws"
  "le_bytes (ws @ vs) = le_bytes ws @ le_bytes vs"
  by (simp_all add: le_bytes_def)

lemma length_le_bytes [simp]: "length (le_bytes ws) = 2 * length ws"
  by (induction ws) simp_all

lemma length_data_words: "length (fst (data_words P n d)) = n"
  by (induction n arbitrary: d) (simp_all add: split_beta)

lemma mem_write_store16:
  assumes "length bs + 1 < 2 ^ 32"
  shows "mem_write (store16 m a w) (a + 2) bs = mem_write m a (ucast w # ucast (drop_bit 8 w) # bs)"
  using assms by (simp add: mem_write_Cons store16_def add.assoc)

lemma read_word_data:
  assumes "unat c = Suc n" and "n < 2 ^ 30"
  shows "read_word P c edi m d =
    (let (ws, d') = data_words P (Suc n) d in (0, edi + of_nat (2 * Suc n), mem_write m edi (le_bytes ws), d'))"
  using assms
proof (induction n arbitrary: c edi m d)
  case 0
  then have "c = 1"
    by (simp add: word_unat_eq_iff)
  then show ?case
    by (subst read_word.simps) (simp add: Let_def split_beta mem_write_store16 [of "[]", simplified, symmetric])
next
  case (Suc n)
  then have "c \<noteq> 0" "unat (c - 1) = Suc n"
    using unat_sub_small [of 1 c] by (auto simp: word_unat_eq_iff)
  then have c: "c - 1 \<noteq> 0"
    by auto
  obtain w d1 where w: "port_in16 P 0x1f0 d = (w, d1)"
    by (cases "port_in16 P 0x1f0 d")
  obtain ws d2 where ws: "data_words P (Suc n) d1 = (ws, d2)"
    by (cases "data_words P (Suc n) d1")
  have len: "length ws = Suc n"
    using length_data_words [of P "Suc n" d1] ws by simp
  have "read_word P (c - 1) (edi + 2) (store16 m edi w) d1 =
      (0, edi + 2 + of_nat (2 * Suc n), mem_write (store16 m edi w) (edi + 2) (le_bytes ws), d2)"
    using Suc.IH [OF \<open>unat (c - 1) = Suc n\<close>] Suc.prems(2) ws by (simp add: Let_def)
  moreover have "read_word P c edi m d = read_word P (c - 1) (edi + 2) (store16 m edi w) d1"
    using c w by (subst read_word.simps) (simp add: Let_def)
  ultimately show ?case
    using w ws len Suc.prems(2) by (simp add: Let_def mem_write_store16 del: data_words.simps(2)) (simp add: Let_def)
qed

lemma delivers_lengths: "delivers P wss d d' \<Longrightarrow> ws \<in> set wss \<Longrightarrow> length ws = 256"
proof (induction wss arbitrary: d)
  case (Cons vs wss)
  then show ?case
    using length_data_words [of P 256] by (auto; metis fst_conv)
qed simp

lemma length_delivered: "delivers P wss d d' \<Longrightarrow> length (le_bytes (concat wss)) = 512 * length wss"
proof (induction wss arbitrary: d)
  case (Cons ws wss)
  then show ?case
    using delivers_lengths [OF Cons.prems, of ws] by auto
qed simp

lemma read_sector:
  fixes c :: "'w::len word"
  assumes "16 \<le> LENGTH('w)" and "unat c < 2 ^ 16" and "data_words P 256 d = (ws, d')"
  shows "read_hd_data P c edi m d = (0, edi + 512, mem_write m edi (le_bytes ws), d')"
proof -
  have "set_low16 256 c = (256 :: 'w word)"
    using set_low16_small [OF assms(2), of 256] by simp
  moreover have "unat (256 :: 'w word) = Suc 255"
  proof -
    have "(256 :: nat) < 2 ^ LENGTH('w)"
      using power_increasing [OF assms(1), of "2 :: nat"] by simp
    then show ?thesis
      using unat_of_nat_small [of 256, where 'a = 'w] by simp
  qed
  ultimately show ?thesis
    using read_word_data [of "256 :: 'w word" 255 P edi m d] assms(3) by (simp add: read_hd_data_def Let_def)
qed

lemma start_read_sectors:
  fixes c :: "'w::len word"
  assumes "16 \<le> LENGTH('w)" and "delivers P wss d d'" and "unat c = length wss" and "wss \<noteq> []" and "length wss < 2 ^ 16"
  shows "start_read P c edi m d = Some (edi + of_nat (512 * length wss), mem_write m edi (le_bytes (concat wss)), d')"
  using assms(2-)
proof (induction wss arbitrary: c edi m d)
  case (Cons ws wss)
  obtain d1 d2 where d: "drive_ready P d d1" "data_words P 256 d1 = (ws, d2)" "delivers P wss d2 d'"
    using Cons.prems(1) by auto
  have c: "unat c < 2 ^ 16"
    using Cons.prems(2,4) by simp
  have popped: "set_low16 (ucast c) (0 :: 'w word) = c"
    using c by (simp add: word_unat_eq_iff unsigned_ucast_eq unsigned_take_bit_eq take_bit_nat_eq_self)
  have len: "length ws = 256"
    using delivers_lengths [OF Cons.prems(1)] by simp
  have step: "start_read P c edi m d = (if c - 1 \<noteq> 0 then start_read P (c - 1) (edi + 512) (mem_write m edi (le_bytes ws)) d2
      else Some (edi + 512, mem_write m edi (le_bytes ws), d2))"
    using read_sector [OF assms(1) c d(2), of edi m] popped wait_returns [OF d(1)]
    by (subst start_read.simps) (simp add: Let_def)
  show ?case
  proof (cases "wss = []")
    case True
    then have "c = 1"
      using Cons.prems(2) by (simp add: word_unat_eq_iff)
    then show ?thesis
      using True d(3) step by simp
  next
    case False
    then have c1: "unat (c - 1) = length wss"
      using Cons.prems(2) unat_sub_small [of 1 c] by simp
    then have "c - 1 \<noteq> 0"
      using False by auto
    moreover have "start_read P (c - 1) (edi + 512) (mem_write m edi (le_bytes ws)) d2 =
        Some (edi + 512 + of_nat (512 * length wss), mem_write (mem_write m edi (le_bytes ws)) (edi + 512) (le_bytes (concat wss)), d')"
      by (rule Cons.IH [OF d(3) c1 False]) (use Cons.prems(4) in simp)
    moreover have "mem_write (mem_write m edi (le_bytes ws)) (edi + of_nat (length (le_bytes ws))) (le_bytes (concat wss)) =
        mem_write m edi (le_bytes ws @ le_bytes (concat wss))"
      by (rule mem_write_append) (use len length_delivered [OF d(3)] Cons.prems(4) in simp_all)
    ultimately show ?thesis
      using step len by simp
  qed
qed simp

lemma select_sectors_command: "select_sectors P bl ecx d = (ucast bl, read_command P bl ecx d)"
proof -
  have "ucast (set_low8 v (w :: u32)) = v" for v w
    by (auto simp: set_low8_def bit_simps intro!: bit_word_eqI)
  moreover have "set_low8 bl (set_low8 v (drop_bit 24 ecx)) = ucast bl" for v
    by (auto simp: set_low8_def bit_simps bit_beyond intro!: bit_word_eqI)
  ultimately show ?thesis
    by (simp add: select_sectors_def read_command_def Let_def)
qed

text \<open>Both routines read the sectors asked for to the address in EDI.\<close>

definition disk_bytes :: "(nat \<Rightarrow> u16 list) \<Rightarrow> nat \<Rightarrow> nat \<Rightarrow> u8 list" where
  "disk_bytes sectors lba n = le_bytes (concat (map sectors [lba..<lba + n]))"

lemma read_hd_data_ok:
  fixes c :: "'w::len word"
  assumes "16 \<le> LENGTH('w)" and disk: "ata_disk P sectors" and n: "n \<noteq> 0" "unat lba + unat n \<le> 2 ^ 28" and "unat c = unat n"
  obtains d' where "start_read P c edi m (read_command P n lba d) =
      Some (edi + of_nat (512 * unat n), mem_write m edi (disk_bytes sectors (unat lba) (unat n)), d')"
    and "length (disk_bytes sectors (unat lba) (unat n)) = 512 * unat n"
proof -
  have "map (\<lambda>i. sectors (unat lba + i)) [0..<unat n] = map sectors [unat lba..<unat lba + unat n]"
    by (rule nth_equalityI) simp_all
  then obtain d' where d': "delivers P (map sectors [unat lba..<unat lba + unat n]) (read_command P n lba d) d'"
    using disk n unfolding ata_disk_def by fastforce
  have "0 < unat n" "unat n < 2 ^ 8"
    using n(1) unsigned_less [of n] by (simp_all add: unat_gt_0)
  then show thesis
    using start_read_sectors [OF assms(1) d', of c edi m] length_delivered [OF d'] assms(5) that
    by (simp add: disk_bytes_def)
qed

lemma read_hd_ok:
  assumes "ata_disk P sectors" and "n \<noteq> 0" and "unat lba + unat n \<le> 2 ^ 28"
  obtains d' where "read_hd P n lba edi m d =
      Some (edi + of_nat (512 * unat n), mem_write m edi (disk_bytes sectors (unat lba) (unat n)), d')"
    and "length (disk_bytes sectors (unat lba) (unat n)) = 512 * unat n"
proof (rule read_hd_data_ok [where 'w = 32, OF _ assms, of "ucast n" edi m d])
  show "unat (ucast n :: 32 word) = unat n"
    by (rule unat_ucast_u8) simp
qed (use that in \<open>simp_all add: read_hd_def select_sectors_command\<close>)

lemma read_hd16_ok:
  assumes "ata_disk P sectors" and "n \<noteq> 0" and "unat lba + unat n \<le> 2 ^ 28"
  obtains d' where "read_hd16 P n lba edi m d =
      Some (edi + of_nat (512 * unat n), mem_write m edi (disk_bytes sectors (unat lba) (unat n)), d')"
    and "length (disk_bytes sectors (unat lba) (unat n)) = 512 * unat n"
proof (rule read_hd_data_ok [where 'w = 16, OF _ assms, of "ucast n" edi m d])
  show "unat (ucast n :: 16 word) = unat n"
    by (rule unat_ucast_u8) simp
qed (use that in \<open>simp_all add: read_hd16_def select_sectors_command ucast_u8_u16\<close>)

section \<open>The memory map\<close>

lemma store32_value: "in_range a 4 x \<Longrightarrow> store32 m a v x = store32 m' a v x"
  by (erule in_rangeE) (auto simp: store32_def dest!: byte_cases4)

lemma mem_write_store32:
  assumes "disjoint_ranges a (length bs) t 4"
  shows "mem_write (store32 m t v) a bs = store32 (mem_write m a bs) t v"
proof
  fix x
  show "mem_write (store32 m t v) a bs x = store32 (mem_write m a bs) t v x"
  proof (cases "in_range t 4 x")
    case True
    then have "\<not> in_range a (length bs) x"
      using assms by (auto simp: disjoint_ranges_def)
    then show ?thesis
      using True store32_value [of t x m v "mem_write m a bs"] by (simp add: mem_write_other)
  next
    case False
    then show ?thesis
      by (simp add: store32_other) (simp add: mem_write_def store32_other)
  qed
qed

lemma store32_twice: "store32 (store32 m t v) t w = store32 m t w"
proof
  fix x
  show "store32 (store32 m t v) t w x = store32 m t w x"
    by (cases "in_range t 4 x") (auto simp: store32_other intro: store32_value)
qed

lemma load16_store32: "load16 (store32 m a v) a = ucast v"
proof -
  have "ucast (ucast v :: u8) OR push_bit 8 (ucast (ucast (drop_bit 8 v) :: u8)) = (ucast v :: u16)"
    by (rule bit_word_eqI) (auto simp: bit_simps)
  then show ?thesis
    by (simp add: load16_def store32_def)
qed

lemma ucast_of_nat_u32: "ucast (of_nat n :: u32) = (of_nat n :: u16)"
  by (rule bit_word_eqI) (simp add: bit_simps)

lemma length_e820_items: "e820_items P ebx items d \<Longrightarrow> e \<in> set items \<Longrightarrow> length e = 20"
  by (induction items arbitrary: ebx d) (auto split: prod.splits if_splits)

lemma length_concat_items:
  assumes "\<And>e. e \<in> set items \<Longrightarrow> length e = 20"
  shows "length (concat items) = 20 * length items"
  using assms by (induction items) simp_all

lemma unat_ucast_add16:
  fixes di :: u16
  assumes "unat di + k < 2 ^ 16"
  shows "ucast (di + of_nat k) = (ucast di + of_nat k :: u32)" and "unat (di + of_nat k) = unat di + k"
proof -
  show di: "unat (di + of_nat k) = unat di + k"
    using assms by (intro unat_add_small) simp
  have "unat (ucast di + of_nat k :: u32) = unat di + k"
    using assms unat_add_small [of "ucast di :: u32" k] by (simp add: unat_ucast_u16)
  then show "ucast (di + of_nat k) = (ucast di + of_nat k :: u32)"
    using di by (simp add: word_unat_eq_iff unat_ucast_u16)
qed

lemma memory_check_loop_ok:
  assumes "e820_items P ebx items d" and "unat t + 4 \<le> 0x1100" and "0x1102 \<le> unat di" and "unat di + 20 * length items < 2 ^ 16"
  shows "\<exists>d'. memory_check_loop P t ebx di m d = Some (Inr (di + of_nat (20 * length items),
    store32 (mem_write m (ucast di) (concat items)) t (load32 m t + of_nat (length items)), d'))"
  using assms
proof (induction items arbitrary: ebx di m d)
  case (Cons e es)
  obtain r d1 where r: "int15 P 0xe820 ebx 20 0x534D4150 d = (r, d1)"
    by (cases "int15 P 0xe820 ebx 20 0x534D4150 d")
  have e: "\<not> r_carry r" "r_bytes r = e" "length e = 20" "r_ecx r = 20"
    and more: "if es = [] then r_ebx r = 0 else r_ebx r \<noteq> 0 \<and> e820_items P (r_ebx r) es d1"
    using Cons.prems(1) r by simp_all
  have di: "ucast (di + 20) = (ucast di + 20 :: u32)" "unat (di + 20) = unat di + 20"
    using unat_ucast_add16 [of di 20] Cons.prems(4) by simp_all
  have apart: "disjoint_ranges (ucast di + k) n t 4" if "unat k + n \<le> 20 * length (e # es)" for k n
  proof (rule disjoint_rangesI)
    have "unat (ucast di + k) = unat di + unat k"
      using that Cons.prems(4) unat_add_small [of "ucast di :: u32" "unat k"] by (simp add: unat_ucast_u16)
    then show "unat (ucast di + k) + n \<le> 2 ^ 32" "unat t + 4 \<le> 2 ^ 32"
      "unat (ucast di + k) + n \<le> unat t \<or> unat t + 4 \<le> unat (ucast di + k)"
      using that Cons.prems(2-4) by simp_all
  qed
  define m1 where "m1 = mem_write m (ucast di) e"
  have load: "load32 m1 t = load32 m t"
    unfolding m1_def using apart [of 0 20] e(3)
    by (intro load32_cong mem_write_other) (auto simp: disjoint_ranges_def)
  have step: "memory_check_loop P t ebx di m d = (if r_ebx r \<noteq> 0
      then memory_check_loop P t (r_ebx r) (di + 20) (store32 m1 t (load32 m t + 1)) d1
      else Some (Inr (di + 20, store32 m1 t (load32 m t + 1), d1)))"
    using r e load by (subst memory_check_loop.simps) (simp add: Let_def m1_def)
  show ?case
  proof (cases "es = []")
    case True
    then show ?thesis
      using step more by (simp add: m1_def)
  next
    case False
    then obtain d' where "memory_check_loop P t (r_ebx r) (di + 20) (store32 m1 t (load32 m t + 1)) d1 =
        Some (Inr (di + 20 + of_nat (20 * length es), store32 (mem_write (store32 m1 t (load32 m t + 1)) (ucast (di + 20)) (concat es)) t
          (load32 (store32 m1 t (load32 m t + 1)) t + of_nat (length es)), d'))"
      using Cons.IH [of "r_ebx r" d1 "di + 20" "store32 m1 t (load32 m t + 1)"] more Cons.prems(2-4) di by auto
    moreover have "length (concat es) = 20 * length es"
      using length_e820_items more False by (intro length_concat_items) auto
    moreover from this have "mem_write (store32 m1 t v) (ucast (di + 20)) (concat es) = store32 (mem_write m (ucast di) (concat (e # es))) t v" for v
      using apart [of 20 "length (concat es)"] e(3) di mem_write_append [of e "concat es" m "ucast di"] Cons.prems(4)
      by (simp add: mem_write_store32 m1_def)
    ultimately show ?thesis
      using step more False by (simp add: store32_twice add.assoc)
  qed
qed simp

lemma memory_check_ok:
  assumes bios: "bios_map P items" and n: "length items \<le> 3000" and a: "unat (a_data A) + 4 \<le> 0x1100"
    and zero: "load32 m (ucast (a_data A)) = 0"
  obtains m' d' where "memory_check P A m d = Some (Inr (m', d'))" and "load16 m' 0x1100 = of_nat (length items)"
    and "mem_bytes m' 0x1102 (20 * length items) = concat items"
    and "\<And>x. \<not> in_range 0x1100 (2 + 20 * length items) x \<Longrightarrow> \<not> in_range (ucast (a_data A)) 4 x \<Longrightarrow> m' x = m x"
proof -
  let ?t = "ucast (a_data A) :: u32" and ?n = "length items"
  let ?m1 = "mem_write m 0x1102 (concat items)"
  let ?m2 = "store32 ?m1 ?t (of_nat ?n)"
  let ?di = "0x1102 + of_nat (20 * ?n) :: u16"
  let ?m3 = "store16 (store16 ?m2 0x1100 (of_nat ?n)) (?t + 2) ?di"
  have items: "e820_items P 0 items d"
    using bios by (simp add: bios_map_def)
  have t: "unat ?t = unat (a_data A)"
    by (rule unat_ucast_u16)
  obtain d' where "memory_check_loop P ?t 0 0x1102 m d = Some (Inr (?di, ?m2, d'))"
    using memory_check_loop_ok [OF items, of ?t "0x1102" m] n a zero by (auto simp: t)
  moreover have "ucast (a_data A + 2) = ?t + 2"
    using unat_ucast_add16(1) [of "a_data A" 2] a by simp
  ultimately have run: "memory_check P A m d = Some (Inr (?m3, d'))"
    by (simp add: memory_check_def load16_store32 ucast_of_nat_u32 Let_def)
  have len: "length (concat items) = 20 * ?n"
    using length_e820_items [OF items] by (rule length_concat_items)
  have data: "in_range (?t + 2) 2 x \<Longrightarrow> in_range ?t 4 x" for x
    using in_range_sub [of ?t 2 2 x 4] by simp
  have count: "in_range 0x1100 2 x \<Longrightarrow> in_range 0x1100 (2 + 20 * ?n) x" for x
    by (erule in_range_weaken) simp
  have buffer: "in_range 0x1102 (20 * ?n) x \<Longrightarrow> in_range 0x1100 (2 + 20 * ?n) x" for x
    using in_range_sub [of "0x1100" 2 "20 * ?n" x "2 + 20 * ?n"] n by simp
  have apart: "in_range 0x1100 (2 + 20 * ?n) x \<Longrightarrow> \<not> in_range ?t 4 x" for x
    using a n by (simp add: in_range_nat t)
  have "load16 ?m3 0x1100 = of_nat ?n"
    using apart count data by (subst load16_store16_disjoint) (auto simp: disjoint_ranges_def)
  moreover have "mem_bytes ?m3 0x1102 (20 * ?n) = concat items"
  proof -
    have "?m3 x = ?m1 x" if "in_range 0x1102 (20 * ?n) x" for x
    proof -
      have "\<not> in_range 0x1100 2 x"
        using that n by (simp add: in_range_nat)
      then show ?thesis
        using apart [OF buffer [OF that]] data [of x] by (cases "in_range (?t + 2) 2 x") (simp_all add: store16_other store32_other)
    qed
    then have "mem_bytes ?m3 0x1102 (20 * ?n) = mem_bytes ?m1 0x1102 (20 * ?n)"
      using n by (intro nth_equalityI) simp_all
    then show ?thesis
      using mem_bytes_write [of "concat items" m "0x1102"] len n by simp
  qed
  moreover have "?m3 x = m x" if "\<not> in_range 0x1100 (2 + 20 * ?n) x" "\<not> in_range ?t 4 x" for x
  proof -
    have "\<not> in_range 0x1100 2 x" "\<not> in_range (?t + 2) 2 x" "\<not> in_range 0x1102 (20 * ?n) x"
      using that count data buffer by blast+
    then show ?thesis
      using that len by (simp add: store16_other store32_other mem_write_other)
  qed
  ultimately show thesis
    by (rule that [OF run])
qed

section \<open>The image on the disk\<close>

text \<open>\<open>placed img a xs\<close>: the loader's image, which starts at \<open>0x500\<close>, has \<open>xs\<close> at address \<open>a\<close>.\<close>

definition placed :: "u8 list \<Rightarrow> u16 \<Rightarrow> u8 list \<Rightarrow> bool" where
  "placed img a xs \<longleftrightarrow> 0x500 \<le> unat a \<and> unat a + length xs \<le> 0x500 + length img
     \<and> take (length xs) (drop (unat a - 0x500) img) = xs"

definition apart16 :: "u16 \<Rightarrow> nat \<Rightarrow> u16 \<Rightarrow> nat \<Rightarrow> bool" where
  "apart16 a n b k \<longleftrightarrow> unat a + n \<le> unat b \<or> unat b + k \<le> unat a"

definition setup_image :: "setup_layout \<Rightarrow> u8 list \<Rightarrow> bool" where
  "setup_image A img \<longleftrightarrow> placed img (a_data A) data_section \<and> placed img (a_gdt A) (gdt_section (ucast (a_gdt A)))
     \<and> placed img (a_preparing A) preparing_to_enter_protected_mode \<and> placed img (a_error A) memory_check_error_msg
     \<and> placed img (a_success A) memory_check_success_msg
     \<and> apart16 (a_data A) 4 (a_gdt A) (length (gdt_section (ucast (a_gdt A))))
     \<and> apart16 (a_data A) 4 (a_error A) (length memory_check_error_msg)
     \<and> apart16 (a_data A) 4 (a_success A) (length memory_check_success_msg)"

lemma mem_bytes_slice: "i + n \<le> k \<Longrightarrow> mem_bytes m (a + of_nat i) n = take n (drop i (mem_bytes m a k))"
  by (rule nth_equalityI) (simp_all add: add.assoc)

lemma placed_bytes:
  assumes "placed img a xs" and "mem_bytes m 0x500 (length img) = img"
  shows "mem_bytes m (ucast a) (length xs) = xs"
proof -
  have a: "0x500 \<le> unat a" "unat a + length xs \<le> 0x500 + length img"
    using assms(1) by (simp_all add: placed_def)
  have "unat a < 2 ^ 16"
    by (rule less_le_trans [OF unsigned_less]) simp
  then have "ucast a = (0x500 + of_nat (unat a - 0x500) :: u32)"
    using a(1) unat_add_small [of "0x500 :: u32" "unat a - 0x500"] by (simp add: word_unat_eq_iff unat_ucast_u16)
  then show ?thesis
    using mem_bytes_slice [of "unat a - 0x500" "length xs" "length img" m "0x500"] a assms by (simp add: placed_def)
qed

lemma c_string_mem_bytes:
  assumes "mem_bytes m a (length bs + 1) = bs @ [0]" and "0 \<notin> set bs"
  shows "c_string m a bs"
  using assms
proof (induction bs arbitrary: a)
  case Nil
  then show ?case
    by (simp add: mem_bytes_def)
next
  case (Cons b bs)
  have "mem_bytes m a (length (b # bs) + 1) = m a # mem_bytes m (a + 1) (length bs + 1)"
    by (rule nth_equalityI) (simp_all add: nth_Cons add.assoc split: nat.split)
  then show ?case
    using Cons by simp
qed

lemma mem_bytes_cong:
  assumes "\<And>x. in_range a n x \<Longrightarrow> m' x = m x" and "n \<le> 2 ^ 32"
  shows "mem_bytes m' a n = mem_bytes m a n"
  by (rule nth_equalityI) (use assms in simp_all)

lemma load32_bytes:
  assumes "mem_bytes m a 4 = [w0, w1, w2, w3]"
  shows "load32 m a = ucast w0 OR push_bit 8 (ucast w1) OR push_bit 16 (ucast w2) OR push_bit 24 (ucast w3)"
proof -
  have "m (a + of_nat i) = [w0, w1, w2, w3] ! i" if "i < 4" for i
    using that assms nth_mem_bytes [of i 4 m a] by simp
  from this [of 0] this [of 1] this [of 2] this [of 3] show ?thesis
    by (simp add: load32_def)
qed

lemma load16_dw:
  assumes "mem_bytes m a 2 = dw v"
  shows "load16 m a = ucast v"
proof -
  have "m (a + of_nat i) = dw v ! i" if "i < 2" for i
    using that assms nth_mem_bytes [of i 2 m a] by simp
  from this [of 0] this [of 1] show ?thesis
    by (auto simp: load16_def dw_def bit_simps intro!: bit_word_eqI)
qed

lemma load32_dd:
  assumes "mem_bytes m a 4 = dd v"
  shows "load32 m a = v"
proof -
  have "load32 m a = load32 (store32 m a v) a"
  proof (rule load32_cong)
    fix x
    assume "in_range a 4 x"
    then obtain i where i: "i < 4" "x = a + of_nat i"
      by (rule in_rangeE)
    then have "m x = dd v ! i"
      using assms nth_mem_bytes [of i 4 m a] by simp
    then show "m x = store32 m a v x"
      using i by (auto simp: store32_def dd_def dest!: byte_cases4)
  qed
  then show ?thesis
    by simp
qed

text \<open>\<open>lgdt\<close> of an operand below 16 MB.\<close>

lemma lgdt_bytes:
  assumes "mem_bytes m a 6 = dw l @ dd b" and "unat b < 2 ^ 24"
  shows "lgdt m a = \<lparr>xdt_limit = ucast l, xdt_base = b\<rparr>"
proof -
  have "mem_bytes m a 2 = dw l" "mem_bytes m (a + 2) 4 = dd b"
    using assms(1) mem_bytes_slice [of 0 2 6 m a] mem_bytes_slice [of 2 4 6 m a] by (simp_all add: dw_def dd_def)
  then have "load16 m a = ucast l" "load32 m (a + 2) = b"
    by (simp_all add: load16_dw load32_dd)
  moreover have "b AND 0xffffff = b"
  proof -
    have "b AND mask 24 = b"
      using assms(2) by (simp add: word_unat_eq_iff unsigned_take_bit_eq take_bit_nat_eq_self flip: take_bit_eq_mask)
    then show ?thesis
      by (simp add: mask_numeral)
  qed
  ultimately show ?thesis
    by (simp add: lgdt_def)
qed

end
