(* ===== verification/Sample_Platform.thy ===== *)
theory Sample_Platform
  imports Boot_Loader_Spec
begin

text \<open>
  A platform that meets the contracts of the loader, on which the properties are evaluated: a drive that
  decodes the four address ports, is busy on every other read of its status and yields its sectors word
  by word, and a BIOS whose continuation value is the index of the next item.
\<close>

record drive =
  dr_regs :: "u16 \<Rightarrow> u8"
  dr_pos :: nat
  dr_busy :: bool
  dr_screen :: "u8 list"

definition drive_lba :: "drive \<Rightarrow> u32" where
  "drive_lba d = ucast (dr_regs d 0x1f3) OR push_bit 8 (ucast (dr_regs d 0x1f4)) OR push_bit 16 (ucast (dr_regs d 0x1f5))
     OR push_bit 24 (ucast (dr_regs d 0x1f6 AND 0xF))"

definition drive_word :: "(nat \<Rightarrow> u16 list) \<Rightarrow> drive \<Rightarrow> nat \<Rightarrow> u16" where
  "drive_word sectors d i = sectors (unat (drive_lba d) + i div 256) ! (i mod 256)"

definition sample_platform :: "(nat \<Rightarrow> u16 list) \<Rightarrow> u8 list list \<Rightarrow> drive platform" where
  "sample_platform sectors items =
     \<lparr>port_in8 = (\<lambda>p d. if p = 0x1f7 then (if dr_busy d then (0x80, d\<lparr>dr_busy := False\<rparr>) else (0x58, d\<lparr>dr_busy := True\<rparr>)) else (0, d)),
      port_in16 = (\<lambda>p d. (drive_word sectors d (dr_pos d), d\<lparr>dr_pos := dr_pos d + 1\<rparr>)),
      port_out8 = (\<lambda>p v d. d\<lparr>dr_regs := (dr_regs d)(p := v), dr_pos := (if p = 0x1f7 then 0 else dr_pos d)\<rparr>),
      port_out16 = (\<lambda>p v d. d),
      int10_mode = (\<lambda>al d. d\<lparr>dr_screen := []\<rparr>),
      int10_teletype = (\<lambda>al bh bl d. d\<lparr>dr_screen := dr_screen d @ [al]\<rparr>),
      int15 = (\<lambda>eax ebx ecx edx d.
        (\<lparr>r_carry = False, r_bytes = items ! unat ebx,
          r_ebx = (if unat ebx + 1 < length items then ebx + 1 else 0), r_ecx = 20\<rparr>, d))\<rparr>"

lemma sample_ready: "\<exists>b. drive_ready (sample_platform sectors items) d (d\<lparr>dr_busy := b\<rparr>)"
proof (cases "dr_busy d")
  case True
  have "drive_ready (sample_platform sectors items) (d\<lparr>dr_busy := False\<rparr>) (d\<lparr>dr_busy := True\<rparr>)"
    by (rule drive_ready.ready [of _ _ "0x58"]) (simp_all add: sample_platform_def)
  then show ?thesis
    using True drive_ready.busy [of "sample_platform sectors items" d "0x80" "d\<lparr>dr_busy := False\<rparr>"]
    by (auto simp: sample_platform_def)
next
  case False
  then show ?thesis
    by (intro exI [of _ True] drive_ready.ready [of _ _ "0x58"]) (simp_all add: sample_platform_def)
qed

lemma sample_words:
  "data_words (sample_platform sectors items) n d =
     (map (\<lambda>i. drive_word sectors d (dr_pos d + i)) [0..<n], d\<lparr>dr_pos := dr_pos d + n\<rparr>)"
proof (induction n arbitrary: d)
  case (Suc n)
  have "[0..<Suc n] = 0 # map Suc [0..<n]"
    by (simp add: map_Suc_upt upt_conv_Cons)
  then show ?case
    using Suc [of "d\<lparr>dr_pos := dr_pos d + 1\<rparr>"]
    by (simp add: sample_platform_def drive_word_def drive_lba_def del: upt_Suc)
qed simp

lemma sample_delivers:
  assumes "\<And>i. length (sectors i) = 256" and "dr_pos d = 256 * j" and "unat (drive_lba d) = l"
  shows "\<exists>d'. delivers (sample_platform sectors items) (map (\<lambda>i. sectors (l + i)) [j..<j + n]) d d'"
  using assms(2,3)
proof (induction n arbitrary: j d)
  case (Suc n)
  let ?P = "sample_platform sectors items"
  obtain b where ready: "drive_ready ?P d (d\<lparr>dr_busy := b\<rparr>)"
    using sample_ready by blast
  let ?d = "d\<lparr>dr_busy := b, dr_pos := dr_pos d + 256\<rparr>"
  have "map (\<lambda>i. drive_word sectors (d\<lparr>dr_busy := b\<rparr>) (256 * j + i)) [0..<256] = sectors (l + j)"
    using Suc.prems(2) by (intro nth_equalityI) (simp_all add: assms(1) drive_word_def drive_lba_def)
  then have "data_words ?P 256 (d\<lparr>dr_busy := b\<rparr>) = (sectors (l + j), ?d)"
    using Suc.prems(1) by (simp add: sample_words)
  moreover obtain d' where "delivers ?P (map (\<lambda>i. sectors (l + i)) [j + 1..<j + 1 + n]) ?d d'"
    using Suc.IH [of ?d "j + 1"] Suc.prems by (auto simp: drive_lba_def)
  moreover have "[j..<j + Suc n] = j # [j + 1..<j + 1 + n]"
    by (simp add: upt_conv_Cons)
  ultimately show ?case
    using ready by (intro exI [of _ d']) auto
next
  case 0
  have "delivers (sample_platform sectors items) [] d d"
    by simp
  then show ?case
    by auto
qed

lemma sample_command_lba:
  assumes "unat lba < 2 ^ 28"
  shows "drive_lba (read_command (sample_platform sectors items) n lba d) = lba"
    and "dr_pos (read_command (sample_platform sectors items) n lba d) = 0"
proof -
  have high: "\<not> bit lba i" if "28 \<le> i" for i
  proof -
    have "take_bit 28 lba = lba"
      using assms by (simp add: word_unat_eq_iff unsigned_take_bit_eq take_bit_nat_eq_self)
    then show ?thesis
      using that by (metis bit_take_bit_iff not_le)
  qed
  have top: "(0xE0 OR (x AND 0xF)) AND 0xF = take_bit 4 x" for x :: u8
  proof -
    have "(0xE0 OR (x AND 0xF)) AND 0xF = x AND (0xF AND 0xF)"
      by (simp add: bit.conj_disj_distrib2 and.assoc)
    then show ?thesis
      by (simp add: take_bit_eq_mask mask_numeral)
  qed
  have "ucast (ucast lba :: u8) OR push_bit 8 (ucast (ucast (drop_bit 8 lba) :: u8)) OR push_bit 16 (ucast (ucast (drop_bit 16 lba) :: u8))
      OR push_bit 24 (ucast (take_bit 4 (ucast (drop_bit 24 lba)) :: u8)) = lba" (is "?l = _")
  proof (rule bit_word_eqI)
    fix i :: nat
    consider "i < 8" | "8 \<le> i" "i < 16" | "16 \<le> i" "i < 24" | "24 \<le> i" "i < 28" | "28 \<le> i"
      by linarith
    then show "bit ?l i = bit lba i"
      by cases (simp_all add: bit_simps high less_diff_conv2 le_diff_conv)
  qed
  then show "drive_lba (read_command (sample_platform sectors items) n lba d) = lba"
    by (simp add: drive_lba_def read_command_def sample_platform_def top)
  show "dr_pos (read_command (sample_platform sectors items) n lba d) = 0"
    by (simp add: read_command_def sample_platform_def)
qed

lemma sample_disk:
  assumes "\<And>i. length (sectors i) = 256"
  shows "ata_disk (sample_platform sectors items) sectors"
  unfolding ata_disk_def
proof (intro allI impI)
  fix d and n :: u8 and lba :: u32
  assume "n \<noteq> 0" "unat lba + unat n \<le> 2 ^ 28"
  then have "unat lba < 2 ^ 28"
    using unat_gt_0 [of n] by linarith
  note command = sample_command_lba [OF this, of sectors items n d]
  show "\<exists>d'. delivers (sample_platform sectors items) (map (\<lambda>i. sectors (unat lba + i)) [0..<unat n])
      (read_command (sample_platform sectors items) n lba d) d'"
    using sample_delivers [of sectors "read_command (sample_platform sectors items) n lba d" 0 "unat lba" items "unat n"] assms command
    by simp
qed

lemma sample_bios:
  assumes "\<And>e. e \<in> set items \<Longrightarrow> length e = 20" and "items \<noteq> []" and "length items < 2 ^ 32"
  shows "bios_map (sample_platform sectors items) items"
proof -
  have "e820_items (sample_platform sectors items) (of_nat i) (drop i items) d" if "i < length items" for i d
    using that
  proof (induction "length items - i" arbitrary: i)
    case (Suc k)
    have i: "unat (of_nat i :: u32) = i"
      using Suc.prems assms(3) by (intro unat_of_nat_small) simp
    have "drop i items = items ! i # drop (i + 1) items"
      using Suc.prems by (simp add: Cons_nth_drop_Suc)
    moreover have "(of_nat i + 1 :: u32) \<noteq> 0" if "i + 1 < length items"
    proof -
      have "unat (of_nat (i + 1) :: u32) = i + 1"
        using that assms(3) by (intro unat_of_nat_small) simp
      then show ?thesis
        by (metis of_nat_1 of_nat_add unat_0 add_is_0 one_neq_zero)
    qed
    moreover have "e820_items (sample_platform sectors items) (of_nat (i + 1)) (drop (i + 1) items) d" if "i + 1 < length items"
      using Suc.hyps(1) [of "i + 1"] Suc.hyps(2) that by simp
    ultimately show ?case
      using Suc.prems assms(1) i by (auto simp: sample_platform_def Let_def add.commute)
  qed simp
  from this [of 0] show ?thesis
    using assms(2) by (simp add: bios_map_def)
qed

end
