(* ===== verification/Port_Log.thy ===== *)
theory Port_Log
  imports Boot_Spec
begin

text \<open>
  Which ports the kernel writes: the console its two CRT registers, the timer its two, and the interrupt
  controllers nothing but the end-of-interrupt command. Each operation extends the log of port writes by
  such writes only; \<open>quiet_ext\<close> says so of the log before and after.
\<close>

definition pic_quiet :: "u16 \<times> u8 \<Rightarrow> bool" where
  "pic_quiet w \<longleftrightarrow> fst w \<notin> {0x20, 0x21, 0xA0, 0xA1} \<or> w = (0x20, 0x20) \<or> w = (0xA0, 0x20)"

definition quiet_ext :: "(u16 \<times> u8) list \<Rightarrow> (u16 \<times> u8) list \<Rightarrow> bool" where
  "quiet_ext l l' \<longleftrightarrow> (\<exists>xs. l' = l @ xs \<and> list_all pic_quiet xs)"

lemma quiet_refl [simp, intro]: "quiet_ext l l"
  by (simp add: quiet_ext_def)

lemma quiet_trans [trans]: "quiet_ext a b \<Longrightarrow> quiet_ext b c \<Longrightarrow> quiet_ext a c"
  by (auto simp: quiet_ext_def)

lemma quiet_snoc: "pic_quiet w \<Longrightarrow> quiet_ext a b \<Longrightarrow> quiet_ext a (b @ [w])"
  by (auto simp: quiet_ext_def)

section \<open>Console and messages\<close>

lemma set_screen_quiet: "out_log s = l \<Longrightarrow> quiet_ext l (out_log (set_screen s))"
  by (auto simp: set_screen_def Let_def out_byte_def quiet_ext_def pic_quiet_def)

lemma set_cursor_quiet: "quiet_ext (out_log s) (out_log (set_cursor s))"
  by (simp add: set_cursor_def Let_def out_byte_def quiet_ext_def pic_quiet_def)

lemma scroll_up_quiet: "quiet_ext (out_log s) (out_log (scroll_up s))"
  by (auto simp: scroll_up_def Let_def intro: set_screen_quiet)

lemma command_lf_quiet: "quiet_ext (out_log s) (out_log (command_lf s))"
  by (simp add: command_lf_def scroll_up_quiet)

lemma write_char_quiet: "quiet_ext (out_log (snd ps)) (out_log (snd (write_char c ps)))"
proof -
  obtain ptr s where [simp]: "ps = (ptr, s)"
    by (cases ps)
  show ?thesis
    using command_lf_quiet [of s] command_lf_quiet [of "s\<lparr>con_x := con_x s - WIDTH, con_pos := con_pos s - ROW_SIZE\<rparr>"]
    by (simp add: write_char_def Let_def command_bs_def command_cr_def command_del_def)
qed

lemma write_loop_quiet: "quiet_ext (out_log (snd ps)) (out_log (snd (write_loop cs ps)))"
proof (induction cs arbitrary: ps)
  case (Cons c cs)
  show ?case
    using quiet_trans [OF write_char_quiet Cons.IH [of "write_char c ps"]] by simp
qed simp

lemma console_write_quiet: "console_write buf n s = Some s' \<Longrightarrow> quiet_ext (out_log s) (out_log s')"
  using quiet_trans [OF write_loop_quiet [of "(con_pos s, CLI s)" "take (unat n) buf"] set_cursor_quiet]
  by (auto simp: console_write_def Let_def CLI_def split: prod.splits if_splits)

lemma console_init_quiet: "quiet_ext (out_log s) (out_log (console_init s))"
  by (simp add: console_init_def console_clear_def set_screen_def set_cursor_def Let_def out_byte_def quiet_ext_def pic_quiet_def)

lemma printk_quiet: "printk f args s = Some (n, s') \<Longrightarrow> quiet_ext (out_log s) (out_log s')"
  by (auto simp: printk_def Let_def split: if_splits bind_splits dest!: console_write_quiet)

lemma message_quiet: "print_message f args s = Some s' \<Longrightarrow> quiet_ext (out_log s) (out_log s')"
  by (auto simp: print_message_def dest!: printk_quiet)

section \<open>Memory\<close>

lemma print_items_quiet: "print_items i n s = Some s' \<Longrightarrow> quiet_ext (out_log s) (out_log s')"
  by (induction n arbitrary: i s) (auto simp: Let_def split: bind_splits dest!: message_quiet intro: quiet_trans)

lemma memory_init_quiet: "memory_init f s = Some s' \<Longrightarrow> quiet_ext (out_log s) (out_log s')"
  by (auto simp: memory_init_def Let_def split: if_splits dest!: message_quiet)

lemma memory_map_quiet: "memory_map_int f s = Some s' \<Longrightarrow> quiet_ext (out_log s) (out_log s')"
  by (auto simp: memory_map_int_def Let_def split: if_splits prod.splits dest!: message_quiet)

lemma get_free_page_quiet: "get_free_page s = Some (p, s') \<Longrightarrow> quiet_ext (out_log s) (out_log s')"
  by (auto simp: get_free_page_def Let_def split: option.splits bind_splits dest!: message_quiet)

lemma free_page_quiet: "free_page p s = Some s' \<Longrightarrow> quiet_ext (out_log s) (out_log s')"
  by (auto simp: free_page_def Let_def split: if_splits dest!: message_quiet)

lemma upd_ram_log [simp]: "out_log (upd_ram f s) = out_log s"
  by (simp add: upd_ram_def)

lemma init_bucket_desc_quiet: "init_bucket_desc s = Some s' \<Longrightarrow> quiet_ext (out_log s) (out_log s')"
  by (auto simp: init_bucket_desc_def Let_def split: if_splits bind_splits prod.splits dest!: get_free_page_quiet)

lemma take_object_log [simp]: "out_log (snd (take_object b s)) = out_log s"
  by (simp add: take_object_def Let_def STI_def)

lemma set_chain_log [simp]: "out_log (set_chain i b s) = out_log s"
  by (simp add: set_chain_def)

lemma new_bucket_quiet:
  assumes "new_bucket i s = Some (b, s')"
  shows "quiet_ext (out_log s) (out_log s')"
proof -
  obtain s1 where s1: "(if free_bucket_desc s = 0 then init_bucket_desc s else Some s) = Some s1"
    using assms by (auto simp: new_bucket_def Let_def split: bind_splits)
  have "quiet_ext (out_log s1) (out_log s')"
    using assms unfolding new_bucket_def Let_def s1
    by (auto split: if_splits bind_splits prod.splits dest!: get_free_page_quiet)
  moreover have "quiet_ext (out_log s) (out_log s1)"
    using s1 by (auto split: if_splits dest!: init_bucket_desc_quiet)
  ultimately show ?thesis
    using quiet_trans by blast
qed

lemma take_object_quiet: "take_object b s = (p, s') \<Longrightarrow> out_log s' = out_log s"
  using take_object_log [of b s] by simp

lemma kmalloc_quiet:
  assumes "kmalloc n s = Some (p, s')"
  shows "quiet_ext (out_log s) (out_log s')"
proof -
  obtain i where i: "find_dir (bucket_dir s) n = Some i"
    using assms by (auto simp: kmalloc_def split: bind_splits)
  consider "bucket_size (bucket_dir s ! i) = 0" | "bucket_size (bucket_dir s ! i) \<noteq> 0"
    by blast
  then show ?thesis
  proof cases
    case 1
    then show ?thesis
      using assms i by (auto simp: kmalloc_def split: bind_splits dest!: message_quiet)
  next
    case 2
    then show ?thesis
      using assms i by (auto simp: kmalloc_def Let_def split: if_splits bind_splits prod.splits
          dest!: new_bucket_quiet take_object_quiet)
  qed
qed

lemma drop_bucket_quiet: "drop_bucket i b prev s = Some (r, s') \<Longrightarrow> quiet_ext (out_log s) (out_log s')"
  by (auto simp: drop_bucket_def Let_def split: if_splits bind_splits dest!: free_page_quiet)

lemma kfree_s_quiet: "kfree_s p n s = Some s' \<Longrightarrow> quiet_ext (out_log s) (out_log s')"
  by (auto simp: kfree_s_def Let_def CLI_def split: option.splits if_splits bind_splits dest!: drop_bucket_quiet)

section \<open>Tables and tasks\<close>

lemma set_gdt_item_quiet: "set_gdt_item t g i b l s = Some s' \<Longrightarrow> quiet_ext (out_log s) (out_log s')"
  by (auto simp: set_gdt_item_def Let_def split: if_splits dest!: message_quiet)

lemma gdt_init_quiet: "gdt_init g s = Some s' \<Longrightarrow> quiet_ext (out_log s) (out_log s')"
  by (auto simp: gdt_init_def r3_gdt_code_item_def r3_gdt_data_item_def Let_def split: bind_splits
      dest!: set_gdt_item_quiet intro: quiet_trans)

lemma idt_init_log [simp]: "out_log (idt_init hs tbl s) = out_log s"
  by (simp add: idt_init_def Let_def)

lemma clock_init_quiet: "quiet_ext (out_log s) (out_log (clock_init s))"
  by (simp add: clock_init_log quiet_ext_def pic_quiet_def)

lemma send_eoi_quiet: "quiet_ext (out_log s) (out_log (send_eoi i s))"
  by (simp add: send_eoi_def Let_def quiet_ext_def pic_quiet_def)

lemma find_empty_process_quiet: "find_empty_process s = Some (i, s') \<Longrightarrow> quiet_ext (out_log s) (out_log s')"
  by (auto simp: find_empty_process_def split: option.splits bind_splits dest!: message_quiet)

lemma create_task_quiet: "create_task nm f p s = Some (t, s') \<Longrightarrow> quiet_ext (out_log s) (out_log s')"
  by (auto simp: create_task_def Let_def split: if_splits bind_splits prod.splits
      dest!: kmalloc_quiet find_empty_process_quiet intro: quiet_trans)

lemma clear_task_quiet: "clear_task code i s = Some s' \<Longrightarrow> quiet_ext (out_log s) (out_log s')"
  by (auto simp: clear_task_def Let_def split: if_splits bind_splits dest!: message_quiet)

lemma task_exit_quiet: "task_exit code t s = Some s' \<Longrightarrow> quiet_ext (out_log s) (out_log s')"
  by (auto simp: task_exit_def split: option.splits bind_splits dest!: clear_task_quiet kfree_s_quiet intro: quiet_trans)

lemma task_init_quiet: "task_init nm f s = Some s' \<Longrightarrow> quiet_ext (out_log s) (out_log s')"
  by (auto simp: task_init_def dest!: create_task_quiet)

section \<open>Interrupts\<close>

lemma keymap_handler_quiet: "keymap_handler i b s = Some s' \<Longrightarrow> quiet_ext (out_log s) (out_log s')"
proof -
  have key: "key_event c ext s = Some s' \<Longrightarrow> quiet_ext (out_log s) (out_log s')" for c ext and s s' :: "'a keyboard_state_scheme"
    by (auto simp: key_event_def Let_def toggle_locks_def split: if_splits bind_splits dest!: message_quiet)
  assume "keymap_handler i b s = Some s'"
  then show ?thesis
    using send_eoi_quiet [of s i]
    by (auto simp: keymap_handler_def Let_def split: if_splits dest!: key intro: quiet_trans)
qed

lemma upd_regs_log [simp]: "out_log (upd_regs f s) = out_log s"
  by (simp add: upd_regs_def)

lemma push_log [simp]: "out_log (push v s) = out_log s"
  by (simp add: push_def)

lemma iret_log [simp]: "out_log (iret s) = out_log s"
  by (simp add: iret_def Let_def)

lemma recover_env_log [simp]: "out_log (recover_env s) = out_log s"
  by (simp add: recover_env_def Let_def)

lemma load_stack_log [simp]: "out_log (load_stack s) = out_log s"
  by (simp add: load_stack_def Let_def)

lemma load_ppid_log [simp]: "out_log (load_ppid s) = out_log s"
  by (simp add: load_ppid_def Let_def)

lemma first_schedule_log [simp]: "out_log (first_schedule xh s) = out_log s"
  by (simp add: first_schedule_def inc_scheduling_times_def Let_def)

lemma save_env_log [simp]: "out_log (save_env s) = out_log s"
  by (simp add: save_env_def Let_def)

lemma sched_log: "sched xh s = Some s' \<Longrightarrow> out_log s' = out_log s"
  by (auto simp: sched_def switch_idle_task_def switch_task_def Let_def split: if_splits)

lemma task_exit_handler_quiet: "task_exit_handler xh s = Some s' \<Longrightarrow> quiet_ext (out_log s) (out_log s')"
  by (auto simp: task_exit_handler_def Let_def split: bind_splits dest!: task_exit_quiet sched_log)

lemma clock_handler_quiet: "clock_handler xh i s = Some s' \<Longrightarrow> quiet_ext (out_log s) (out_log s')"
  using quiet_trans [OF send_eoi_quiet [of s i]]
  by (auto simp: clock_handler_def do_timer_def Let_def split: bind_splits dest!: message_quiet sched_log)

lemma clock_interrupt_quiet: "clock_interrupt xh eflags cs s = Some s' \<Longrightarrow> quiet_ext (out_log s) (out_log s')"
  by (auto simp: clock_interrupt_def clock_entry_def Let_def split: if_splits dest!: clock_handler_quiet)

lemma handler_call_quiet:
  assumes "\<And>s s'. h s = Some s' \<Longrightarrow> quiet_ext (out_log s) (out_log s')"
  shows "handler_call h arg v s = Some s' \<Longrightarrow> quiet_ext (out_log s) (out_log s')"
  by (auto simp: handler_call_def Let_def split: bind_splits dest!: assms)

lemma device_interrupt_quiet:
  assumes "\<And>s s'. e s = Some s' \<Longrightarrow> quiet_ext (out_log s) (out_log s')"
  shows "device_interrupt e eflags cs s = Some s' \<Longrightarrow> quiet_ext (out_log s) (out_log s')"
  by (auto simp: device_interrupt_def Let_def dest!: assms)

lemma key_interrupt_quiet:
  "device_interrupt (keymap_entry byte v) eflags cs s = Some s' \<Longrightarrow> quiet_ext (out_log s) (out_log s')"
  unfolding keymap_entry_def
  by (rule device_interrupt_quiet [OF handler_call_quiet [OF keymap_handler_quiet]])

lemma other_interrupt_quiet:
  "device_interrupt (interrupt_entry msg v) eflags cs s = Some s' \<Longrightarrow> quiet_ext (out_log s) (out_log s')"
  unfolding interrupt_entry_def
  by (rule device_interrupt_quiet [OF handler_call_quiet [OF message_quiet]])

text \<open>Hence every step of the running kernel, and every run.\<close>

lemma kernel_step_quiet: "kernel_step xh e s s' \<Longrightarrow> quiet_ext (out_log s) (out_log s')"
  by (cases rule: kernel_step.cases)
    (auto dest!: message_quiet clock_interrupt_quiet create_task_quiet task_exit_handler_quiet key_interrupt_quiet other_interrupt_quiet)

lemma kernel_run_quiet: "kernel_run xh es s u \<Longrightarrow> quiet_ext (out_log s) (out_log u)"
  by (induction rule: kernel_run.induct) (auto dest!: kernel_step_quiet intro: quiet_trans)

lemma early_main_quiet:
  assumes "early_main L s = Some s'"
  shows "quiet_ext (out_log s) (out_log s')"
proof -
  obtain s1 s2 s3 s4 s5 s6 where "gdt_init (l_gdt L) (console_init s) = Some s1"
    and "print_message (cstr ''init gdt success ...'' @ [10]) [] (idt_init (l_entries L) (l_idt L) s1) = Some s2"
    and "print_message (cstr ''init idt success ...'' @ [10]) [] s2 = Some s3"
    and "print_message (cstr ''Hello FunsizeOS ...'' @ [10]) [] (clock_init s3) = Some s4"
    and "print_check_memory_info s4 = Some s5" and "memory_init (l_src_file L) s5 = Some s6"
    and "memory_map_int (l_src_file L) s6 = Some s'"
    using assms by (auto simp: early_main_def Let_def split: bind_splits)
  note steps = this
  note console_init_quiet [of s]
  also note gdt_init_quiet [OF steps(1)]
  also have "quiet_ext (out_log s1) (out_log s2)"
    using message_quiet [OF steps(2)] by simp
  also note message_quiet [OF steps(3)]
  also note clock_init_quiet [of s3]
  also note message_quiet [OF steps(4)]
  also note print_items_quiet [OF steps(5) [unfolded print_check_memory_info_def]]
  also note memory_init_quiet [OF steps(6)]
  also note memory_map_quiet [OF steps(7)]
  finally show ?thesis .
qed

lemma kernel_main_quiet: "kernel_main L s = Some s' \<Longrightarrow> quiet_ext (out_log s) (out_log s')"
  by (auto simp: kernel_main_def Let_def split: bind_splits dest!: early_main_quiet task_init_quiet intro: quiet_trans)

end
