(* ===== verification/Interrupt_Controller.thy ===== *)
theory Interrupt_Controller
  imports Port_Log Boot_Props
begin

text \<open>
  The entry of the kernel, \<open>_start\<close> of \<open>boot/head.asm\<close>, which programs the two 8259A interrupt
  controllers and calls \<open>kernel_main\<close>. What the port writes mean is stated against the initialisation
  protocol of the controller, run over the log of port writes; with \<open>Port_Log\<close> the programming is kept
  by every run of the kernel.
\<close>

section \<open>The code\<close>

text \<open>The instruction \<open>out imm8, al\<close> writes as \<open>out_byte\<close> does.\<close>

definition config_8259a :: "'a machine_scheme \<Rightarrow> 'a machine_scheme" where
  "config_8259a s =
     (let al = 0x11;
          s = out_byte 0x20 al s;
          s = out_byte 0xa0 al s;
          al = 0x20;
          s = out_byte 0x21 al s;
          al = 0x28;
          s = out_byte 0xa1 al s;
          al = 0x04;
          s = out_byte 0x21 al s;
          al = 0x02;
          s = out_byte 0xa1 al s;
          al = 0x03;
          s = out_byte 0x21 al s
      in out_byte 0xa1 al s)"

definition enable_8259a_main :: "'a machine_scheme \<Rightarrow> 'a machine_scheme" where
  "enable_8259a_main s = (let al = 0b11111110 in out_byte 0x21 al s)"

definition disable_8259a_slave :: "'a machine_scheme \<Rightarrow> 'a machine_scheme" where
  "disable_8259a_slave s = (let al = 0b11111111 in out_byte 0xa1 al s)"

text \<open>Up to the endless loop \<open>jmp $\<close>.\<close>

definition head_start :: "kernel_layout \<Rightarrow> 'a task_state_scheme \<Rightarrow> 'a task_state_scheme option" where
  "head_start L s =
     (let s = config_8259a s;
          s = enable_8259a_main s;
          s = disable_8259a_slave s
      in kernel_main L s)"

section \<open>The controller\<close>

text \<open>
  An 8259A: a command with bit 4 set (ICW1) starts the initialisation; then the data port takes ICW2, the
  vector base, ICW3 unless the controller is single, and ICW4 if ICW1 asked for it. Afterwards the
  data port is the interrupt mask. Other commands do not change the configuration.
\<close>

datatype pic_phase = Ready | Want_ICW2 | Want_ICW3 | Want_ICW4

record pic =
  pic_phase :: pic_phase
  pic_single :: bool
  pic_icw4 :: bool
  vector_base :: u8
  cascade :: u8
  auto_eoi :: bool
  mode_8086 :: bool
  irq_mask :: u8

definition pic_command :: "u8 \<Rightarrow> pic \<Rightarrow> pic" where
  "pic_command v p =
     (if bit v 4
      then p\<lparr>pic_phase := Want_ICW2, pic_single := bit v 1, pic_icw4 := bit v 0, auto_eoi := False, mode_8086 := False, irq_mask := 0\<rparr>
      else p)"

definition after_icw3 :: "pic \<Rightarrow> pic_phase" where
  "after_icw3 p = (if pic_icw4 p then Want_ICW4 else Ready)"

definition pic_data :: "u8 \<Rightarrow> pic \<Rightarrow> pic" where
  "pic_data v p =
     (case pic_phase p of
        Ready \<Rightarrow> p\<lparr>irq_mask := v\<rparr>
      | Want_ICW2 \<Rightarrow> p\<lparr>vector_base := v AND 0xF8, pic_phase := (if pic_single p then after_icw3 p else Want_ICW3)\<rparr>
      | Want_ICW3 \<Rightarrow> p\<lparr>cascade := v, pic_phase := after_icw3 p\<rparr>
      | Want_ICW4 \<Rightarrow> p\<lparr>auto_eoi := bit v 1, mode_8086 := bit v 0, pic_phase := Ready\<rparr>)"

definition pic_write :: "u16 \<Rightarrow> pic \<Rightarrow> u16 \<times> u8 \<Rightarrow> pic" where
  "pic_write base p w =
     (if fst w = base then pic_command (snd w) p else if fst w = base + 1 then pic_data (snd w) p else p)"

text \<open>The master and the slave after a log of writes.\<close>

definition controllers :: "pic \<times> pic \<Rightarrow> (u16 \<times> u8) list \<Rightarrow> pic \<times> pic" where
  "controllers ps log = foldl (\<lambda>(m, sl) w. (pic_write 0x20 m w, pic_write 0xA0 sl w)) ps log"

text \<open>
  The vector a request line is delivered with, if it is: lines 0 to 7 come to the master, 8 to 15 to the
  slave, whose output is line 2 of the master.
\<close>

definition irq_vector :: "pic \<times> pic \<Rightarrow> nat \<Rightarrow> u8 option" where
  "irq_vector ps irq =
     (let (m, sl) = ps
      in if pic_phase m \<noteq> Ready then None
         else if irq < 8 then (if bit (irq_mask m) irq then None else Some (vector_base m + of_nat irq))
         else if irq < 16 then
           (if pic_phase sl \<noteq> Ready \<or> bit (irq_mask m) 2 \<or> \<not> bit (cascade m) 2 \<or> cascade sl \<noteq> 2 \<or> bit (irq_mask sl) (irq - 8)
            then None else Some (vector_base sl + of_nat (irq - 8)))
         else None)"

text \<open>The programming \<open>_start\<close> means: vectors from \<open>0x20\<close> and \<open>0x28\<close> on, cascaded, one line unmasked.\<close>

definition clock_only :: "pic \<times> pic \<Rightarrow> bool" where
  "clock_only ps \<longleftrightarrow>
     fst ps = \<lparr>pic_phase = Ready, pic_single = False, pic_icw4 = True, vector_base = 0x20, cascade = 4, auto_eoi = True,
       mode_8086 = True, irq_mask = 0xFE\<rparr>
   \<and> snd ps = \<lparr>pic_phase = Ready, pic_single = False, pic_icw4 = True, vector_base = 0x28, cascade = 2, auto_eoi = True,
       mode_8086 = True, irq_mask = 0xFF\<rparr>"

section \<open>What the log amounts to\<close>

lemma controllers_simps:
  "controllers ps [] = ps"
  "controllers (m, sl) (w # ws) = controllers (pic_write 0x20 m w, pic_write 0xA0 sl w) ws"
  by (simp_all add: controllers_def)

lemma controllers_append: "controllers ps (l @ l') = controllers (controllers ps l) l'"
  by (simp add: controllers_def)

lemma controllers_snoc:
  "controllers ps (l @ [w]) = (pic_write 0x20 (fst (controllers ps l)) w, pic_write 0xA0 (snd (controllers ps l)) w)"
  by (simp add: controllers_def split: prod.split)

lemma pic_quiet_write: "pic_quiet w \<Longrightarrow> pic_write 0x20 p w = p \<and> pic_write 0xA0 p w = p"
  by (auto simp: pic_quiet_def pic_write_def pic_command_def)

lemma controllers_quiet:
  assumes "quiet_ext l l'"
  shows "controllers ps l' = controllers ps l"
proof -
  have "list_all pic_quiet xs \<Longrightarrow> controllers ps (l @ xs) = controllers ps l" for xs
  proof (induction xs rule: rev_induct)
    case (snoc x xs)
    then show ?case
      using controllers_snoc [of ps "l @ xs" x] pic_quiet_write [of x] by simp
  qed simp
  then show ?thesis
    using assms by (auto simp: quiet_ext_def)
qed

text \<open>Whatever state the controllers were in, \<open>_start\<close> programs them.\<close>

lemma start_programs:
  "clock_only (controllers ps (out_log (disable_8259a_slave (enable_8259a_main (config_8259a s)))))"
proof -
  have "out_log (disable_8259a_slave (enable_8259a_main (config_8259a s))) =
      out_log s @ [(0x20, 0x11), (0xA0, 0x11), (0x21, 0x20), (0xA1, 0x28), (0x21, 4), (0xA1, 2), (0x21, 3), (0xA1, 3),
        (0x21, 0xFE), (0xA1, 0xFF)]"
    by (simp add: disable_8259a_slave_def enable_8259a_main_def config_8259a_def)
  moreover obtain m sl where "controllers ps (out_log s) = (m, sl)"
    by (cases "controllers ps (out_log s)")
  ultimately show ?thesis
    by (simp add: clock_only_def controllers_append controllers_simps pic_write_def pic_command_def pic_data_def after_icw3_def)
qed

lemma clock_only_vectors:
  assumes "clock_only ps" and "irq < 16"
  shows "irq_vector ps irq = (if irq = 0 then Some 0x20 else None)"
proof -
  have "irq \<in> {0, 1, 2, 3, 4, 5, 6, 7} \<or> 8 \<le> irq"
    by (simp; linarith)
  then show ?thesis
    using assms by (cases ps) (auto simp: clock_only_def irq_vector_def)
qed

section \<open>The kernel from its entry on\<close>

lemma boot_ok_log [simp]: "boot_ok L nm k (s\<lparr>out_log := l\<rparr>) = boot_ok L nm k s"
  by (simp add: boot_ok_def boot_static_def boot_layout_def)

lemma head_start_main:
  "head_start L s = kernel_main L (s\<lparr>out_log := out_log (disable_8259a_slave (enable_8259a_main (config_8259a s)))\<rparr>)"
  by (simp add: head_start_def disable_8259a_slave_def enable_8259a_main_def config_8259a_def out_byte_def)

lemma gates_of_lines: "gate_handler hs 0x20 = clock_handler_entry hs"
  by (simp add: gate_handler_def Let_def)

lemma head_start_up:
  fixes s :: "'a cpu_state_scheme"
  assumes "boot_ok L nm k s"
  obtains s' t H where "head_start L s = Some s'" and "kernel_up L nm s s' t H" and "clock_only (controllers ps (out_log s'))"
proof -
  let ?s = "s\<lparr>out_log := out_log (disable_8259a_slave (enable_8259a_main (config_8259a s)))\<rparr>"
  obtain s' t H where run: "kernel_main L ?s = Some s'" and up: "kernel_up L nm ?s s' t H"
    by (rule kernel_main_ok [of L nm k ?s]) (use assms in simp)
  have "clock_only (controllers ps (out_log s'))"
    using controllers_quiet [OF kernel_main_quiet [OF run]] start_programs [of ps s] by simp
  moreover have "kernel_up L nm s s' t H"
    using up by (simp add: kernel_up_def tables_ready_def task_state.defs)
  ultimately show thesis
    using run head_start_main [of L s] that by simp
qed

section \<open>Properties\<close>

text \<open>
  C5: \<open>_start\<close> and \<open>kernel_main\<close> end, from any state of the two controllers, with vectors \<open>0x20\<close> and \<open>0x28\<close>
  on and automatic end of interrupt, and no run of the kernel changes that: of the sixteen request lines only
  line 0 is ever delivered, as vector \<open>0x20\<close>, whose gate leads to the entry of the clock. The keyboard, on
  line 1, stays masked.
\<close>

theorem only_clock_interrupts:
  fixes s :: "'a cpu_state_scheme"
  assumes "boot_ok L nm k s"
  shows "\<exists>s'. head_start L s = Some s' \<and> idtr s' = \<lparr>xdt_limit = 2048, xdt_base = l_idt L\<rparr>
    \<and> gate_target (word_gate (table_entry (ram s') (l_idt L) 0x20)) = clock_handler_entry (l_entries L)
    \<and> (\<forall>xh es u. kernel_run xh es s' u \<longrightarrow> clock_only (controllers ps (out_log u))
        \<and> (\<forall>irq<16. irq_vector (controllers ps (out_log u)) irq = (if irq = 0 then Some 0x20 else None)))"
proof (rule head_start_up [OF assms, of ps])
  fix s' t H
  assume run: "head_start L s = Some s'" and up: "kernel_up L nm s s' t H" and pics: "clock_only (controllers ps (out_log s'))"
  have "clock_only (controllers ps (out_log u))" if "kernel_run xh es s' u" for xh es u
    using controllers_quiet [OF kernel_run_quiet [OF that]] pics by simp
  then show ?thesis
    using run up clock_only_vectors by (intro exI [of _ s']) (simp add: kernel_up_def tables_ready_def gates_of_lines)
qed

definition reset_pic :: pic where
  "reset_pic = \<lparr>pic_phase = Ready, pic_single = False, pic_icw4 = False, vector_base = 8, cascade = 0, auto_eoi = False,
     mode_8086 = True, irq_mask = 0\<rparr>"

theorem only_clock_interrupts_witness:
  "\<exists>s'. head_start sample_layout sample_boot = Some s'
    \<and> irq_vector (controllers (reset_pic, reset_pic) (out_log s')) 0 = Some 0x20
    \<and> irq_vector (controllers (reset_pic, reset_pic) (out_log s')) 1 = None"
proof -
  obtain s' where "head_start sample_layout sample_boot = Some s'" and runs: "\<And>xh es u. kernel_run xh es s' u \<Longrightarrow>
      \<forall>irq<16. irq_vector (controllers (reset_pic, reset_pic) (out_log u)) irq = (if irq = 0 then Some 0x20 else None)"
    using only_clock_interrupts [OF sample_boot_ok, of "(reset_pic, reset_pic)"] by blast
  moreover have "\<forall>irq<16. irq_vector (controllers (reset_pic, reset_pic) (out_log s')) irq = (if irq = 0 then Some 0x20 else None)"
    by (rule runs [OF kernel_run.start])
  ultimately show ?thesis
    by simp
qed

end
