(* ===== verification/Loader_Props.thy ===== *)
theory Loader_Props
  imports Sample_Platform Interrupt_Controller
begin

text \<open>
  From the boot sector to the first task: what the loader leaves in memory and in the registers, and that
  the kernel entered with it boots. Also the two ways it stops, and what a long memory map does.
\<close>

section \<open>The memory map in memory\<close>

text \<open>The 32-bit word at an offset of a list of bytes, and the structure of an item of the map.\<close>

definition le32 :: "u8 list \<Rightarrow> nat \<Rightarrow> u32" where
  "le32 bs k = ucast (bs ! k) OR push_bit 8 (ucast (bs ! (k + 1))) OR push_bit 16 (ucast (bs ! (k + 2)))
     OR push_bit 24 (ucast (bs ! (k + 3)))"

definition item_of :: "u8 list \<Rightarrow> check_memory_item" where
  "item_of e = \<lparr>base_addr_low = le32 e 0, base_addr_high = le32 e 4, length_low = le32 e 8, length_high = le32 e 12,
     item_type = le32 e 16\<rparr>"

lemma load32_le32:
  assumes "\<And>j. j < 4 \<Longrightarrow> m (a + of_nat j) = bs ! (k + j)"
  shows "load32 m a = le32 bs k"
  using assms [of 0] assms [of 1] assms [of 2] assms [of 3] by (simp add: load32_def le32_def)

lemma item_at_bytes:
  assumes "\<And>j. j < 20 \<Longrightarrow> m (0x1102 + of_nat (20 * i + j)) = e ! j"
  shows "check_memory_item_at m i = item_of e"
proof -
  have "load32 m (0x1102 + of_nat (20 * i) + of_nat k) = le32 e k" if "k \<le> 16" for k
  proof (rule load32_le32)
    fix j :: nat
    assume "j < 4"
    then show "m (0x1102 + of_nat (20 * i) + of_nat k + of_nat j) = e ! (k + j)"
      using that assms [of "k + j"] by (simp add: add.assoc)
  qed
  from this [of 0] this [of 4] this [of 8] this [of 12] this [of 16] show ?thesis
    by (simp add: check_memory_item_at_def item_of_def Let_def)
qed

lemma nth_concat_items:
  assumes "\<And>e. e \<in> set items \<Longrightarrow> length e = 20" and "i < length items" and "j < 20"
  shows "concat items ! (20 * i + j) = items ! i ! j"
  using assms
proof (induction items arbitrary: i)
  case (Cons e es)
  then show ?case
    by (cases i) (simp_all add: nth_append)
qed simp

lemma items_stored:
  assumes "mem_bytes m 0x1102 (20 * length items) = concat items" and "\<And>e. e \<in> set items \<Longrightarrow> length e = 20"
    and "i < length items"
  shows "check_memory_item_at m i = item_of (items ! i)"
proof (rule item_at_bytes)
  fix j :: nat
  assume j: "j < 20"
  then have "20 * i + j < 20 * length items"
    using assms(3) by simp
  then have "m (0x1102 + of_nat (20 * i + j)) = concat items ! (20 * i + j)"
    using assms(1) nth_mem_bytes [of "20 * i + j" "20 * length items" m "0x1102"] by simp
  then show "m (0x1102 + of_nat (20 * i + j)) = items ! i ! j"
    using nth_concat_items [OF assms(2,3) j] by simp
qed

section \<open>The two programs\<close>

lemma boot_start_ok:
  assumes disk: "ata_disk P sectors" and msg: "c_string m (ucast msg) bs" "0x7c00 \<le> unat msg" "unat msg + length bs < 0x7e00"
  obtains d' where "boot_start P msg m d = Some (mem_write m 0x500 (disk_bytes sectors 1 2), d')"
    and "length (disk_bytes sectors 1 2) = 1024"
proof -
  obtain d1 where read: "read_hd16 P 2 1 0x500 m (int10_mode P 3 d) = Some (0x500 + 1024, mem_write m 0x500 (disk_bytes sectors 1 2), d1)"
    and len: "length (disk_bytes sectors 1 2) = 1024"
    using read_hd16_ok [OF disk, of 2 1 "0x500" m "int10_mode P 3 d" thesis] by auto
  let ?m = "mem_write m 0x500 (disk_bytes sectors 1 2)"
  have "?m x = m x" if "in_range (ucast msg) (length bs + 1) x" for x
    using that msg(2,3) len by (intro mem_write_other) (simp add: in_range_nat unat_ucast_u16)
  then have "c_string ?m (ucast msg) bs"
    using msg(1,3) c_string_cong [of "ucast msg" bs ?m m] by simp
  then obtain d2 where "print P ?m msg d1 = Some d2"
    using print_returns [of ?m msg bs P d1] msg(3) by auto
  then show thesis
    using that read len by (simp add: boot_start_def)
qed

lemma message_text:
  "preparing_to_enter_protected_mode = (cstr ''FunsizeOS is preparing to enter protected mode ... '' @ [10, 13]) @ [0]"
  "memory_check_error_msg = (cstr ''FunsizeOS memory check fail ...'' @ [10, 13]) @ [0]"
  "memory_check_success_msg = (cstr ''FunsizeOS memory check success ...'' @ [10, 13]) @ [0]"
  "0 \<notin> set (cstr ''FunsizeOS is preparing to enter protected mode ... '' @ [10, 13])"
  "0 \<notin> set (cstr ''FunsizeOS memory check fail ...'' @ [10, 13])"
  "0 \<notin> set (cstr ''FunsizeOS memory check success ...'' @ [10, 13])"
  by (simp_all add: preparing_to_enter_protected_mode_def memory_check_error_msg_def memory_check_success_msg_def)

text \<open>The platform after a text has been shown, and the routine that shows one of the loader's own.\<close>

definition shown :: "'d platform \<Rightarrow> u8 list \<Rightarrow> 'd \<Rightarrow> 'd" where
  "shown P bs d = foldl (\<lambda>d al. int10_teletype P al 0 1 d) d bs"

lemma print_shown:
  assumes "placed img a (bs @ [0])" and "mem_bytes m 0x500 (length img) = img" and "length img = 1024" and "0 \<notin> set bs"
    and "\<And>x. in_range (ucast a) (length bs + 1) x \<Longrightarrow> m' x = m x"
  shows "print P m' a d = Some (shown P bs d)"
proof -
  have "c_string m (ucast a) bs"
    using placed_bytes [OF assms(1,2)] assms(4) by (intro c_string_mem_bytes) simp_all
  then have "c_string m' (ucast a) bs"
    using c_string_cong [of "ucast a" bs m' m] assms(1,3,5) by (simp add: placed_def)
  moreover have "unat a + length bs < 2 ^ 16"
    using assms(1,3) by (simp add: placed_def)
  ultimately show ?thesis
    unfolding print_def shown_def by (rule print_loop_runs)
qed

lemma print_placed:
  assumes "placed img a (bs @ [0])" and "mem_bytes m 0x500 (length img) = img" and "length img = 1024" and "0 \<notin> set bs"
    and "\<And>x. in_range (ucast a) (length bs + 1) x \<Longrightarrow> m' x = m x"
  obtains d' where "print P m' a d = Some d'"
  by (rule that [OF print_shown [OF assms]])

lemma length_dw_dd [simp]: "length (dw v) = 2" "length (dd v) = 4"
  by (simp_all add: dw_def dd_def)

lemma length_sections [simp]: "length data_section = 4" "length setup_gdt = 32" "length (gdt_section a) = 38"
  by (simp_all add: data_section_def gdt_section_def setup_gdt_def gdt_code_def gdt_data_def gdt_b8000_def dw_def dd_def)

text \<open>What the memory holds when the check has succeeded; \<open>m\<close> is the memory before.\<close>

definition map_stored :: "setup_layout \<Rightarrow> u8 list list \<Rightarrow> mem \<Rightarrow> mem \<Rightarrow> bool" where
  "map_stored A items m m' \<longleftrightarrow> load16 m' 0x1100 = of_nat (length items) \<and> mem_bytes m' 0x1102 (20 * length items) = concat items
     \<and> (\<forall>x. \<not> in_range 0x1100 (2 + 20 * length items) x \<longrightarrow> \<not> in_range (ucast (a_data A)) 4 x \<longrightarrow> m' x = m x)"

lemma placed_outside:
  assumes "placed img a xs" and "length img = 1024" and "in_range (ucast a) (length xs) x" and "k \<le> 60002"
  shows "\<not> in_range 0x1100 k x"
  using assms by (auto simp: placed_def in_range_nat unat_ucast_u16)

lemma placed_not_data:
  assumes "placed img a xs" and "length img = 1024" and "in_range (ucast a) (length xs) x"
    and "placed img (a_data A) data_section" and "apart16 (a_data A) 4 a (length xs)"
  shows "\<not> in_range (ucast (a_data A)) 4 x"
  using assms by (auto simp: placed_def apart16_def in_range_nat unat_ucast_u16)

lemma setup_start_ok:
  assumes disk: "ata_disk P sectors" and bios: "bios_map P items" and n: "length items \<le> 3000"
    and img: "setup_image A img" "length img = 1024" "mem_bytes m 0x500 1024 = img"
  obtains st m' where "setup_start P A cr0 sp m d = Some (Inr st)" and "map_stored A items m m'"
    and "ld_ram st = mem_write m' 0x1200 (disk_bytes sectors 3 60)" and "length (disk_bytes sectors 3 60) = 30720"
    and "mem_bytes m' (ucast (a_gdt A)) 32 = setup_gdt"
    and "ld_gdtr st = \<lparr>xdt_limit = 32, xdt_base = ucast (a_gdt A)\<rparr>" and "ld_cr0 st = cr0 OR 1" and "\<not> ld_iflag st" and "ld_esp st = 0x9fbff"
proof -
  have data: "placed img (a_data A) data_section" and gdt: "placed img (a_gdt A) (gdt_section (ucast (a_gdt A)))"
    and prep: "placed img (a_preparing A) ((cstr ''FunsizeOS is preparing to enter protected mode ... '' @ [10, 13]) @ [0])"
    and succ: "placed img (a_success A) ((cstr ''FunsizeOS memory check success ...'' @ [10, 13]) @ [0])"
    and apart: "apart16 (a_data A) 4 (a_gdt A) 38"
      "apart16 (a_data A) 4 (a_success A) (length ((cstr ''FunsizeOS memory check success ...'' @ [10, 13]) @ [0]))"
    using img(1) unfolding setup_image_def message_text(1-3) by simp_all
  note m = img(3) [folded img(2)]
  have low: "unat (a_data A) + 4 \<le> 0x1100"
    using data img(2) by (simp add: placed_def)
  have "mem_bytes m (ucast (a_data A)) 4 = [0, 0, 0, 0]"
    using placed_bytes [OF data m] unfolding length_sections by (simp add: data_section_def dw_def)
  then have zero: "load32 m (ucast (a_data A)) = 0"
    using load32_bytes by simp
  obtain d1 where d1: "print P m (a_preparing A) d = Some d1"
    by (rule print_placed [OF prep m img(2) message_text(4)]) simp
  obtain m' d2 where check: "memory_check P A m d1 = Some (Inr (m', d2))" and stored: "map_stored A items m m'"
    by (rule memory_check_ok [OF bios n low zero, of d1]) (simp add: map_stored_def)
  have frame: "m' x = m x" if "\<not> in_range 0x1100 (2 + 20 * length items) x" "\<not> in_range (ucast (a_data A)) 4 x" for x
    using stored that by (simp add: map_stored_def)
  obtain d3 where d3: "print P m' (a_success A) d2 = Some d3"
  proof (rule print_placed [OF succ m img(2) message_text(6), of m' P d2])
    fix x
    assume "in_range (ucast (a_success A)) (length (cstr ''FunsizeOS memory check success ...'' @ [10, 13]) + 1) x"
    then show "m' x = m x"
      using placed_outside [OF succ img(2), of x] placed_not_data [OF succ img(2) _ data apart(2)] n by (intro frame) simp_all
  qed
  have gdt_bytes: "mem_bytes m' (ucast (a_gdt A)) 38 = gdt_section (ucast (a_gdt A))"
  proof -
    have "mem_bytes m' (ucast (a_gdt A)) 38 = mem_bytes m (ucast (a_gdt A)) 38"
      using placed_outside [OF gdt img(2)] placed_not_data [OF gdt img(2) _ data] apart(1) n
      by (intro mem_bytes_cong frame) simp_all
    then show ?thesis
      using placed_bytes [OF gdt m] by simp
  qed
  then have table: "mem_bytes m' (ucast (a_gdt A)) 32 = setup_gdt"
    using gdt_bytes mem_bytes_slice [of 0 32 38 m' "ucast (a_gdt A)"] by (simp add: gdt_section_def)
  define a where "a = (ucast (a_gdt A) :: u32)"
  have "unat a < 2 ^ 16"
    unfolding a_def unat_ucast_u16 by (rule less_le_trans [OF unsigned_less]) simp
  have "mem_bytes m' (a + of_nat 32) 6 = dw 32 @ dd a"
    using gdt_bytes mem_bytes_slice [of 32 6 38 m' a] unfolding a_def [symmetric] by (simp add: gdt_section_def)
  then have ptr: "lgdt m' (a + 32) = \<lparr>xdt_limit = 32, xdt_base = a\<rparr>"
    using lgdt_bytes [of m' "a + 32" 32 a] \<open>unat a < 2 ^ 16\<close> by simp
  obtain d4 where read: "read_hd P 60 3 0x1200 m' (port_out8 P 0x92 (fst (port_in8 P 0x92 d3) OR 2) (snd (port_in8 P 0x92 d3))) =
      Some (0x1200 + 30720, mem_write m' 0x1200 (disk_bytes sectors 3 60), d4)"
    and len: "length (disk_bytes sectors 3 60) = 30720"
    using read_hd_ok [OF disk, of 60 3 "0x1200" m' _ thesis] by auto
  obtain st where "protected_mode P (enter_protected_mode P A cr0 sp m' d3) = Some st"
    and st: "ld_ram st = mem_write m' 0x1200 (disk_bytes sectors 3 60)" "ld_gdtr st = \<lparr>xdt_limit = 32, xdt_base = a\<rparr>"
      "ld_cr0 st = cr0 OR 1" "\<not> ld_iflag st" "ld_esp st = 0x9fbff"
    using read ptr by (simp add: protected_mode_def enter_protected_mode_def Let_def split_beta a_def)
  moreover from this(1) have "setup_start P A cr0 sp m d = Some (Inr st)"
    using d1 check d3 by (simp add: setup_start_def)
  ultimately show thesis
    using that stored len table unfolding a_def by blast
qed

section \<open>The hand-over to the kernel\<close>

text \<open>The initial values of the static objects, without the register the loader sets.\<close>

definition static_initial :: "'a task_state_scheme \<Rightarrow> bool" where
  "static_initial s \<longleftrightarrow> length (printk_buf s) = 1024 \<and> bitmap_item_used (g_physics_memory_map s) = 0
     \<and> bucket_dir s = initial_bucket_dir \<and> free_bucket_desc s = 0 \<and> tasks s = replicate 64 0 \<and> current s = 0
     \<and> keymap s = initial_keymap"

definition handed_over :: "'d loaded \<Rightarrow> 'a cpu_state_scheme \<Rightarrow> bool" where
  "handed_over st s \<longleftrightarrow> ram s = ld_ram st \<and> gdtr s = ld_gdtr st \<and> iflag s = ld_iflag st \<and> esp (regs s) = ld_esp st"

text \<open>The kernel's image, as the linker laid it out: its tables and the name of the idle task.\<close>

definition kernel_image :: "kernel_layout \<Rightarrow> u8 list \<Rightarrow> u8 list \<Rightarrow> bool" where
  "kernel_image L nm img \<longleftrightarrow> between 0x1200 0x10000 (l_gdt L) 2048 \<and> between 0x1200 0x10000 (l_idt L) 2048
     \<and> apart (l_gdt L) 2048 (l_idt L) 2048 \<and> apart (l_gdt L) 2048 (l_idle_name L) (length nm + 1)
     \<and> apart (l_idt L) 2048 (l_idle_name L) (length nm + 1) \<and> length nm \<le> 31 \<and> 0 \<notin> set nm
     \<and> between 0x1200 (0x1200 + length img) (l_idle_name L) (length nm + 1)
     \<and> take (length nm + 1) (drop (unat (l_idle_name L) - 0x1200) img) = nm @ [0]"

text \<open>The BIOS reports usable memory from 1 MB on as item \<open>k\<close>, and no more items than fit.\<close>

definition usable_zone :: "u8 list list \<Rightarrow> nat \<Rightarrow> bool" where
  "usable_zone items k \<longleftrightarrow> length items \<le> 12 \<and> k < length items
     \<and> base_addr_low (item_of (items ! k)) = VALID_MEMORY_FROM \<and> item_type (item_of (items ! k)) = ZONE_VALID
     \<and> (\<forall>j<k. base_addr_low (item_of (items ! j)) \<noteq> VALID_MEMORY_FROM)
     \<and> 0x2000 \<le> unat (length_low (item_of (items ! k))) \<and> unat (length_low (item_of (items ! k))) < 0x10000000"

lemma boot_zone_stored:
  assumes zone: "usable_zone items k" and bios: "bios_map P items" and "map_stored A items m m'"
    and ram: "r = mem_write m' 0x1200 img" and "length img = 30720"
  shows "boot_zone r k"
proof (rule boot_zone_cong)
  have n: "length items \<le> 12"
    using zone by (simp add: usable_zone_def)
  have stored: "load16 m' 0x1100 = of_nat (length items)" "mem_bytes m' 0x1102 (20 * length items) = concat items"
    using assms(3) by (simp_all add: map_stored_def)
  have lens: "e \<in> set items \<Longrightarrow> length e = 20" for e
    using bios unfolding bios_map_def by (blast intro: length_e820_items)
  have "check_memory_item_at m' i = item_of (items ! i)" if "i < length items" for i
    by (rule items_stored [OF stored(2) lens that])
  moreover have "check_memory_times m' = length items"
    using stored(1) n by (simp add: check_memory_times_def unat_of_nat_small)
  ultimately show "boot_zone m' k"
    using zone by (simp add: boot_zone_def usable_zone_def)
  fix y
  assume "in_range 0x1100 256 y"
  then show "r y = m' y"
    using assms(5) unfolding ram by (intro mem_write_other) (simp add: in_range_nat)
qed

lemma handed_over_boots:
  fixes s :: "'a cpu_state_scheme"
  assumes zone: "usable_zone items k" and bios: "bios_map P items" and stored: "map_stored A items m m'"
    and st: "ld_ram st = mem_write m' 0x1200 img" "length img = 30720" "ld_gdtr st = \<lparr>xdt_limit = 32, xdt_base = ucast a\<rparr>"
    and a: "unat (a :: u16) + 32 \<le> 0x1200" and L: "kernel_image L nm img"
    and s: "handed_over st s" "static_initial s"
  shows "boot_ok L nm k s"
proof -
  have ram: "ram s = mem_write m' 0x1200 img" and gdtr: "gdtr s = \<lparr>xdt_limit = 32, xdt_base = ucast a\<rparr>"
    using s(1) st(1,3) by (simp_all add: handed_over_def)
  have "boot_static s"
    using s(2) gdtr by (simp add: boot_static_def static_initial_def)
  moreover have "boot_zone (ram s) k"
    unfolding ram by (rule boot_zone_stored [OF zone bios stored refl st(2)])
  moreover have "c_string (ram s) (l_idle_name L) nm"
  proof (rule c_string_mem_bytes)
    let ?i = "unat (l_idle_name L) - 0x1200"
    have "0x1200 \<le> unat (l_idle_name L)" "unat (l_idle_name L) + (length nm + 1) \<le> 0x1200 + length img"
      and bytes: "take (length nm + 1) (drop ?i img) = nm @ [0]"
      using L by (simp_all add: kernel_image_def between_def)
    then have i: "0x1200 \<le> unat (l_idle_name L)" "?i + (length nm + 1) \<le> length img"
      by linarith+
    have "l_idle_name L = 0x1200 + of_nat ?i"
      using i st(2) unat_add_small [of "0x1200 :: u32" ?i] by (simp add: word_unat_eq_iff)
    then have "mem_bytes (ram s) (l_idle_name L) (length nm + 1) = take (length nm + 1) (drop ?i (mem_bytes (ram s) 0x1200 (length img)))"
      using mem_bytes_slice [OF i(2), of "ram s" "0x1200"] by simp
    then show "mem_bytes (ram s) (l_idle_name L) (length nm + 1) = nm @ [0]"
      using bytes st(2) mem_bytes_write [of img m' "0x1200"] by (simp add: ram)
  qed (use L in \<open>simp add: kernel_image_def\<close>)
  then have "boot_layout L nm s"
    using L a gdtr st(2) by (auto simp: boot_layout_def kernel_image_def between_def unat_ucast_u16)
  ultimately show ?thesis
    by (simp add: boot_ok_def)
qed

section \<open>The table of the loader\<close>

definition flat_kernel_segment :: "4 word \<Rightarrow> gdt_item \<Rightarrow> bool" where
  "flat_kernel_segment t g \<longleftrightarrow> seg_base g = 0 \<and> seg_limit g = 0xffffffff \<and> seg_type g = t
     \<and> segment g = 1 \<and> DPL g = 0 \<and> present g = 1 \<and> big g = 1"

lemma table_entry_bytes:
  assumes "mem_bytes m a 32 = setup_gdt" and "i < 4"
  shows "table_entry m a i = ucast (le32 setup_gdt (8 * i)) OR push_bit 32 (ucast (le32 setup_gdt (8 * i + 4)))"
proof -
  have "load32 m (a + of_nat k) = le32 setup_gdt k" if "k + 4 \<le> 32" for k
  proof (rule load32_le32)
    fix j :: nat
    assume "j < 4"
    then show "m (a + of_nat k + of_nat j) = setup_gdt ! (k + j)"
      using that assms(1) nth_mem_bytes [of "k + j" 32 m a] by (simp add: add.assoc)
  qed
  from this [of "8 * i"] this [of "8 * i + 4"] assms(2) show ?thesis
    by (simp add: table_entry_def load64_def add.assoc)
qed

lemma setup_segments:
  assumes "mem_bytes m a 32 = setup_gdt"
  shows "flat_kernel_segment 8 (word_gdt_item (table_entry m a 1))" and "flat_kernel_segment 2 (word_gdt_item (table_entry m a 2))"
    and "seg_base (word_gdt_item (table_entry m a 3)) = 0xb8000" and "seg_limit (word_gdt_item (table_entry m a 3)) = 0xf7fff"
proof -
  have "table_entry m a 1 = 0x00CF98000000FFFF" "table_entry m a 2 = 0x00CF92000000FFFF" "table_entry m a 3 = 0x004F920B80007FFF"
    using table_entry_bytes [OF assms, of 1] table_entry_bytes [OF assms, of 2] table_entry_bytes [OF assms, of 3]
    by (simp_all add: le32_def setup_gdt_def gdt_code_def gdt_data_def gdt_b8000_def dw_def dd_def COMPUTE_G_DB_AVL_LIMIT_def)
  then show "flat_kernel_segment 8 (word_gdt_item (table_entry m a 1))" "flat_kernel_segment 2 (word_gdt_item (table_entry m a 2))"
    "seg_base (word_gdt_item (table_entry m a 3)) = 0xb8000" "seg_limit (word_gdt_item (table_entry m a 3)) = 0xf7fff"
    by (simp_all add: flat_kernel_segment_def word_gdt_item_def seg_base_def seg_limit_def)
qed

section \<open>A disk for the witnesses\<close>

fun le_words :: "u8 list \<Rightarrow> u16 list" where
  "le_words (a # b # bs) = (ucast a OR push_bit 8 (ucast b)) # le_words bs"
| "le_words bs = []"

lemma le_bytes_words: "even (length bs) \<Longrightarrow> le_bytes (le_words bs) = bs \<and> length (le_words bs) = length bs div 2"
  by (induction bs rule: le_words.induct) (auto simp: bit_simps bit_beyond intro!: bit_word_eqI)

definition sample_setup_layout :: setup_layout where
  "sample_setup_layout = \<lparr>a_data = 0x500, a_gdt = 0x504, a_preparing = 0x52A, a_error = 0x560, a_success = 0x582\<rparr>"

definition sample_setup :: "u8 list" where
  "sample_setup = data_section @ gdt_section 0x504 @ preparing_to_enter_protected_mode @ memory_check_error_msg
     @ memory_check_success_msg @ replicate 857 0"

definition sample_sectors :: "nat \<Rightarrow> u16 list" where
  "sample_sectors i = (if i = 1 then take 256 (le_words sample_setup) else if i = 2 then drop 256 (le_words sample_setup) else replicate 256 0)"

definition sample_items :: "u8 list list" where
  "sample_items = [dd 0x100000 @ dd 0 @ dd 0x2000 @ dd 0 @ dd 1]"

definition sample_message_memory :: mem where
  "sample_message_memory = mem_write (\<lambda>_. 0) 0x7d00 jump_to_setup_message"

lemma length_messages [simp]:
  "length preparing_to_enter_protected_mode = 54" "length memory_check_error_msg = 34" "length memory_check_success_msg = 37"
  by (simp_all add: message_text)

lemma length_sample_setup [simp]: "length sample_setup = 1024"
  by (simp add: sample_setup_def del: replicate_numeral)

lemma sample_sector [simp]: "length (sample_sectors i) = 256"
  using le_bytes_words [of sample_setup] by (simp add: sample_sectors_def del: replicate_numeral)

lemma sample_disk_bytes: "disk_bytes sample_sectors 1 2 = sample_setup" "disk_bytes sample_sectors 3 60 = replicate 30720 0"
proof -
  have "map sample_sectors [1..<1 + 2] = [sample_sectors 1, sample_sectors 2]"
    by (simp add: upt_rec numeral_2_eq_2)
  moreover have "sample_sectors 1 @ sample_sectors 2 = le_words sample_setup"
    by (simp add: sample_sectors_def)
  ultimately show "disk_bytes sample_sectors 1 2 = sample_setup"
    using le_bytes_words [of sample_setup] unfolding disk_bytes_def by simp
  have "b = 0" if "b \<in> set (disk_bytes sample_sectors lba n)" "3 \<le> lba" for b lba n
    using that by (auto simp: disk_bytes_def sample_sectors_def le_bytes_def split: if_splits)
  moreover have "length (disk_bytes sample_sectors lba n) = 512 * n" for lba n
  proof -
    have "length (concat (map sample_sectors xs)) = 256 * length xs" for xs
      by (induction xs) simp_all
    then show ?thesis
      by (simp add: disk_bytes_def)
  qed
  ultimately show "disk_bytes sample_sectors 3 60 = replicate 30720 0"
    by (intro replicate_eqI) (simp, blast)
qed

lemma placed_append:
  assumes "unat a = 0x500 + length pre" and "length pre + length xs \<le> 0x400"
  shows "placed (pre @ xs @ post) a xs"
  using assms by (simp add: placed_def)

lemma sample_setup_image: "setup_image sample_setup_layout sample_setup"
proof -
  have "placed sample_setup 0x500 data_section"
    unfolding sample_setup_def using placed_append [of "0x500" "[]" data_section] by simp
  moreover have "placed sample_setup 0x504 (gdt_section 0x504)"
    unfolding sample_setup_def by (rule placed_append) simp_all
  moreover have "placed sample_setup 0x52A preparing_to_enter_protected_mode"
    unfolding sample_setup_def append_assoc [of data_section, symmetric] by (rule placed_append) simp_all
  moreover have "placed sample_setup (a_error sample_setup_layout) memory_check_error_msg"
    using placed_append [of "a_error sample_setup_layout" "data_section @ gdt_section 0x504 @ preparing_to_enter_protected_mode" memory_check_error_msg]
    by (simp add: sample_setup_def sample_setup_layout_def)
  moreover have "placed sample_setup (a_success sample_setup_layout) memory_check_success_msg"
    using placed_append [of "a_success sample_setup_layout"
        "data_section @ gdt_section 0x504 @ preparing_to_enter_protected_mode @ memory_check_error_msg" memory_check_success_msg]
    by (simp add: sample_setup_def sample_setup_layout_def)
  ultimately show ?thesis
    by (simp add: setup_image_def sample_setup_layout_def apart16_def)
qed

lemma sample_items_ok: "e \<in> set sample_items \<Longrightarrow> length e = 20" "usable_zone sample_items 0"
proof -
  have "item_of (sample_items ! 0) = \<lparr>base_addr_low = 0x100000, base_addr_high = 0, length_low = 0x2000, length_high = 0, item_type = 1\<rparr>"
    by (simp add: sample_items_def item_of_def le32_def dd_def)
  then show "usable_zone sample_items 0"
    by (simp add: usable_zone_def) (simp add: sample_items_def)
qed (simp add: sample_items_def)

lemma sample_kernel_image: "kernel_image sample_layout [] (replicate 30720 0)"
  by (simp add: kernel_image_def sample_layout_def between_def apart_def del: replicate_numeral)

end
