(* ===== verification/Loader_Kernel.thy ===== *)
theory Loader_Kernel
  imports Loader_Props
begin

text \<open>
  The properties of the way from the boot sector to the kernel: the first task after a good start, a
  failed memory check, a drive that never answers, and a memory map longer than its room.
\<close>

section \<open>A good start\<close>

definition boot_medium :: "setup_layout \<Rightarrow> kernel_layout \<Rightarrow> u8 list \<Rightarrow> (nat \<Rightarrow> u16 list) \<Rightarrow> bool" where
  "boot_medium A L nm sectors \<longleftrightarrow> setup_image A (disk_bytes sectors 1 2) \<and> kernel_image L nm (disk_bytes sectors 3 60)"

text \<open>The boot sector in memory, as far as it is data.\<close>

definition boot_sector :: "u16 \<Rightarrow> mem \<Rightarrow> bool" where
  "boot_sector msg m \<longleftrightarrow> 0x7c00 \<le> unat msg \<and> unat msg + length jump_to_setup_message \<le> 0x7e00
     \<and> mem_bytes m (ucast msg) (length jump_to_setup_message) = jump_to_setup_message"

lemma boot_start_loads:
  assumes "ata_disk P sectors" and "boot_sector msg m"
  obtains d' where "boot_start P msg m d = Some (mem_write m 0x500 (disk_bytes sectors 1 2), d')"
    and "length (disk_bytes sectors 1 2) = 1024"
    and "mem_bytes (mem_write m 0x500 (disk_bytes sectors 1 2)) 0x500 1024 = disk_bytes sectors 1 2"
proof -
  let ?bs = "cstr ''FunSizeOS jump to setup ...'' @ [10, 13]"
  have text_eq: "jump_to_setup_message = ?bs @ [0]"
    by (simp add: jump_to_setup_message_def)
  have msg: "c_string m (ucast msg) ?bs"
    using assms(2) unfolding boot_sector_def text_eq by (intro c_string_mem_bytes) simp_all
  show thesis
  proof (rule boot_start_ok [OF assms(1) msg])
    fix d'
    assume run: "boot_start P msg m d = Some (mem_write m 0x500 (disk_bytes sectors 1 2), d')"
      and len: "length (disk_bytes sectors 1 2) = 1024"
    have "mem_bytes (mem_write m 0x500 (disk_bytes sectors 1 2)) 0x500 1024 = disk_bytes sectors 1 2"
      using mem_bytes_write [of "disk_bytes sectors 1 2" m "0x500"] len by simp
    with run len show thesis
      by (rule that)
  qed (use assms(2) in \<open>simp_all add: boot_sector_def jump_to_setup_message_def\<close>)
qed

lemma loader_stack:
  assumes "handed_over st (s :: 'a cpu_state_scheme)" and "ld_esp st = 0x9fbff"
  shows "\<forall>y. in_range (esp (regs s) - 20) 20 y \<longrightarrow> low_memory y"
  using assms by (auto simp: handed_over_def low_memory_def vga_nat in_range_nat)

text \<open>The kernel's image leaves the map alone, as it starts above it.\<close>

lemma loaded_map:
  assumes zone: "usable_zone items k" and bios: "bios_map P items" and stored: "map_stored A items m m'"
    and ram: "r = mem_write m' 0x1200 img" and len: "length img = 30720"
  shows "check_memory_times r = length items" and "i < length items \<Longrightarrow> check_memory_item_at r i = item_of (items ! i)"
proof -
  have n: "length items \<le> 12"
    using zone by (simp add: usable_zone_def)
  have lens: "e \<in> set items \<Longrightarrow> length e = 20" for e
    using bios unfolding bios_map_def by (blast intro: length_e820_items)
  have below: "r y = m' y" if "in_range 0x1100 256 y" for y
    using that len unfolding ram by (intro mem_write_other) (simp add: in_range_nat)
  show "check_memory_times r = length items"
    using bios_map_cong(1) [of r m', OF below] stored n by (simp add: map_stored_def check_memory_times_def unat_of_nat_small)
  show "check_memory_item_at r i = item_of (items ! i)" if "i < length items"
    using bios_map_cong(2) [of r m' i, OF below] items_stored [of m' items i] stored lens that n
    by (simp add: map_stored_def)
qed

text \<open>
  C4: on a drive that delivers its sectors and with a BIOS map of at most twelve items that has the zone
  at 1 MB, the boot sector puts the loader at \<open>0x500\<close>; the loader stores the number of items and the
  items, loads a descriptor table of flat ring 0 segments, turns protected mode on with interrupts off,
  and puts the 60 sectors of the kernel at \<open>0x1200\<close>. The kernel, entered with that memory and those
  registers and with its static data at their initial values, boots: the idle task is the only task, the
  invariant of every run holds, and its own table still has the loader's flat code and data segments.
\<close>

theorem loader_boots_kernel:
  assumes disk: "ata_disk P sectors" and bios: "bios_map P items" and zone: "usable_zone items k"
    and medium: "boot_medium A L nm sectors" and sector: "boot_sector msg m"
  shows "\<exists>m1 d1 st. boot_start P msg m d = Some (m1, d1) \<and> mem_bytes m1 0x500 1024 = disk_bytes sectors 1 2
    \<and> setup_start P A cr0 sp m1 d1 = Some (Inr st)
    \<and> mem_bytes (ld_ram st) 0x1200 30720 = disk_bytes sectors 3 60
    \<and> check_memory_times (ld_ram st) = length items
    \<and> (\<forall>i<length items. check_memory_item_at (ld_ram st) i = item_of (items ! i))
    \<and> flat_kernel_segment 8 (word_gdt_item (table_entry (ld_ram st) (xdt_base (ld_gdtr st)) 1))
    \<and> flat_kernel_segment 2 (word_gdt_item (table_entry (ld_ram st) (xdt_base (ld_gdtr st)) 2))
    \<and> ld_cr0 st = cr0 OR 1 \<and> \<not> ld_iflag st \<and> ld_esp st = 0x9fbff
    \<and> (\<forall>s :: 'a cpu_state_scheme. handed_over st s \<longrightarrow> static_initial s \<longrightarrow>
        (\<exists>s' t H. head_start L s = Some s' \<and> cpu_inv s' H \<and> tasks s' = t # replicate 63 0 \<and> iflag s'
          \<and> flat_kernel_segment 8 (word_gdt_item (table_entry (ram s') (l_gdt L) 1))
          \<and> flat_kernel_segment 2 (word_gdt_item (table_entry (ram s') (l_gdt L) 2))))"
proof -
  let ?img = "disk_bytes sectors 1 2" and ?kernel = "disk_bytes sectors 3 60"
  have loader: "setup_image A ?img" and kernel: "kernel_image L nm ?kernel"
    using medium by (simp_all add: boot_medium_def)
  define m1 where "m1 = mem_write m 0x500 ?img"
  obtain d1 where boot: "boot_start P msg m d = Some (m1, d1)" and img: "length ?img = 1024" "mem_bytes m1 0x500 1024 = ?img"
    unfolding m1_def by (rule boot_start_loads [OF disk sector])
  have n: "length items \<le> 3000"
    using zone by (simp add: usable_zone_def)
  obtain st m' where run: "setup_start P A cr0 sp m1 d1 = Some (Inr st)" and stored: "map_stored A items m1 m'"
    and ram: "ld_ram st = mem_write m' 0x1200 ?kernel" and len: "length ?kernel = 30720"
    and table: "mem_bytes m' (ucast (a_gdt A)) 32 = setup_gdt" and gdtr: "ld_gdtr st = \<lparr>xdt_limit = 32, xdt_base = ucast (a_gdt A)\<rparr>"
    and cpu: "ld_cr0 st = cr0 OR 1" "\<not> ld_iflag st" "ld_esp st = 0x9fbff"
    by (rule setup_start_ok [OF disk bios n loader img])
  have low: "unat (a_gdt A) + 38 \<le> 0x900"
    using loader img(1) by (simp add: setup_image_def placed_def)
  have table_st: "mem_bytes (ld_ram st) (ucast (a_gdt A)) 32 = setup_gdt"
    unfolding ram table [symmetric]
    by (rule mem_bytes_cong) (use low len in \<open>simp_all add: mem_write_other in_range_nat unat_ucast_u16\<close>)
  have "\<exists>s' t H. head_start L s = Some s' \<and> cpu_inv s' H \<and> tasks s' = t # replicate 63 0 \<and> iflag s'
      \<and> flat_kernel_segment 8 (word_gdt_item (table_entry (ram s') (l_gdt L) 1))
      \<and> flat_kernel_segment 2 (word_gdt_item (table_entry (ram s') (l_gdt L) 2))"
    if s: "handed_over st s" "static_initial s" for s :: "'a cpu_state_scheme"
  proof -
    have ok: "boot_ok L nm k s"
      by (rule handed_over_boots [OF zone bios stored ram len gdtr _ kernel s]) (use low in simp)
    obtain s' t H where head: "head_start L s = Some s'" and up: "kernel_up L nm s s' t H"
      by (rule head_start_up [OF ok])
    have "table_entry (ram s') (l_gdt L) i = table_entry (ld_ram st) (ucast (a_gdt A)) i" if "i < 4" for i
      using up s(1) gdtr that by (simp add: kernel_up_def tables_ready_def handed_over_def)
    from this [of 1] this [of 2] show ?thesis
      using head up boot_cpu_inv(1) [OF ok up loader_stack [OF s(1) cpu(3)]] setup_segments(1,2) [OF table_st]
      by (intro exI [of _ s'] exI [of _ t] exI [of _ H]) (simp add: kernel_up_def)
  qed
  moreover have "mem_bytes (ld_ram st) 0x1200 30720 = ?kernel"
    using mem_bytes_write [of ?kernel m' "0x1200"] len unfolding ram by simp
  moreover have "check_memory_times (ld_ram st) = length items"
    "\<forall>i<length items. check_memory_item_at (ld_ram st) i = item_of (items ! i)"
    using loaded_map [OF zone bios stored ram len] by blast+
  moreover note setup_segments(1,2) [OF table_st]
  ultimately show ?thesis
    using boot img(2) run cpu gdtr by (intro exI [of _ m1] exI [of _ d1] exI [of _ st]) simp
qed

lemma sample_boot_sector: "boot_sector 0x7d00 sample_message_memory"
  using mem_bytes_write [of jump_to_setup_message "\<lambda>_. 0" "0x7d00"]
  by (simp add: boot_sector_def sample_message_memory_def jump_to_setup_message_def)

lemma sample_medium: "boot_medium sample_setup_layout sample_layout [] sample_sectors"
  unfolding boot_medium_def sample_disk_bytes using sample_setup_image sample_kernel_image by blast

lemma sample_devices:
  "ata_disk (sample_platform sample_sectors sample_items) sample_sectors" "bios_map (sample_platform sample_sectors sample_items) sample_items"
  using sample_disk [of sample_sectors] sample_bios [of sample_items] sample_items_ok(1) by (simp_all add: sample_items_def)

definition sample_handed :: "'d loaded \<Rightarrow> cpu_state" where
  "sample_handed st = sample_boot\<lparr>ram := ld_ram st, gdtr := ld_gdtr st, iflag := ld_iflag st, regs := (regs sample_boot)\<lparr>esp := ld_esp st\<rparr>\<rparr>"

lemma sample_handed_ok: "handed_over st (sample_handed st)" "static_initial (sample_handed st)"
  using sample_boot_ok by (simp_all add: handed_over_def sample_handed_def static_initial_def boot_ok_def boot_static_def)

definition sample_drive :: drive where
  "sample_drive = \<lparr>dr_regs = (\<lambda>_. 0), dr_pos = 0, dr_busy = False, dr_screen = []\<rparr>"

theorem loader_boots_kernel_witness:
  "\<exists>m1 d1 st s' t. boot_start (sample_platform sample_sectors sample_items) 0x7d00 sample_message_memory sample_drive = Some (m1, d1)
    \<and> setup_start (sample_platform sample_sectors sample_items) sample_setup_layout 0x10 0x7000 m1 d1 = Some (Inr st)
    \<and> mem_bytes (ld_ram st) 0x1200 30720 = replicate 30720 0 \<and> check_memory_times (ld_ram st) = 1
    \<and> head_start sample_layout (sample_handed st) = Some s' \<and> tasks s' = t # replicate 63 0"
proof -
  have one: "length sample_items = 1"
    by (simp add: sample_items_def)
  obtain m1 d1 st where run: "boot_start (sample_platform sample_sectors sample_items) 0x7d00 sample_message_memory sample_drive = Some (m1, d1)"
      "setup_start (sample_platform sample_sectors sample_items) sample_setup_layout 0x10 0x7000 m1 d1 = Some (Inr st)"
      "mem_bytes (ld_ram st) 0x1200 30720 = replicate 30720 0" "check_memory_times (ld_ram st) = 1"
    and up: "\<forall>s :: cpu_state. handed_over st s \<longrightarrow> static_initial s \<longrightarrow> (\<exists>s' t H. head_start sample_layout s = Some s' \<and> cpu_inv s' H
      \<and> tasks s' = t # replicate 63 0 \<and> iflag s' \<and> flat_kernel_segment 8 (word_gdt_item (table_entry (ram s') (l_gdt sample_layout) 1))
      \<and> flat_kernel_segment 2 (word_gdt_item (table_entry (ram s') (l_gdt sample_layout) 2)))"
    using loader_boots_kernel [OF sample_devices sample_items_ok(2) sample_medium sample_boot_sector, of sample_drive "0x10" "0x7000", where 'a = unit]
    unfolding sample_disk_bytes one by blast
  from up sample_handed_ok [of st] obtain s' t where "head_start sample_layout (sample_handed st) = Some s'" "tasks s' = t # replicate 63 0"
    by blast
  with run show ?thesis
    by blast
qed

section \<open>A map that is too long\<close>

text \<open>
  C15: the loader stores as many items as the BIOS has, and then loads the kernel over the end of the
  buffer: with more than twelve items the first twelve are what the BIOS returned, but the type of the
  next and all the items after it are bytes of the kernel's image, while the count still includes them.
\<close>

theorem long_map_reads_kernel_code:
  assumes disk: "ata_disk P sectors" and bios: "bios_map P items" and n: "12 < length items" "length items \<le> 1500"
    and img: "setup_image A img" "length img = 1024" "mem_bytes m 0x500 1024 = img"
  shows "\<exists>st. setup_start P A cr0 sp m d = Some (Inr st) \<and> check_memory_times (ld_ram st) = length items
    \<and> (\<forall>i<12. check_memory_item_at (ld_ram st) i = item_of (items ! i))
    \<and> item_type (check_memory_item_at (ld_ram st) 12) = le32 (disk_bytes sectors 3 60) 2
    \<and> (\<forall>i. 12 < i \<longrightarrow> i < length items \<longrightarrow>
         check_memory_item_at (ld_ram st) i = item_of (drop (20 * i - 254) (disk_bytes sectors 3 60)))"
proof -
  let ?kernel = "disk_bytes sectors 3 60"
  have n3: "length items \<le> 3000"
    using n by simp
  obtain st m' where run: "setup_start P A cr0 sp m d = Some (Inr st)" and stored: "map_stored A items m m'"
    and ram: "ld_ram st = mem_write m' 0x1200 ?kernel" and len: "length ?kernel = 30720"
    by (rule setup_start_ok [OF disk bios n3 img])
  have lens: "e \<in> set items \<Longrightarrow> length e = 20" for e
    using bios unfolding bios_map_def by (blast intro: length_e820_items)
  have below: "ld_ram st y = m' y" if "in_range 0x1100 256 y" for y
    using that len unfolding ram by (intro mem_write_other) (simp add: in_range_nat)
  have code: "ld_ram st (0x1200 + of_nat j) = ?kernel ! j" if "j < 30720" for j
    using that len unfolding ram by (intro mem_write_nth) simp_all
  have "check_memory_item_at (ld_ram st) i = item_of (items ! i)" if "i < 12" for i
    using bios_map_cong(2) [of "ld_ram st" m' i, OF below that] items_stored [of m' items i] stored lens that n(1)
    by (simp add: map_stored_def)
  moreover have "check_memory_times (ld_ram st) = length items"
    using bios_map_cong(1) [of "ld_ram st" m', OF below] stored n by (simp add: map_stored_def check_memory_times_def unat_of_nat_small)
  moreover have "item_type (check_memory_item_at (ld_ram st) 12) = le32 ?kernel 2"
  proof -
    have "load32 (ld_ram st) 0x1202 = le32 ?kernel 2"
      using code [of "2 + j" for j] by (intro load32_le32) (simp flip: of_nat_add add: add.assoc)
    then show ?thesis
      by (simp add: check_memory_item_at_def Let_def)
  qed
  moreover have "check_memory_item_at (ld_ram st) i = item_of (drop (20 * i - 254) ?kernel)" if i: "12 < i" "i < length items" for i
  proof (rule item_at_bytes)
    fix j :: nat
    assume j: "j < 20"
    have "0x1102 + 20 * i = 0x1200 + (20 * i - 254)"
      using i by linarith
    then have "(0x1102 + of_nat (20 * i + j) :: u32) = 0x1200 + of_nat (20 * i - 254 + j)"
      by (metis (no_types, opaque_lifting) add.assoc of_nat_add of_nat_numeral)
    then show "ld_ram st (0x1102 + of_nat (20 * i + j)) = drop (20 * i - 254) ?kernel ! j"
      using code [of "20 * i - 254 + j"] i j n(2) len by simp
  qed
  ultimately show ?thesis
    using run by blast
qed

definition long_map :: "u8 list list" where
  "long_map = replicate 13 (dd 0x200000 @ dd 0 @ dd 0x1000 @ dd 0 @ dd 1)"

definition loaded_memory :: mem where
  "loaded_memory = mem_write (\<lambda>_. 0) 0x500 sample_setup"

lemma loaded_setup: "mem_bytes loaded_memory 0x500 1024 = sample_setup"
  using mem_bytes_write [of sample_setup "\<lambda>_. 0" "0x500"] by (simp add: loaded_memory_def)

lemma long_map_length: "length long_map = 13" "e \<in> set long_map \<Longrightarrow> length e = 20"
  by (auto simp: long_map_def simp del: replicate_numeral)

theorem long_map_reads_kernel_code_witness:
  "\<exists>st. setup_start (sample_platform sample_sectors long_map) sample_setup_layout 0x10 0x7000 loaded_memory sample_drive = Some (Inr st)
    \<and> check_memory_times (ld_ram st) = 13 \<and> item_type (item_of (long_map ! 12)) = 1
    \<and> item_type (check_memory_item_at (ld_ram st) 12) = 0"
proof -
  have disk: "ata_disk (sample_platform sample_sectors long_map) sample_sectors"
    by (rule sample_disk) simp
  have bios: "bios_map (sample_platform sample_sectors long_map) long_map"
    by (rule sample_bios) (use long_map_length in \<open>auto simp: long_map_def\<close>)
  have n: "12 < length long_map" "length long_map \<le> 1500"
    by (simp_all add: long_map_length)
  obtain st where "setup_start (sample_platform sample_sectors long_map) sample_setup_layout 0x10 0x7000 loaded_memory sample_drive = Some (Inr st)"
    and "check_memory_times (ld_ram st) = length long_map"
    and "item_type (check_memory_item_at (ld_ram st) 12) = le32 (replicate 30720 0) 2"
    using long_map_reads_kernel_code [OF disk bios n sample_setup_image length_sample_setup loaded_setup, of "0x10" "0x7000" sample_drive]
    unfolding sample_disk_bytes by blast
  moreover have "le32 (replicate 30720 0) 2 = 0"
    by (simp add: le32_def del: replicate_numeral)
  moreover have "item_type (item_of (long_map ! 12)) = 1"
    by (simp add: long_map_def item_of_def le32_def dd_def del: replicate_numeral)
  ultimately show ?thesis
    unfolding long_map_length(1) by metis
qed

section \<open>A start that stops\<close>

text \<open>The BIOS answers \<open>k\<close> calls and sets the carry flag at the next.\<close>

fun e820_fails :: "'d platform \<Rightarrow> u32 \<Rightarrow> nat \<Rightarrow> 'd \<Rightarrow> bool" where
  "e820_fails P b 0 d \<longleftrightarrow>
     (let (r, d') = int15 P 0xe820 b 20 0x534D4150 d in r_carry r \<and> length (r_bytes r) \<le> 20)"
| "e820_fails P b (Suc k) d \<longleftrightarrow>
     (let (r, d') = int15 P 0xe820 b 20 0x534D4150 d
      in \<not> r_carry r \<and> length (r_bytes r) = 20 \<and> r_ecx r = 20 \<and> r_ebx r \<noteq> 0 \<and> e820_fails P (r_ebx r) k d')"

text \<open>The platform after these \<open>k + 1\<close> calls.\<close>

fun e820_state :: "'d platform \<Rightarrow> u32 \<Rightarrow> nat \<Rightarrow> 'd \<Rightarrow> 'd" where
  "e820_state P b 0 d = snd (int15 P 0xe820 b 20 0x534D4150 d)"
| "e820_state P b (Suc k) d = (let (r, d') = int15 P 0xe820 b 20 0x534D4150 d in e820_state P (r_ebx r) k d')"

lemma failed_loop:
  assumes "e820_fails P b k d" and "unat di + 20 * (k + 1) < 2 ^ 16"
  shows "\<exists>m'. memory_check_loop P t b di m d = Some (Inl (m', e820_state P b k d))
    \<and> (\<forall>x. \<not> in_range (ucast di) (20 * (k + 1)) x \<longrightarrow> \<not> in_range t 4 x \<longrightarrow> m' x = m x)"
  using assms
proof (induction k arbitrary: b di m d)
  case 0
  obtain r d1 where r: "int15 P 0xe820 b 20 0x534D4150 d = (r, d1)"
    by (cases "int15 P 0xe820 b 20 0x534D4150 d")
  have "mem_write m (ucast di) (r_bytes r) x = m x" if "\<not> in_range (ucast di) 20 x" for x
    using 0 r that by (intro mem_write_other) (auto simp: in_range_weaken)
  moreover have "memory_check_loop P t b di m d = Some (Inl (mem_write m (ucast di) (r_bytes r), d1))"
    using 0 r by (subst memory_check_loop.simps) (simp add: Let_def)
  ultimately show ?case
    using r by auto
next
  case (Suc k)
  obtain r d1 where r: "int15 P 0xe820 b 20 0x534D4150 d = (r, d1)"
    by (cases "int15 P 0xe820 b 20 0x534D4150 d")
  let ?m = "mem_write m (ucast di) (r_bytes r)"
  let ?m1 = "store32 ?m t (load32 ?m t + 1)"
  have di: "ucast (di + 20) = (ucast di + 20 :: u32)" "unat (di + 20) = unat di + 20"
    using unat_ucast_add16 [of di 20] Suc.prems(2) by simp_all
  have here: "in_range (ucast di) 20 x \<Longrightarrow> in_range (ucast di) (20 * (Suc k + 1)) x" for x :: u32
    by (erule in_range_weaken) simp
  have further: "in_range (ucast di + 20) (20 * (k + 1)) x \<Longrightarrow> in_range (ucast di) (20 * (Suc k + 1)) x" for x :: u32
    using in_range_sub [of "ucast di" 20 "20 * (k + 1)" x "20 * (Suc k + 1)"] Suc.prems(2) by simp
  have rest: "e820_fails P (r_ebx r) k d1" "unat (di + 20) + 20 * (k + 1) < 2 ^ 16"
    using Suc.prems r di by simp_all
  obtain m' where run: "memory_check_loop P t (r_ebx r) (di + 20) ?m1 d1 = Some (Inl (m', e820_state P (r_ebx r) k d1))"
    and frame: "\<forall>x. \<not> in_range (ucast di + 20) (20 * (k + 1)) x \<longrightarrow> \<not> in_range t 4 x \<longrightarrow> m' x = ?m1 x"
    using Suc.IH [OF rest, of ?m1] unfolding di(1) by blast
  have "memory_check_loop P t b di m d = Some (Inl (m', e820_state P b (Suc k) d))"
    using Suc.prems(1) r run by (subst memory_check_loop.simps) (simp add: Let_def)
  moreover have "m' x = m x" if "\<not> in_range (ucast di) (20 * (Suc k + 1)) x" "\<not> in_range t 4 x" for x
  proof -
    have "\<not> in_range (ucast di) 20 x"
      using that(1) here by blast
    then have "?m1 x = m x"
      using that(2) Suc.prems(1) r by (simp add: store32_other mem_write_other)
    moreover have "\<not> in_range (ucast di + 20) (20 * (k + 1)) x"
      using that(1) further by blast
    ultimately show ?thesis
      using frame that(2) by metis
  qed
  ultimately show ?case
    by blast
qed

text \<open>
  C14: when the BIOS reports an error, at its call \<open>k + 1\<close>, the loader prints its error message and
  stops. The platform has then seen exactly the preparing message, the \<open>k + 1\<close> calls and the error
  message, so no port was written and the disk was not asked for the kernel; the memory has changed only
  in the items of the map and in the loader's two counters.
\<close>

theorem failed_check_stops:
  assumes bios: "e820_fails P 0 k (shown P (butlast preparing_to_enter_protected_mode) d)" and k: "k \<le> 3000"
    and img: "setup_image A img" "length img = 1024" "mem_bytes m 0x500 1024 = img"
  shows "\<exists>m'. setup_start P A cr0 sp m d = Some (Inl (Memory_check_error m'
      (shown P (butlast memory_check_error_msg) (e820_state P 0 k (shown P (butlast preparing_to_enter_protected_mode) d)))))
    \<and> (\<forall>x. \<not> in_range 0x1102 (20 * (k + 1)) x \<longrightarrow> \<not> in_range (ucast (a_data A)) 4 x \<longrightarrow> m' x = m x)"
proof -
  let ?prep = "cstr ''FunsizeOS is preparing to enter protected mode ... '' @ [10, 13]"
    and ?err = "cstr ''FunsizeOS memory check fail ...'' @ [10, 13]"
  have texts: "butlast preparing_to_enter_protected_mode = ?prep" "butlast memory_check_error_msg = ?err"
    unfolding message_text(1,2) by (rule butlast_snoc)+
  have data: "placed img (a_data A) data_section" and prep: "placed img (a_preparing A) (?prep @ [0])"
    and err: "placed img (a_error A) (?err @ [0])" and apart: "apart16 (a_data A) 4 (a_error A) (length (?err @ [0]))"
    using img(1) unfolding setup_image_def message_text(1-3) by simp_all
  note m = img(3) [folded img(2)]
  let ?d1 = "shown P ?prep d"
  have d1: "print P m (a_preparing A) d = Some ?d1"
    by (rule print_shown [OF prep m img(2) message_text(4)]) simp
  obtain m' where check: "memory_check_loop P (ucast (a_data A)) 0 0x1102 m ?d1 = Some (Inl (m', e820_state P 0 k ?d1))"
    and frame: "\<forall>x. \<not> in_range 0x1102 (20 * (k + 1)) x \<longrightarrow> \<not> in_range (ucast (a_data A)) 4 x \<longrightarrow> m' x = m x"
    using failed_loop [of P 0 k ?d1 "0x1102" "ucast (a_data A)" m] bios [unfolded texts] k by auto
  have "print P m' (a_error A) (e820_state P 0 k ?d1) = Some (shown P ?err (e820_state P 0 k ?d1))"
  proof (rule print_shown [OF err m img(2) message_text(5)])
    fix x
    assume x: "in_range (ucast (a_error A)) (length ?err + 1) x"
    have "\<not> in_range 0x1102 (20 * (k + 1)) x"
      using x err img(2) k by (auto simp: placed_def in_range_nat unat_ucast_u16)
    then show "m' x = m x"
      using x placed_not_data [OF err img(2) _ data apart] frame by simp
  qed
  then have "setup_start P A cr0 sp m d = Some (Inl (Memory_check_error m' (shown P ?err (e820_state P 0 k ?d1))))"
    using d1 check by (simp add: setup_start_def memory_check_def)
  then show ?thesis
    unfolding texts using frame by blast
qed

definition broken_platform :: "drive platform" where
  "broken_platform = sample_platform sample_sectors []\<lparr>int15 := \<lambda>a b c e d. (\<lparr>r_carry = True, r_bytes = [], r_ebx = 0, r_ecx = 0\<rparr>, d)\<rparr>"

lemma broken_shown: "shown broken_platform bs d = d\<lparr>dr_screen := dr_screen d @ bs\<rparr>"
  unfolding shown_def by (induction bs arbitrary: d) (simp_all add: broken_platform_def sample_platform_def)

theorem failed_check_stops_witness:
  "\<exists>m'. setup_start broken_platform sample_setup_layout 0x10 0x7000 loaded_memory sample_drive = Some (Inl (Memory_check_error m'
      (sample_drive\<lparr>dr_screen := butlast preparing_to_enter_protected_mode @ butlast memory_check_error_msg\<rparr>)))"
proof -
  have "e820_fails broken_platform 0 0 d" "e820_state broken_platform 0 0 d = d" for d
    by (simp_all add: broken_platform_def)
  then show ?thesis
    using failed_check_stops [OF _ _ sample_setup_image length_sample_setup loaded_setup, of broken_platform 0 sample_drive "0x10" "0x7000"]
    by (auto simp: broken_shown sample_drive_def)
qed

text \<open>
  There is no timeout: the routine that waits for the drive returns exactly when some later
  status read reports data, and with a drive that never does the boot sector never ends.
\<close>

theorem silent_drive_hangs:
  "(wait_hd_ready P d = Some d') = drive_ready P d d'
   \<and> ((\<forall>d. fst (port_in8 P 0x1f7 d) AND 0x88 \<noteq> 0x08) \<longrightarrow> boot_start P msg m d = None)"
proof -
  have none: "wait_hd_ready P e = None" if "\<forall>d. fst (port_in8 P 0x1f7 d) AND 0x88 \<noteq> 0x08" for e
  proof -
    have "drive_ready P e e' \<Longrightarrow> False" for e'
      by (induction rule: drive_ready.induct) (use that in \<open>metis fst_conv\<close>)+
    then show ?thesis
      using wait_only_ready [of P e] by (cases "wait_hd_ready P e") auto
  qed
  have "start_read P (c :: u16) edi m e = None" if "\<forall>d. fst (port_in8 P 0x1f7 d) AND 0x88 \<noteq> 0x08" for c edi m e
    using none [OF that] by (subst start_read.simps) simp
  then have "boot_start P msg m d = None" if "\<forall>d. fst (port_in8 P 0x1f7 d) AND 0x88 \<noteq> 0x08"
    using that by (simp add: boot_start_def read_hd16_def split: prod.split)
  then show ?thesis
    by (intro conjI wait_iff impI)
qed

definition absent_drive :: "drive platform" where
  "absent_drive = sample_platform sample_sectors []\<lparr>port_in8 := \<lambda>p d. (0xFF, d)\<rparr>"

theorem silent_drive_hangs_witness: "boot_start absent_drive 0x7d00 sample_message_memory sample_drive = None"
  using silent_drive_hangs [of absent_drive sample_drive sample_drive "0x7d00" sample_message_memory]
  by (simp add: absent_drive_def)

end
