(* ===== verification/Heap_Client.thy ===== *)
theory Heap_Client
  imports Malloc_Props
begin

text \<open>
  The heap as its callers use it: a client asks for blocks, writes into those it holds and gives them
  back, in any order, while other objects are in use. The theorem is what the client relies on: its
  blocks are apart from each other and from the other objects, and keep what was written into them.
\<close>

section \<open>Bytes of an object\<close>

lemma block_of_range: "in_range (block_of y) 16 y"
proof -
  have y: "unat y = unat (block_of y) + unat y mod 16"
    unfolding unat_block_of by simp
  have "unat (y - block_of y) = unat y - unat (block_of y)"
    using y by (intro unat_sub) (simp add: word_le_nat_alt)
  then show ?thesis
    using y by (simp add: in_range_def)
qed

lemma object_page:
  assumes rep: "heap_rep s H" and obj: "(x, n) \<in> objects s H"
  obtains i d where "i < 9" and "n = bucket_bytes i" and "in_chain H i d" and "page_of x = d_page (ram s) d"
    and "x \<in> set (slots (d_page (ram s) d) n)" and "x \<notin> set (hv_objs H d)"
    and "\<And>y. in_range x n y \<Longrightarrow> page_of y = d_page (ram s) d"
    and "d_page (ram s) d \<in> owned_pages s" and "d_page (ram s) d \<notin> hv_dpages H" and "block_of x = x"
proof -
  have inv: "heap_mem (ram s) (bucket_dir s) (free_bucket_desc s) (owned_pages s) H"
    using rep by (simp add: heap_rep_def)
  obtain i d where d: "in_chain H i d" "n = bucket_bytes i"
    "x \<in> set (slots (d_page (ram s) d) (bucket_bytes i))" "x \<notin> set (hv_objs H d)"
    using objects_owner [OF rep obj] by blast
  have i: "i < 9"
    using d(1) by (simp add: in_chain_def)
  note page = heap_mem_obj [OF inv d(1,3)]
  have "page_of y = d_page (ram s) d" if "in_range x n y" for y
  proof -
    obtain l where l: "l < 4096 div bucket_bytes i" "x = d_page (ram s) d + of_nat (bucket_bytes i * l)"
      using d(3) by (rule slotsE)
    have "in_range (d_page (ram s) d) 4096 y"
      using slot_offset(4) [OF page(5) i l(1)] that d(2) in_range_sub [of "d_page (ram s) d" "bucket_bytes i * l" n y 4096] l(2)
      by simp
    then show ?thesis
      by (rule in_page [OF page(5)])
  qed
  then show thesis
    using that [of i d] i d page by simp
qed

lemma object_size_unique:
  assumes rep: "heap_rep s H" and x: "(x, n) \<in> objects s H" and y: "(x, k) \<in> objects s H"
  shows "n = k"
proof -
  have inv: "heap_mem (ram s) (bucket_dir s) (free_bucket_desc s) (owned_pages s) H"
    using rep by (simp add: heap_rep_def)
  obtain i d where d: "n = bucket_bytes i" "in_chain H i d" "page_of x = d_page (ram s) d"
    using object_page [OF rep x] by metis
  obtain j e where e: "k = bucket_bytes j" "in_chain H j e" "page_of x = d_page (ram s) e"
    using object_page [OF rep y] by metis
  have "d = e"
    using heap_memD(7) [OF inv d(2) e(2)] d(3) e(3) by simp
  then show ?thesis
    using view_okD(4) [OF heap_memD(1) [OF inv] d(2)] d(1) e(1,2) by blast
qed

lemma object_bytes:
  assumes rep: "heap_rep s H" and x: "(x, n) \<in> objects s H" and y: "in_range x n y"
  shows "untouched s H y" and "block_of y \<notin> cells H" and "page_of y \<in> owned_pages s"
proof -
  have inv: "heap_mem (ram s) (bucket_dir s) (free_bucket_desc s) (owned_pages s) H"
    using rep by (simp add: heap_rep_def)
  note view = view_okD [OF heap_memD(1) [OF inv]]
  obtain i d where d: "i < 9" "n = bucket_bytes i" "in_chain H i d" "x \<in> set (slots (d_page (ram s) d) n)"
    "x \<notin> set (hv_objs H d)" "page_of y = d_page (ram s) d" "d_page (ram s) d \<in> owned_pages s"
    "d_page (ram s) d \<notin> hv_dpages H"
    using object_page [OF rep x] y by metis
  then show "untouched s H y" and "page_of y \<in> owned_pages s"
    by (simp_all add: untouched_def)
  show "block_of y \<notin> cells H"
  proof
    assume "block_of y \<in> cells H"
    moreover have "block_of y \<notin> set (hv_free H)" "\<And>j. \<not> in_chain H j (block_of y)"
      using view(6,8) d(6,8) page_of_block_of [of y] by metis+
    ultimately obtain j e where e: "in_chain H j e" "block_of y \<in> set (hv_objs H e)"
      by (auto simp: cells_def)
    have "bucket_ok (ram s) j e (hv_objs H e)"
      using heap_memD(4) [OF inv e(1)] .
    then have slot: "block_of y \<in> set (slots (d_page (ram s) e) (bucket_bytes j))"
      using e(2) by (auto simp: bucket_ok_def)
    then have "d_page (ram s) e = d_page (ram s) d"
      using heap_mem_obj(2) [OF inv e(1) slot] d(6) by simp
    then have "e = d"
      using heap_memD(7) [OF inv e(1) d(3)] by simp
    moreover from this have "j = i"
      using view(4) [OF e(1)] d(3) by blast
    ultimately have z: "block_of y \<in> set (slots (d_page (ram s) d) (bucket_bytes i))" "block_of y \<noteq> x"
      using slot e(2) d(5) by auto
    have page: "page_of (d_page (ram s) d) = d_page (ram s) d"
      using heap_memD(9) [OF inv d(7)] .
    have "disjoint_ranges (block_of y) (bucket_bytes i) x (bucket_bytes i)"
      using slots_disjoint [OF page d(1) z(1) _ z(2)] d(2,4) by simp
    moreover have "in_range (block_of y) (bucket_bytes i) y"
      by (rule in_range_weaken [OF block_of_range]) (simp add: bucket_bytes_def power_add)
    ultimately show False
      using y d(2) by (simp add: disjoint_ranges_def)
  qed
qed

lemma object_write:
  fixes s :: "'a malloc_state_scheme"
  assumes rep: "heap_rep s H" and x: "(x, n) \<in> objects s H" and y: "in_range x n y"
  shows "heap_rep (s\<lparr>ram := (ram s)(y := v)\<rparr>) H" and "objects (s\<lparr>ram := (ram s)(y := v)\<rparr>) H = objects s H"
proof -
  have ok: "mem_ok s" and inv: "heap_mem (ram s) (bucket_dir s) (free_bucket_desc s) (owned_pages s) H"
    using rep by (simp_all add: heap_rep_def)
  note bytes = object_bytes [OF rep x y]
  have pages: "\<forall>p\<in>owned_pages s. page_of p = p \<and> 0x100000 \<le> unat p"
    using heap_memD(9,10) [OF inv] by blast
  have same: "((ram s)(y := v)) z = ram s z" if "block_of z \<in> cells H" for z
    using that bytes(2) by auto
  note moved = heap_mem_same [where m' = "(ram s)(y := v)", OF inv same subset_refl pages]
  have "heap_rep (s\<lparr>ram := (ram s)(y := v), bucket_dir := bucket_dir s, free_bucket_desc := free_bucket_desc s, iflag := iflag s\<rparr>) H"
    by (rule heap_rep_write [OF ok moved(1)]) (use bytes(3) in auto)
  moreover have "s\<lparr>ram := m, bucket_dir := bucket_dir s, free_bucket_desc := free_bucket_desc s, iflag := iflag s\<rparr> = s\<lparr>ram := m\<rparr>" for m
    by (cases s rule: malloc_state.cases_scheme) simp
  ultimately show "heap_rep (s\<lparr>ram := (ram s)(y := v)\<rparr>) H"
    by simp
  show "objects (s\<lparr>ram := (ram s)(y := v)\<rparr>) H = objects s H"
    using moved(2) by (simp add: objects_def)
qed

section \<open>A client\<close>

text \<open>A block the client holds: its address, the length asked for and the bytes written into it.\<close>

record block =
  blk_addr :: u32
  blk_len :: u32
  blk_data :: "nat \<Rightarrow> u8 option"

text \<open>A request that is answered with NULL leaves the client with what it has.\<close>

datatype client_op = Alloc u32 | Release nat | Store nat nat u8

fun client_step :: "client_op \<Rightarrow> block list \<times> 'a malloc_state_scheme \<Rightarrow> (block list \<times> 'a malloc_state_scheme) option" where
  "client_step (Alloc len) (bs, s) =
     do { (p, s) \<leftarrow> kmalloc len s;
          Some (if p = 0 then bs else \<lparr>blk_addr = p, blk_len = len, blk_data = Map.empty\<rparr> # bs, s) }"
| "client_step (Release i) (bs, s) =
     (if i < length bs then
        do { s \<leftarrow> kfree_s (blk_addr (bs ! i)) (blk_len (bs ! i)) s;
             Some (take i bs @ drop (i + 1) bs, s) }
      else Some (bs, s))"
| "client_step (Store i k v) (bs, s) =
     (if i < length bs \<and> k < unat (blk_len (bs ! i)) then
        Some (bs[i := (bs ! i)\<lparr>blk_data := (blk_data (bs ! i))(k \<mapsto> v)\<rparr>],
              s\<lparr>ram := (ram s)(blk_addr (bs ! i) + of_nat k := v)\<rparr>)
      else Some (bs, s))"

fun client_run :: "client_op list \<Rightarrow> block list \<times> 'a malloc_state_scheme \<Rightarrow> (block list \<times> 'a malloc_state_scheme) option" where
  "client_run [] c = Some c"
| "client_run (op # ops) c = client_step op c \<bind> client_run ops"

text \<open>The invariant; \<open>own\<close> are the objects of others, in the memory \<open>m\<close>.\<close>

definition block_ok :: "mem \<Rightarrow> (u32 \<times> nat) set \<Rightarrow> block \<Rightarrow> bool" where
  "block_ok m obs b \<longleftrightarrow> blk_addr b \<noteq> 0 \<and> (\<exists>n. (blk_addr b, n) \<in> obs \<and> unat (blk_len b) \<le> n)
     \<and> (\<forall>k v. blk_data b k = Some v \<longrightarrow> k < unat (blk_len b) \<and> m (blk_addr b + of_nat k) = v)"

definition kept :: "(u32 \<times> nat) set \<Rightarrow> mem \<Rightarrow> mem \<Rightarrow> bool" where
  "kept obs m m' \<longleftrightarrow> (\<forall>x n y. (x, n) \<in> obs \<longrightarrow> in_range x n y \<longrightarrow> m' y = m y)"

definition client_inv :: "(u32 \<times> nat) set \<Rightarrow> mem \<Rightarrow> heap_view \<Rightarrow> block list \<Rightarrow> 'a malloc_state_scheme \<Rightarrow> bool" where
  "client_inv others m H bs s \<longleftrightarrow> heap_rep s H \<and> others \<subseteq> objects s H \<and> kept others m (ram s)
     \<and> (\<forall>b\<in>set bs. block_ok (ram s) (objects s H) b \<and> blk_addr b \<notin> fst ` others) \<and> distinct (map blk_addr bs)"

lemma client_invD:
  assumes "client_inv others m H bs s"
  shows "heap_rep s H" and "others \<subseteq> objects s H" and "kept others m (ram s)"
    and "b \<in> set bs \<Longrightarrow> block_ok (ram s) (objects s H) b" and "b \<in> set bs \<Longrightarrow> blk_addr b \<notin> fst ` others"
    and "distinct (map blk_addr bs)"
  using assms by (simp_all add: client_inv_def)

lemma kept_trans: "kept obs m m1 \<Longrightarrow> kept obs m1 m2 \<Longrightarrow> kept obs m m2"
  unfolding kept_def by metis

lemma kept_mono: "obs \<subseteq> obs' \<Longrightarrow> kept obs' m m' \<Longrightarrow> kept obs m m'"
  unfolding kept_def by blast

lemma block_ok_kept:
  assumes "block_ok m obs b" and "(blk_addr b, n) \<in> obs" "(blk_addr b, n) \<in> obs'" and "\<And>k. (blk_addr b, k) \<in> obs \<Longrightarrow> k = n"
    and "kept {(blk_addr b, n)} m m'"
  shows "block_ok m' obs' b"
proof -
  have len: "unat (blk_len b) \<le> n"
    using assms(1,4) by (auto simp: block_ok_def)
  have small: "unat (blk_len b) < 2 ^ 32"
    by (rule less_le_trans [OF unsigned_less]) simp
  have "m' (blk_addr b + of_nat j) = m (blk_addr b + of_nat j)" if "j < unat (blk_len b)" for j
    using assms(5) that small len by (simp add: kept_def)
  then show ?thesis
    using assms(1,3) len by (auto simp: block_ok_def)
qed

text \<open>What the other blocks need of a step.\<close>

lemma client_inv_kept:
  assumes inv: "client_inv others m H bs s" and rep: "heap_rep s' H'" and bs: "set bs' \<subseteq> set bs" "distinct (map blk_addr bs')"
    and live: "\<And>x n. (x, n) \<in> objects s H \<Longrightarrow> x \<in> fst ` others \<union> blk_addr ` set bs' \<Longrightarrow>
      (x, n) \<in> objects s' H' \<and> kept {(x, n)} (ram s) (ram s')"
  shows "client_inv others m H' bs' s'"
  unfolding client_inv_def
proof (intro conjI ballI)
  note D = client_invD [OF inv]
  have other: "(x, n) \<in> objects s' H' \<and> kept {(x, n)} (ram s) (ram s')" if "(x, n) \<in> others" for x n
    using live [of x n] D(2) that by force
  then show "others \<subseteq> objects s' H'"
    by auto
  have "kept others (ram s) (ram s')"
    using other unfolding kept_def by blast
  then show "kept others m (ram s')"
    by (rule kept_trans [OF D(3)])
  fix b
  assume b: "b \<in> set bs'"
  then have old: "b \<in> set bs"
    using bs(1) by blast
  obtain n where n: "(blk_addr b, n) \<in> objects s H"
    using D(4) [OF old] by (auto simp: block_ok_def)
  show "block_ok (ram s') (objects s' H') b"
    using block_ok_kept [OF D(4) [OF old] n] live [OF n] b object_size_unique [OF D(1) n] by blast
  show "blk_addr b \<notin> fst ` others"
    using D(5) [OF old] .
qed (use rep bs in simp_all)

section \<open>Its steps\<close>

lemma client_alloc:
  fixes s :: "'a malloc_state_scheme"
  assumes inv: "client_inv others m H bs s" and len: "len \<le> 4096"
  shows "case client_step (Alloc len) (bs, s) of
      None \<Rightarrow> kmalloc len s = None \<and> free_bucket_desc s = 0 \<and> {used s..<npages s} \<subseteq> allocated s
    | Some (bs', s') \<Rightarrow> \<exists>H'. client_inv others m H' bs' s'"
proof (cases "kmalloc len s")
  case None
  then show ?thesis
    using kmalloc_heap [OF client_invD(1) [OF inv] size_class_props(4) [OF len]] by simp
next
  case (Some r)
  note D = client_invD [OF inv]
  obtain p s' where r: "r = (p, s')"
    by (cases r)
  let ?n = "bucket_bytes (size_class len)"
  obtain H' where keeps: "keeps_objects s H s'" and rep: "heap_rep s' H'"
    and new: "p = 0 \<and> objects s' H' = objects s H
      \<or> p \<noteq> 0 \<and> (p, ?n) \<notin> objects s H \<and> objects s' H' = insert (p, ?n) (objects s H)"
    using kmalloc_heap [OF D(1) size_class_props(4) [OF len]] Some r by auto
  have kept: "kept {(x, n)} (ram s) (ram s')" if "(x, n) \<in> objects s H" for x n
    using object_bytes(1) [OF D(1) that] keeps by (auto simp: kept_def keeps_objects_def)
  have old: "client_inv others m H' bs s'"
    by (rule client_inv_kept [OF inv rep]) (use D(6) new kept in auto)
  show ?thesis
  proof (cases "p = 0")
    case True
    then show ?thesis
      using Some r old by auto
  next
    case False
    have fresh: "(p, n) \<notin> objects s H" for n
      using object_size_unique [OF rep, of p n ?n] new False by auto
    have "p \<notin> blk_addr ` set bs"
      using fresh D(4) by (force simp: block_ok_def)
    moreover have "p \<notin> fst ` others"
      using fresh D(2) by force
    moreover have "unat len \<le> ?n"
      by (rule size_class_props(2) [OF size_class_props(4) [OF len]])
    ultimately have "client_inv others m H' (\<lparr>blk_addr = p, blk_len = len, blk_data = Map.empty\<rparr> # bs) s'"
      using old new False by (auto simp: client_inv_def block_ok_def)
    then show ?thesis
      using Some r False by auto
  qed
qed

lemma client_release:
  fixes s :: "'a malloc_state_scheme"
  assumes inv: "client_inv others m H bs s" and small: "\<forall>b\<in>set bs. blk_len b \<le> 4096"
  shows "\<exists>bs' s' H'. client_step (Release i) (bs, s) = Some (bs', s') \<and> client_inv others m H' bs' s'"
proof (cases "i < length bs")
  case False
  then show ?thesis
    using inv by auto
next
  case True
  note D = client_invD [OF inv]
  let ?b = "bs ! i"
  have b: "?b \<in> set bs"
    using True by simp
  obtain n where n: "(blk_addr ?b, n) \<in> objects s H" "unat (blk_len ?b) \<le> n"
    using D(4) [OF b] by (auto simp: block_ok_def)
  have "unat (blk_len ?b) \<le> 4096"
    using small b by (simp add: word_le_nat_alt)
  then have "sint (blk_len ?b) = int (unat (blk_len ?b))"
    using sint_of_nat_small [of "unat (blk_len ?b)"] by simp
  then have "sint (blk_len ?b) \<le> int n"
    using n(2) by linarith
  then obtain s' H' where run: "kfree_s (blk_addr ?b) (blk_len ?b) s = Some s'" and rep: "heap_rep s' H'"
    and objs: "objects s' H' = objects s H - {(blk_addr ?b, n)}"
    and mem: "\<forall>y. untouched s H y \<longrightarrow> \<not> in_range (blk_addr ?b) 4 y \<longrightarrow> ram s' y = ram s y"
    using kfree_s_object [OF D(1) n(1)] by blast
  define bs' where "bs' = take i bs @ drop (i + 1) bs"
  have split: "bs = take i bs @ ?b # drop (i + 1) bs"
    using id_take_nth_drop [OF True] by simp
  have "distinct (map blk_addr (take i bs @ ?b # drop (i + 1) bs))"
    using D(6) split by simp
  then have bs': "set bs' \<subseteq> set bs" "distinct (map blk_addr bs')" "blk_addr ?b \<notin> blk_addr ` set bs'"
    unfolding bs'_def by (auto dest: in_set_takeD in_set_dropD)
  have "client_inv others m H' bs' s'"
  proof (rule client_inv_kept [OF inv rep bs'(1,2)])
    fix x k
    assume x: "(x, k) \<in> objects s H" and used: "x \<in> fst ` others \<union> blk_addr ` set bs'"
    then have ne: "x \<noteq> blk_addr ?b"
      using bs'(3) D(5) [OF b] by blast
    have "16 \<le> n"
      using object_page [OF D(1) n(1)] by (metis bucket_bytes_props(1,3) dvd_imp_le)
    then have "\<not> in_range (blk_addr ?b) 4 y" if "in_range x k y" for y
      using objects_apart [OF D(1) x n(1) ne] that in_range_weaken [of "blk_addr ?b" 4 y n] by (auto simp: disjoint_ranges_def)
    then have "kept {(x, k)} (ram s) (ram s')"
      using mem object_bytes(1) [OF D(1) x] by (auto simp: kept_def)
    then show "(x, k) \<in> objects s' H' \<and> kept {(x, k)} (ram s) (ram s')"
      using objs x ne by simp
  qed
  then show ?thesis
    using True run by (auto simp: bs'_def)
qed

lemma client_store:
  fixes s :: "'a malloc_state_scheme"
  assumes inv: "client_inv others m H bs s"
  shows "\<exists>bs' s' H'. client_step (Store i k v) (bs, s) = Some (bs', s') \<and> client_inv others m H' bs' s'"
proof (cases "i < length bs \<and> k < unat (blk_len (bs ! i))")
  case False
  then show ?thesis
    using inv by auto
next
  case True
  note D = client_invD [OF inv]
  let ?b = "bs ! i"
  let ?y = "blk_addr ?b + of_nat k"
  let ?s = "s\<lparr>ram := (ram s)(?y := v)\<rparr>"
  have b: "?b \<in> set bs"
    using True by simp
  obtain n where n: "(blk_addr ?b, n) \<in> objects s H" "unat (blk_len ?b) \<le> n"
    using D(4) [OF b] by (auto simp: block_ok_def)
  have small: "unat (blk_len ?b) < 2 ^ 32"
    by (rule less_le_trans [OF unsigned_less]) simp
  have y: "in_range (blk_addr ?b) n ?y"
    using True small n(2) by simp
  note written = object_write [OF D(1) n(1) y, of v]
  have kept: "kept {(x, j)} (ram s) (ram ?s)" if "(x, j) \<in> objects s H" "x \<noteq> blk_addr ?b" for x j
    using objects_apart [OF D(1) that(1) n(1) that(2)] y by (auto simp: kept_def disjoint_ranges_def)
  define b' where "b' = ?b\<lparr>blk_data := (blk_data ?b)(k \<mapsto> v)\<rparr>"
  have addr: "blk_addr b' = blk_addr ?b" "blk_len b' = blk_len ?b"
    by (simp_all add: b'_def)
  have split: "bs = take i bs @ ?b # drop (Suc i) bs" "bs[i := b'] = take i bs @ b' # drop (Suc i) bs"
    using True id_take_nth_drop [of i bs] upd_conv_take_nth_drop [of i bs b'] by simp_all
  have "distinct (map blk_addr (take i bs @ ?b # drop (Suc i) bs))"
    using D(6) split(1) by simp
  then have apart: "distinct (map blk_addr (take i bs @ drop (Suc i) bs))" "blk_addr ?b \<notin> blk_addr ` set (take i bs @ drop (Suc i) bs)"
    "distinct (map blk_addr (take i bs @ b' # drop (Suc i) bs))"
    by (auto simp: addr)
  have rest: "client_inv others m H (take i bs @ drop (Suc i) bs) ?s"
  proof (rule client_inv_kept [OF inv written(1) _ apart(1)])
    fix x j
    assume x: "(x, j) \<in> objects s H" "x \<in> fst ` others \<union> blk_addr ` set (take i bs @ drop (Suc i) bs)"
    then have "x \<noteq> blk_addr ?b"
      using apart(2) D(5) [OF b] by blast
    then show "(x, j) \<in> objects ?s H \<and> kept {(x, j)} (ram s) (ram ?s)"
      using kept [of x j] written(2) x(1) by blast
  qed (auto dest: in_set_takeD in_set_dropD)
  have "blk_addr ?b + of_nat j = ?y \<longleftrightarrow> j = k" if "j < unat (blk_len ?b)" for j
    using that True small by (simp add: word_of_nat_eq_iff take_bit_nat_eq_self)
  then have "block_ok (ram ?s) (objects ?s H) b'"
    using D(4) [OF b] True written(2) addr by (auto simp: block_ok_def b'_def)
  moreover have "blk_addr b' \<notin> fst ` others"
    using D(5) [OF b] addr by simp
  ultimately have "client_inv others m H (bs[i := b']) ?s"
    unfolding split(2) using rest apart(3) by (auto simp: client_inv_def)
  then show ?thesis
    using True by (auto simp: b'_def)
qed

section \<open>A whole run\<close>

definition requests_ok :: "client_op list \<Rightarrow> bool" where
  "requests_ok ops \<longleftrightarrow> (\<forall>len. Alloc len \<in> set ops \<longrightarrow> len \<le> 4096)"

lemma client_lengths:
  assumes "client_step op (bs, s) = Some (bs', s')" and "\<forall>b\<in>set bs. blk_len b \<le> 4096" and "requests_ok [op]"
  shows "\<forall>b\<in>set bs'. blk_len b \<le> 4096"
proof (cases op)
  case (Store i k v)
  then show ?thesis
    using assms by (auto split: if_splits dest!: subsetD [OF set_update_subset_insert])
next
  case (Release i)
  have "set (take i bs @ drop (i + 1) bs) \<subseteq> set bs"
    using set_take_subset set_drop_subset by fastforce
  moreover have "bs' = bs \<or> bs' = take i bs @ drop (i + 1) bs"
    using assms(1) Release by (auto split: if_splits bind_splits)
  ultimately have "set bs' \<subseteq> set bs"
    by blast
  then show ?thesis
    using assms(2) by blast
qed (use assms in \<open>auto simp: requests_ok_def split: if_splits bind_splits\<close>)

lemma client_step_inv:
  fixes s :: "'a malloc_state_scheme"
  assumes inv: "client_inv others m H bs s" and small: "\<forall>b\<in>set bs. blk_len b \<le> 4096" and ok: "requests_ok [op]"
  shows "case client_step op (bs, s) of
      None \<Rightarrow> (\<exists>len. op = Alloc len \<and> kmalloc len s = None) \<and> free_bucket_desc s = 0 \<and> {used s..<npages s} \<subseteq> allocated s
    | Some (bs', s') \<Rightarrow> (\<exists>H'. client_inv others m H' bs' s') \<and> (\<forall>b\<in>set bs'. blk_len b \<le> 4096)"
proof (cases "client_step op (bs, s)")
  case None
  then obtain len where op: "op = Alloc len"
    using client_release [OF inv small] client_store [OF inv] by (cases op) (metis option.distinct(1))+
  then show ?thesis
    using client_alloc [OF inv, of len] None ok by (auto simp: requests_ok_def)
next
  case (Some r)
  obtain bs' s' where r: "r = (bs', s')"
    by (cases r)
  have "\<exists>H'. client_inv others m H' bs' s'"
  proof (cases op)
    case (Alloc len)
    then show ?thesis
      using client_alloc [OF inv, of len] Some r ok by (auto simp: requests_ok_def)
  next
    case (Release i)
    then show ?thesis
      using client_release [OF inv small, of i] Some r by auto
  next
    case (Store i k v)
    then show ?thesis
      using client_store [OF inv, of i k v] Some r by auto
  qed
  then show ?thesis
    using Some r client_lengths [OF _ small ok] by simp
qed

text \<open>A run stops only at a request, when no descriptor and no page is left.\<close>

lemma client_run_inv:
  fixes s :: "'a malloc_state_scheme"
  assumes "client_inv others m H bs s" and "\<forall>b\<in>set bs. blk_len b \<le> 4096" and "requests_ok ops"
  shows "case client_run ops (bs, s) of
      None \<Rightarrow> \<exists>pre len post bs' t. ops = pre @ Alloc len # post \<and> client_run pre (bs, s) = Some (bs', t)
        \<and> kmalloc len t = None \<and> free_bucket_desc t = 0 \<and> {used t..<npages t} \<subseteq> allocated t
    | Some (bs', s') \<Rightarrow> \<exists>H'. client_inv others m H' bs' s'"
  using assms
proof (induction ops arbitrary: H bs s)
  case (Cons op ops)
  have ok: "requests_ok [op]" "requests_ok ops"
    using Cons.prems(3) by (simp_all add: requests_ok_def)
  note step = client_step_inv [OF Cons.prems(1,2) ok(1)]
  show ?case
  proof (cases "client_step op (bs, s)")
    case None
    then obtain len where "op = Alloc len" "kmalloc len s = None" "free_bucket_desc s = 0 \<and> {used s..<npages s} \<subseteq> allocated s"
      using step by auto
    then show ?thesis
      using None by (simp del: client_step.simps)
        (intro exI [of _ "[]"] exI [of _ len] exI [of _ ops] exI [of _ bs] exI [of _ s]; simp)
  next
    case (Some r)
    obtain bs1 s1 where r: "r = (bs1, s1)"
      by (cases r)
    then obtain H1 where inv1: "client_inv others m H1 bs1 s1" "\<forall>b\<in>set bs1. blk_len b \<le> 4096"
      using step Some by auto
    have run: "client_run (op # l) (bs, s) = client_run l (bs1, s1)" for l
      using Some r by simp
    show ?thesis
    proof (cases "client_run ops (bs1, s1)")
      case None
      then obtain pre len post bs' t where "ops = pre @ Alloc len # post" "client_run pre (bs1, s1) = Some (bs', t)"
        "kmalloc len t = None" "free_bucket_desc t = 0" "{used t..<npages t} \<subseteq> allocated t"
        using Cons.IH [OF inv1 ok(2)] by auto
      then show ?thesis
        unfolding run None option.case using run by (intro exI [of _ "op # pre"]) auto
    next
      case (Some r)
      then show ?thesis
        unfolding run using Cons.IH [OF inv1 ok(2)] by simp
    qed
  qed
qed auto

section \<open>Properties\<close>

text \<open>
  C19: a client asks for blocks of at most 4096 bytes, writes into the blocks it holds and gives them
  back, in any order, on a heap on which other objects may be in use. Every run keeps the heap's
  invariant; the blocks the client holds at its end do not overlap each other or the other objects,
  every byte it wrote into them is still there, and the other objects are in use with the bytes they
  had. A run has no result only when \<open>kmalloc\<close> follows a null pointer, with no descriptor and no page left.
\<close>

theorem heap_blocks_private:
  assumes "heap_rep s H" and "requests_ok ops"
  shows "case client_run ops ([], s) of
      None \<Rightarrow> \<exists>pre len post bs t. ops = pre @ Alloc len # post \<and> client_run pre ([], s) = Some (bs, t)
        \<and> kmalloc len t = None \<and> free_bucket_desc t = 0 \<and> {used t..<npages t} \<subseteq> allocated t
    | Some (bs, s') \<Rightarrow> (\<exists>H'. heap_rep s' H' \<and> objects s H \<subseteq> objects s' H')
        \<and> (\<forall>i j. i < j \<longrightarrow> j < length bs \<longrightarrow> blk_addr (bs ! i) \<noteq> blk_addr (bs ! j)
             \<and> disjoint_ranges (blk_addr (bs ! i)) (unat (blk_len (bs ! i))) (blk_addr (bs ! j)) (unat (blk_len (bs ! j))))
        \<and> (\<forall>b\<in>set bs. blk_addr b \<noteq> 0 \<and> (\<forall>k v. blk_data b k = Some v \<longrightarrow> ram s' (blk_addr b + of_nat k) = v))
        \<and> (\<forall>x n y. (x, n) \<in> objects s H \<longrightarrow> in_range x n y \<longrightarrow> ram s' y = ram s y
             \<and> (\<forall>b\<in>set bs. \<not> in_range (blk_addr b) (unat (blk_len b)) y))"
proof (cases "client_run ops ([], s)")
  case None
  have "client_inv {} (ram s) H [] s"
    using assms(1) by (simp add: client_inv_def kept_def)
  from client_run_inv [OF this _ assms(2)] None show ?thesis
    by simp
next
  case (Some r)
  obtain bs s' where r: "r = (bs, s')"
    by (cases r)
  have "client_inv (objects s H) (ram s) H [] s"
    using assms(1) by (simp add: client_inv_def kept_def)
  from client_run_inv [OF this _ assms(2)] Some r obtain H' where inv: "client_inv (objects s H) (ram s) H' bs s'"
    by auto
  note D = client_invD [OF inv]
  have obj: "\<exists>n. (blk_addr b, n) \<in> objects s' H' \<and> unat (blk_len b) \<le> n" if "b \<in> set bs" for b
    using D(4) [OF that] by (auto simp: block_ok_def)
  have apart: "\<not> in_range (blk_addr b) (unat (blk_len b)) y"
    if b: "b \<in> set bs" and x: "(x, n) \<in> objects s' H'" "x \<noteq> blk_addr b" "in_range x n y" for b x n y
    using obj [OF b] objects_apart [OF D(1) x(1) _ x(2)] x(3) in_range_weaken unfolding disjoint_ranges_def by blast
  have "blk_addr (bs ! i) \<noteq> blk_addr (bs ! j)
      \<and> disjoint_ranges (blk_addr (bs ! i)) (unat (blk_len (bs ! i))) (blk_addr (bs ! j)) (unat (blk_len (bs ! j)))"
    if "i < j" "j < length bs" for i j
  proof -
    have ne: "blk_addr (bs ! i) \<noteq> blk_addr (bs ! j)"
      using D(6) that by (auto simp: distinct_conv_nth)
    have "bs ! i \<in> set bs"
      using that by simp
    then obtain n where n: "(blk_addr (bs ! i), n) \<in> objects s' H'" "unat (blk_len (bs ! i)) \<le> n"
      using obj by blast
    show ?thesis
      using ne apart [OF nth_mem [OF that(2)] n(1) ne] in_range_weaken [OF _ n(2)] by (auto simp: disjoint_ranges_def)
  qed
  moreover have "blk_addr b \<noteq> 0 \<and> (\<forall>k v. blk_data b k = Some v \<longrightarrow> ram s' (blk_addr b + of_nat k) = v)" if "b \<in> set bs" for b
    using D(4) [OF that] by (simp add: block_ok_def)
  moreover have "ram s' y = ram s y \<and> (\<forall>b\<in>set bs. \<not> in_range (blk_addr b) (unat (blk_len b)) y)"
    if x: "(x, n) \<in> objects s H" "in_range x n y" for x n y
  proof -
    have "x \<noteq> blk_addr b" if "b \<in> set bs" for b
      using D(5) [OF that] x(1) by force
    then show ?thesis
      using D(2,3) x apart unfolding kept_def by blast
  qed
  ultimately show ?thesis
    unfolding Some r using D(1,2) by auto
qed

theorem heap_blocks_private_witness:
  "\<exists>x y t s. kmalloc 100 (sample_heap (\<lambda>_. 0) 0) = Some (x, t) \<and> kmalloc 100 t = Some (y, s)
     \<and> (\<exists>s'. client_run [Alloc 100, Alloc 100, Store 1 99 7, Store 0 0 9, Release 0] ([], sample_heap (\<lambda>_. 0) 0)
           = Some ([\<lparr>blk_addr = x, blk_len = 100, blk_data = [99 \<mapsto> 7]\<rparr>], s') \<and> ram s' (x + 99) = 7)"
proof -
  let ?s = "sample_heap (\<lambda>_. 0) 0" and ?ops = "[Alloc 100, Alloc 100, Store 1 99 7, Store 0 0 9, Release 0]"
  obtain ps s where "kmalloc_all [100, 100] ?s = Some (ps, s)" "0 \<notin> set ps"
    using kmalloc_all_heap [OF sample_heap_rep(1), of "[100, 100]"] by (auto simp: Let_def)
  then obtain x y t where run: "kmalloc 100 ?s = Some (x, t)" "x \<noteq> 0" "kmalloc 100 t = Some (y, s)" "y \<noteq> 0"
    by (auto split: bind_splits)
  have ok: "requests_ok ?ops"
    by (simp add: requests_ok_def)
  note all = heap_blocks_private [OF sample_heap_rep(1) ok]
  have "client_run ?ops ([], ?s) \<noteq> None"
  proof
    assume none: "client_run ?ops ([], ?s) = None"
    obtain pre len post bs u where pre: "?ops = pre @ Alloc len # post" "client_run pre ([], ?s) = Some (bs, u)" "kmalloc len u = None"
      using all unfolding none option.case by blast
    from pre(1) have "pre = [] \<and> len = 100 \<or> pre = [Alloc 100] \<and> len = 100"
      by (auto simp: Cons_eq_append_conv)
    then show False
      using pre(2,3) run by auto
  qed
  then obtain bs s' where res: "client_run ?ops ([], ?s) = Some (bs, s')"
    by auto
  then have bs: "bs = [\<lparr>blk_addr = x, blk_len = 100, blk_data = [99 \<mapsto> 7]\<rparr>]"
    using run by (auto split: bind_splits)
  have "\<forall>k v. ([99 \<mapsto> 7] :: nat \<Rightarrow> u8 option) k = Some v \<longrightarrow> ram s' (x + of_nat k) = v"
    using all unfolding res option.case prod.case bs by simp
  from this [rule_format, of 99 7] have "ram s' (x + 99) = 7"
    by simp
  then show ?thesis
    using run(1,3) res bs by blast
qed

end
