(* ===== verification/Spec2Isabelle.thy ===== *)
theory Spec2Isabelle
  imports Sched_Props Sched_Refine Format_Lang Paging String_Props Traps_Spec Task_Layout Loader_Kernel Heap_Client
begin

text \<open>
  FunSizeOS, a 32-bit teaching kernel in C and assembly (\<open>src/kernel\<close>).

  \<^bold>\<open>The program.\<close> The boot sector \<open>boot.asm\<close> reads the loader \<open>setup.asm\<close> from the disk to \<open>0x500\<close>; the loader
  leaves a flat descriptor table, a memory map from the BIOS at \<open>0x1100\<close> and the kernel at \<open>0x1200\<close>, in
  protected mode. \<open>_start\<close> (\<open>head.asm\<close>) programs the two interrupt controllers and calls \<open>kernel_main\<close>
  (\<open>init/main.c\<close>), which sets up console, descriptor tables,
  timer, page allocator and the idle task, and waits. From then on the clock interrupt drives
  everything: it saves the interrupted task in its control block and gives the processor to the first
  task that is ready, or to the idle task. Every component prints through \<open>printk\<close>, which turns interrupts
  off and on again; tasks are pages from \<open>kmalloc\<close>, which takes pages from the page allocator.

  \<^bold>\<open>State.\<close> Physical memory is one function from 32-bit addresses to bytes (\<open>Flat_Memory\<close>); static
  variables are fields of records that extend each other in the order the components call each other:
  \<open>machine\<close> (memory, port writes, interrupt flag), \<open>console\<close>, \<open>printk_state\<close>, \<open>memory_state\<close>,
  \<open>malloc_state\<close>, \<open>table_state\<close>, \<open>keyboard_state\<close>, \<open>task_state\<close>, \<open>cpu_state\<close>; \<open>paging_state\<close> is a branch of
  its own. Structures the code reaches through pointers (control blocks, bucket descriptors, free lists,
  page map, descriptor and page tables, video cells) are bytes of that memory at the offsets of the C
  declarations. C integers are words of their width and wrap; comparisons are signed where the code's
  are. A function that dereferences null, leaves an array or does not return has the result \<open>None\<close>.

  \<^bold>\<open>Theories and sources.\<close>
    \<^item> \<open>Prelude\<close>, \<open>Flat_Memory\<close>, \<open>Machine\<close>: words, byte memory, hardware (\<open>include/linux/types.h\<close>,
      \<open>kernel/asm/io.asm\<close>, \<open>include/asm/system.h\<close>).
    \<^item> \<open>String_Lib\<close>, \<open>String_Props\<close>: \<open>lib/string.c\<close>.
    \<^item> \<open>Vsprintf\<close>, \<open>Number_Format\<close>, \<open>Format_Spec\<close>, \<open>Format_Lang\<close>: \<open>kernel/vsprintf.c\<close>, \<open>include/stdarg.h\<close>;
      \<open>number\<close> against a reference layout over integers, a rule per conversion, and whole formats as data, with
      every conversion, known or not. The buffer is the list of the bytes put into it; \<open>printk\<close> has its bound.
    \<^item> \<open>Console\<close>, \<open>Console_Spec\<close>, \<open>Console_Scroll\<close>, \<open>Printk\<close>: \<open>kernel/chr_drv/console.c\<close>, \<open>kernel/printk.c\<close>.
    \<^item> \<open>Phys_Memory\<close>, \<open>Memory_Spec\<close>, \<open>Memory_Props\<close>: \<open>mm/memory.c\<close>, \<open>include/linux/mm.h\<close>; the abstract
      state is the set of page numbers in use.
    \<^item> \<open>Malloc\<close>, \<open>Heap_Base\<close>, \<open>Heap_Inv\<close>, \<open>Heap_Steps\<close>, \<open>Malloc_Spec\<close>, \<open>Kfree_Spec\<close>, \<open>Malloc_Props\<close>,
      \<open>Heap_Client\<close>: \<open>mm/malloc.c\<close>; a view of the lists in memory (\<open>heap_view\<close>), the invariant \<open>heap_rep\<close>, the set
      of objects in use, and a client that asks for blocks, writes into them and gives them back.
    \<^item> \<open>Descriptors\<close>, \<open>Descriptors_Spec\<close>, \<open>Traps\<close>, \<open>Traps_Spec\<close>: \<open>kernel/gdt.c\<close>, \<open>idt.c\<close>, \<open>traps.c\<close>,
      \<open>exception.c\<close>, the timer of \<open>clock.c\<close>, the exception stubs of \<open>interrupt_handler.asm\<close>.
    \<^item> \<open>Keyboard\<close>, \<open>Keyboard_Spec\<close>: \<open>kernel/chr_drv/keyboard.c\<close> and an abstract keyboard.
    \<^item> \<open>Task\<close>, \<open>Task_Spec\<close>, \<open>Task_Props\<close>: \<open>kernel/task.c\<close>, \<open>include/linux/task.h\<close>; the invariant \<open>kernel_inv\<close>.
    \<^item> \<open>Sched\<close>, \<open>Sched_Spec\<close>: \<open>kernel/sched.c\<close>, \<open>sched.asm\<close>, \<open>clock_handler.asm\<close>, \<open>clock_handler\<close> of \<open>clock.c\<close>,
      and the two other entries of \<open>interrupt_handler.asm\<close>, instruction by instruction.
    \<^item> \<open>Kernel_Inv\<close>, \<open>Device_Interrupts\<close>, \<open>Kernel_Steps\<close>, \<open>Sched_Props\<close>: the running kernel as a step relation.
    \<^item> \<open>Task_Layout\<close>: the structures of \<open>task.h\<close>, from which the offsets in \<open>Task\<close> follow.
    \<^item> \<open>Ports\<close>, \<open>Boot_Loader\<close>, \<open>Boot_Loader_Spec\<close>, \<open>Sample_Platform\<close>, \<open>Loader_Props\<close>, \<open>Loader_Kernel\<close>: the port
      functions of \<open>io.asm\<close> over a device, \<open>boot/boot.asm\<close>, \<open>boot/setup.asm\<close> and \<open>hello/hello.asm\<close>; the
      contracts of disk and BIOS, a platform that meets them, and the way to the first task.
    \<^item> \<open>Port_Log\<close>, \<open>Interrupt_Controller\<close>: which ports the kernel writes, \<open>boot/head.asm\<close>, and the state of the
      interrupt controllers as a function of the log of port writes.
    \<^item> \<open>Kernel_Main\<close>, \<open>Boot_Spec\<close>, \<open>Boot_Props\<close>: \<open>kernel_main\<close> and what holds from boot on.
    \<^item> \<open>Sched_Refine\<close>: the kernel as an implementation of an abstract scheduler.
    \<^item> \<open>Paging\<close>: \<open>mm/mm_101012.c\<close>, the control registers of \<open>kernel/kernel.c\<close>, and the address translation of
      the processor over tables in memory. \<open>kernel_main\<close> does not call this code.

  \<^bold>\<open>Interfaces.\<close> \<open>safe_machine\<close> and \<open>simulation\<close> (\<open>Prelude\<close>): operations over a list of events, interpreted
  on the page calls and on the keyboard handler. \<open>block_list\<close> and \<open>page_linker\<close> (\<open>Heap_Inv\<close>, \<open>Heap_Steps\<close>):
  lists threaded through memory and the loop that links the blocks of a page, interpreted on descriptors
  and on objects. \<open>page_provider\<close> (\<open>Memory_Spec\<close>): what \<open>kmalloc\<close> relies on, interpreted on the page
  allocator. \<open>device_handler\<close> (\<open>Device_Interrupts\<close>): an interrupt that returns, interpreted on the keyboard
  and on the handler of all other devices.

  \<^bold>\<open>The running kernel.\<close> \<open>kernel_step\<close> has seven events: code of the current task (\<open>Run\<close>: any change of
  its registers, its stack and, before the first task, of low memory), a message, a clock interrupt, a
  key, another device's interrupt, the creation of a task, and the return of a task to
  \<open>task_exit_handler\<close>. \<open>cpu_inv\<close> holds after boot and every step keeps it; under it no interrupt is
  undefined. Hence the theorems about every run: dispatch order, the single time slice of a task,
  identity of an interrupted idle task, the refinement of \<open>sched_event\<close>.

  \<^bold>\<open>Bounds.\<close> There is no fuel: loops are recursive on their count or on a list, and loops that may not end
  are partial functions with their termination as theorems (\<open>String_Props\<close>). Hypotheses of the theorems:
  messages of at most 1023 characters (the buffer of \<open>printk\<close> has 1024), a memory zone below 256 MB (its
  page map has 65536 bytes), at most 12 items in the BIOS map (what fits below \<open>0x1200\<close>), task names of at
  most 31 characters (the array has 32) below \<open>0x10000\<close>, and 20 bytes of room on the stack of an
  interrupted task, the 16 bytes an interrupt pushes and one word more.

  \<^bold>\<open>The platform.\<close> The loader runs on a record of functions: reads and writes of ports, and three BIOS services.
  Its theorems assume that the drive answers a read command with its sectors (\<open>ata_disk\<close>) and that the BIOS
  returns its map item by item (\<open>bios_map\<close>), both documented interfaces; \<open>sample_platform\<close> has them. The
  theorem \<open>loader_boots_kernel\<close> joins loader and kernel: the state in which the loader jumps to the kernel
  satisfies \<open>boot_ok\<close>, the hypothesis of the theorems about \<open>kernel_main\<close>. That the static objects then have
  their initial values (\<open>static_initial\<close>) is a hypothesis: they are fields of the state, not bytes of the image.

  \<^bold>\<open>Not modelled.\<close> Segment registers, which are 0 in the loader and flat afterwards; the words that \<open>call\<close> and \<open>push\<close>
  leave in the loader. Return addresses and frames of C calls below
  the stack pointer. Values that C code leaves in \<open>eax\<close>, \<open>ecx\<close> and \<open>edx\<close> of an interrupted task are
  arguments (\<open>scratch_values\<close>). A message, a creation or an exit is one step: interrupts inside them are not
  modelled, although \<open>printk\<close> enables interrupts, which the findings record. Priorities have no effect in
  the code. \<open>ctrl_state\<close> and \<open>alt_state\<close> are never used. The functions
  \<open>task.h\<close> declares without a definition (\<open>task_sleep\<close>, \<open>task_wakeup\<close>, \<open>create_child\<close>, \<open>get_esp3\<close>,
  \<open>set_esp3\<close>) have nothing to translate. With paging off, addresses of the kernel are physical.
\<close>

end
